(* ===== verification/Go_Prelude.thy ===== *)
theory Go_Prelude
  imports Main "HOL-Library.Sublist" "HOL-Library.Multiset"
begin

text \<open>
  The part of Go and of its standard library that the gateway's code relies on, shared by every
  component theory: 64-bit integer wrap-around, the byte-string functions of package
  \<^verbatim>\<open>strings\<close> (\<^verbatim>\<open>TrimSpace\<close>, \<^verbatim>\<open>Split\<close>, \<^verbatim>\<open>Join\<close>, \<^verbatim>\<open>ReplaceAll\<close>, \<^verbatim>\<open>Contains\<close>, \<^verbatim>\<open>HasPrefix\<close>,
  \<^verbatim>\<open>Count\<close>), \<^verbatim>\<open>strconv.Itoa\<close> and \<^verbatim>\<open>strconv.Atoi\<close>, and stable sorting by a
  \<open>less\<close> function. A Go \<open>string\<close> is a byte string; it is an Isabelle \<open>string\<close>, whose characters
  are bytes.

  The collections: \<open>go_simps\<close> holds the unfolding equations the component proofs use,
  \<open>op_unfolds\<close> the definitions of a component's operations, \<open>frame_simps\<close> the equations that say
  which parts of a state an operation leaves alone, and \<open>inv_intros\<close> the invariant preservation
  lemmas.
\<close>

named_theorems go_simps "unfolding equations of the Go library functions"
named_theorems op_unfolds "definitions of the operations of a component"
named_theorems frame_simps "what an operation leaves unchanged"
named_theorems inv_intros "preservation of invariants by operations"

section \<open>64-bit integers\<close>

type_synonym unix_time = int

definition MaxInt64 :: int where
  "MaxInt64 = 2 ^ 63 - 1"

definition MinInt64 :: int where
  "MinInt64 = - (2 ^ 63)"

text \<open>The value a Go \<open>int64\<close> expression has when the mathematical result is \<open>x\<close>.\<close>

definition int64 :: "int \<Rightarrow> int" where
  "int64 x = (x + 2 ^ 63) mod 2 ^ 64 - 2 ^ 63"

definition in_int64 :: "int \<Rightarrow> bool" where
  "in_int64 x \<longleftrightarrow> MinInt64 \<le> x \<and> x \<le> MaxInt64"

lemma int64_id [simp]: "in_int64 x \<Longrightarrow> int64 x = x"
  by (simp add: int64_def in_int64_def MinInt64_def MaxInt64_def)

lemma int64_in_range: "in_int64 (int64 x)"
proof -
  have "0 \<le> (x + 2 ^ 63) mod 2 ^ 64" by simp
  moreover have "(x + 2 ^ 63) mod 2 ^ 64 < 2 ^ 64" by simp
  ultimately show ?thesis
    by (simp add: int64_def in_int64_def MinInt64_def MaxInt64_def)
qed

lemma int64_cong: "int64 x mod 2 ^ 64 = x mod 2 ^ 64"
proof -
  have "int64 x mod 2 ^ 64 = ((x + 2 ^ 63) mod 2 ^ 64 - 2 ^ 63) mod 2 ^ 64"
    by (simp add: int64_def)
  also have "\<dots> = (x + 2 ^ 63 - 2 ^ 63) mod 2 ^ 64"
    by (rule mod_diff_left_eq)
  finally show ?thesis by simp
qed

text \<open>Go's integer division and remainder truncate towards zero.\<close>

definition go_div :: "int \<Rightarrow> int \<Rightarrow> int" where
  "go_div a b = sgn a * sgn b * (\<bar>a\<bar> div \<bar>b\<bar>)"

definition go_mod :: "int \<Rightarrow> int \<Rightarrow> int" where
  "go_mod a b = a - b * go_div a b"

lemma go_div_nonneg [simp]: "0 \<le> a \<Longrightarrow> 0 < b \<Longrightarrow> go_div a b = a div b"
  by (cases "a = 0") (auto simp: go_div_def)

lemma go_mod_nonneg [simp]: "0 \<le> a \<Longrightarrow> 0 < b \<Longrightarrow> go_mod a b = a mod b"
  by (simp add: go_mod_def minus_mult_div_eq_mod)

section \<open>Package strings\<close>

text \<open>
  \<^verbatim>\<open>unicode.IsSpace\<close> on UTF-8 input: the byte sequences of the white space code points. A valid
  sequence is a prefix (suffix) of a string exactly when \<^verbatim>\<open>DecodeRune\<close> (\<^verbatim>\<open>DecodeLastRune\<close>) yields
  that code point.
\<close>

definition space_encodings :: "string list" where
  "space_encodings =
    [[CHR 0x09], [CHR 0x0A], [CHR 0x0B], [CHR 0x0C], [CHR 0x0D], [CHR 0x20],
     [CHR 0xC2, CHR 0x85], [CHR 0xC2, CHR 0xA0], [CHR 0xE1, CHR 0x9A, CHR 0x80],
     [CHR 0xE2, CHR 0x80, CHR 0x80], [CHR 0xE2, CHR 0x80, CHR 0x81],
     [CHR 0xE2, CHR 0x80, CHR 0x82], [CHR 0xE2, CHR 0x80, CHR 0x83],
     [CHR 0xE2, CHR 0x80, CHR 0x84], [CHR 0xE2, CHR 0x80, CHR 0x85],
     [CHR 0xE2, CHR 0x80, CHR 0x86], [CHR 0xE2, CHR 0x80, CHR 0x87],
     [CHR 0xE2, CHR 0x80, CHR 0x88], [CHR 0xE2, CHR 0x80, CHR 0x89],
     [CHR 0xE2, CHR 0x80, CHR 0x8A], [CHR 0xE2, CHR 0x80, CHR 0xA8],
     [CHR 0xE2, CHR 0x80, CHR 0xA9], [CHR 0xE2, CHR 0x80, CHR 0xAF],
     [CHR 0xE2, CHR 0x81, CHR 0x9F], [CHR 0xE3, CHR 0x80, CHR 0x80]]"

fun drop_prefix :: "'a list \<Rightarrow> 'a list \<Rightarrow> 'a list option" where
  "drop_prefix [] s = Some s"
| "drop_prefix (p # ps) [] = None"
| "drop_prefix (p # ps) (c # cs) = (if p = c then drop_prefix ps cs else None)"

fun drop_first :: "'a list list \<Rightarrow> 'a list \<Rightarrow> 'a list option" where
  "drop_first [] s = None"
| "drop_first (p # ps) s = (case drop_prefix p s of Some r \<Rightarrow> Some r | None \<Rightarrow> drop_first ps s)"

lemma drop_prefix_Some: "drop_prefix p s = Some r \<longleftrightarrow> s = p @ r"
  by (induction p s rule: drop_prefix.induct) auto

lemma drop_first_Some: "drop_first ps s = Some r \<Longrightarrow> \<exists>p \<in> set ps. s = p @ r"
  by (induction ps) (auto split: option.splits simp: drop_prefix_Some)

lemma drop_prefix_None: "drop_prefix p s = None \<longleftrightarrow> \<not> prefix p s"
  by (induction p s rule: drop_prefix.induct) auto

lemma drop_first_None: "drop_first ps s = None \<longleftrightarrow> (\<forall>p \<in> set ps. \<not> prefix p s)"
  by (induction ps) (auto split: option.splits simp: drop_prefix_Some drop_prefix_None)

text \<open>Strip every leading occurrence of one of \<open>ps\<close>; the empty sequence strips nothing.\<close>

function trim_left :: "'a list list \<Rightarrow> 'a list \<Rightarrow> 'a list" where
  "trim_left ps s =
     (case drop_first ps s of
        None \<Rightarrow> s
      | Some r \<Rightarrow> if length r < length s then trim_left ps r else s)"
  by pat_completeness auto
termination
  by (relation "measure (\<lambda>(ps, s). length s)") auto

declare trim_left.simps [simp del]

definition trim_right :: "'a list list \<Rightarrow> 'a list \<Rightarrow> 'a list" where
  "trim_right ps s = rev (trim_left (map rev ps) (rev s))"

definition TrimSpace :: "string \<Rightarrow> string" where
  "TrimSpace s = trim_right space_encodings (trim_left space_encodings s)"

lemma trim_left_Nil [simp]: "trim_left ps [] = []"
  by (subst trim_left.simps) (auto split: option.splits)

lemma trim_left_none: "\<forall>p \<in> set ps. \<not> prefix p s \<Longrightarrow> trim_left ps s = s"
  by (subst trim_left.simps) (simp add: drop_first_None [THEN iffD2])

lemma trim_left_suffix: "suffix (trim_left ps s) s"
proof (induction ps s rule: trim_left.induct)
  case (1 ps s)
  show ?case
  proof (cases "drop_first ps s")
    case None
    then show ?thesis by (subst trim_left.simps) simp
  next
    case (Some r)
    then have "suffix r s"
      using drop_first_Some [OF Some] by (auto simp: suffix_def)
    with 1 [OF Some] Some show ?thesis
      by (subst trim_left.simps) (auto intro: suffix_order.trans)
  qed
qed

lemma trim_right_prefix: "prefix (trim_right ps s) s"
  using trim_left_suffix [of "map rev ps" "rev s"]
  by (simp add: trim_right_def suffix_to_prefix)

lemma set_TrimSpace_subset: "set (TrimSpace s) \<subseteq> set s"
proof -
  have "set (TrimSpace s) \<subseteq> set (trim_left space_encodings s)"
    unfolding TrimSpace_def by (rule set_mono_prefix [OF trim_right_prefix])
  also have "\<dots> \<subseteq> set s"
    by (rule set_mono_suffix [OF trim_left_suffix])
  finally show ?thesis .
qed

text \<open>A byte that begins or ends no encoding of a white space code point.\<close>

definition edge_solid :: "char \<Rightarrow> bool" where
  "edge_solid c \<longleftrightarrow> (\<forall>p \<in> set space_encodings. p \<noteq> [] \<and> hd p \<noteq> c \<and> last p \<noteq> c)"

lemma space_encodings_nonempty [simp]: "[] \<notin> set space_encodings"
  by (simp add: space_encodings_def)

lemma TrimSpace_solid:
  assumes "s = [] \<or> (edge_solid (hd s) \<and> edge_solid (last s))"
  shows "TrimSpace s = s"
proof (cases "s = []")
  case True
  then show ?thesis by (simp add: TrimSpace_def trim_right_def)
next
  case False
  have "\<forall>p \<in> set space_encodings. \<not> prefix p s"
    using False assms by (auto simp: prefix_def edge_solid_def)
  then have l: "trim_left space_encodings s = s" by (rule trim_left_none)
  have "\<forall>p \<in> set (map rev space_encodings). \<not> prefix p (rev s)"
  proof
    fix p assume "p \<in> set (map rev space_encodings)"
    then obtain q where q: "q \<in> set space_encodings" "p = rev q" by auto
    have "suffix q s \<Longrightarrow> last q = last s"
      using q(1) assms False by (auto simp: suffix_def edge_solid_def)
    with q assms False show "\<not> prefix p (rev s)"
      by (auto simp: edge_solid_def suffix_to_prefix [symmetric])
  qed
  then have "trim_left (map rev space_encodings) (rev s) = rev s" by (rule trim_left_none)
  with l show ?thesis by (simp add: TrimSpace_def trim_right_def)
qed

text \<open>\<^verbatim>\<open>strings.Split(s, sep)\<close> for a separator of one byte.\<close>

fun Split :: "string \<Rightarrow> char \<Rightarrow> string list" where
  "Split [] d = [[]]"
| "Split (c # cs) d =
     (if c = d then [] # Split cs d
      else (case Split cs d of [] \<Rightarrow> [[c]] | p # ps \<Rightarrow> (c # p) # ps))"

fun Join :: "string list \<Rightarrow> string \<Rightarrow> string" where
  "Join [] sep = []"
| "Join [p] sep = p"
| "Join (p # q # ps) sep = p @ sep @ Join (q # ps) sep"

lemma Split_nonempty [simp]: "Split s d \<noteq> []"
  by (induction s) (auto split: list.splits)

lemma Split_no_sep: "d \<notin> set s \<Longrightarrow> Split s d = [s]"
  by (induction s) auto

lemma Split_append_sep: "d \<notin> set s \<Longrightarrow> Split (s @ d # t) d = s # Split t d"
  by (induction s) auto

lemma Split_Join:
  "ps \<noteq> [] \<Longrightarrow> \<forall>p \<in> set ps. d \<notin> set p \<Longrightarrow> Split (Join ps [d]) d = ps"
  by (induction ps "[d]" rule: Join.induct) (auto simp: Split_no_sep Split_append_sep)

lemma Join_Split: "Join (Split s d) [d] = s"
proof (induction s)
  case Nil
  then show ?case by simp
next
  case (Cons c s)
  obtain p ps where "Split s d = p # ps" by (cases "Split s d") auto
  with Cons show ?case by (cases ps) auto
qed

lemma Split_pieces: "p \<in> set (Split s d) \<Longrightarrow> d \<notin> set p \<and> set p \<subseteq> set s"
  by (induction s arbitrary: p) (force split: list.splits if_splits)+

text \<open>\<^verbatim>\<open>strings.ReplaceAll\<close> for a pattern of one byte.\<close>

definition ReplaceByte :: "string \<Rightarrow> char \<Rightarrow> string \<Rightarrow> string" where
  "ReplaceByte s c r = concat (map (\<lambda>x. if x = c then r else [x]) s)"

lemma ReplaceByte_Nil [simp]: "ReplaceByte [] c r = []"
  by (simp add: ReplaceByte_def)

lemma ReplaceByte_Cons [simp]:
  "ReplaceByte (x # s) c r = (if x = c then r else [x]) @ ReplaceByte s c r"
  by (simp add: ReplaceByte_def)

lemma ReplaceByte_empty: "ReplaceByte s c [] = filter (\<lambda>x. x \<noteq> c) s"
  by (induction s) auto

lemma ReplaceByte_absent: "c \<notin> set s \<Longrightarrow> ReplaceByte s c r = s"
  by (induction s) auto

text \<open>\<^verbatim>\<open>strings.ReplaceAll\<close> for a non-empty pattern of several bytes, left to right.\<close>

function ReplaceAll :: "string \<Rightarrow> string \<Rightarrow> string \<Rightarrow> string" where
  "ReplaceAll [] pat r = []"
| "ReplaceAll (c # cs) pat r =
     (case drop_prefix pat (c # cs) of
        Some rest \<Rightarrow> if length rest < length (c # cs) then r @ ReplaceAll rest pat r
                     else c # ReplaceAll cs pat r
      | None \<Rightarrow> c # ReplaceAll cs pat r)"
  by pat_completeness auto
termination
  by (relation "measure (\<lambda>(s, pat, r). length s)") auto

lemma ReplaceAll_absent:
  "pat \<noteq> [] \<Longrightarrow> hd pat \<notin> set s \<Longrightarrow> ReplaceAll s pat r = s"
  by (induction s pat r rule: ReplaceAll.induct)
    (auto split: option.splits simp: drop_prefix_Some neq_Nil_conv)

definition Contains :: "string \<Rightarrow> string \<Rightarrow> bool" where
  "Contains s t \<longleftrightarrow> sublist t s"

definition HasPrefix :: "string \<Rightarrow> string \<Rightarrow> bool" where
  "HasPrefix s p \<longleftrightarrow> prefix p s"

definition TrimPrefix :: "string \<Rightarrow> string \<Rightarrow> string" where
  "TrimPrefix s p = (case drop_prefix p s of Some r \<Rightarrow> r | None \<Rightarrow> s)"

lemma Contains_byte [simp]: "Contains s [c] \<longleftrightarrow> c \<in> set s"
proof
  assume "Contains s [c]"
  then show "c \<in> set s" by (auto simp: Contains_def sublist_def)
next
  assume "c \<in> set s"
  then obtain a b where "s = a @ c # b" by (auto simp: in_set_conv_decomp)
  then show "Contains s [c]" by (auto simp: Contains_def sublist_def intro: exI [of _ a])
qed

definition HasSuffix :: "string \<Rightarrow> string \<Rightarrow> bool" where
  "HasSuffix s p \<longleftrightarrow> suffix p s"

definition TrimSuffix :: "string \<Rightarrow> string \<Rightarrow> string" where
  "TrimSuffix s p = (if suffix p s then take (length s - length p) s else s)"

text \<open>\<^verbatim>\<open>strings.Cut\<close>: around the first occurrence of a non-empty separator.\<close>

fun Cut :: "string \<Rightarrow> string \<Rightarrow> (string \<times> string) option" where
  "Cut [] sep = None"
| "Cut (c # cs) sep =
     (case drop_prefix sep (c # cs) of
        Some rest \<Rightarrow> Some ([], rest)
      | None \<Rightarrow> map_option (\<lambda>(a, b). (c # a, b)) (Cut cs sep))"

lemma Cut_Some: "Cut s sep = Some (a, b) \<Longrightarrow> s = a @ sep @ b"
  by (induction s arbitrary: a) (auto simp: drop_prefix_Some split: option.splits)

lemma Cut_None: "sep \<noteq> [] \<Longrightarrow> Cut s sep = None \<longleftrightarrow> \<not> sublist sep s"
  by (induction s) (auto simp: drop_prefix_None drop_prefix_Some sublist_Cons_right prefix_def split: option.splits)

text \<open>\<^verbatim>\<open>strings.Split\<close> at a non-empty separator of several bytes, \<^verbatim>\<open>strings.Replace(s, pat, r, 1)\<close>.\<close>

function SplitOn :: "string \<Rightarrow> string \<Rightarrow> string list" where
  "SplitOn s sep =
     (case Cut s sep of
        Some (a, b) \<Rightarrow> if length b < length s then a # SplitOn b sep else [s]
      | None \<Rightarrow> [s])"
  by pat_completeness auto
termination
  by (relation "measure (\<lambda>(s, sep). length s)") auto

declare SplitOn.simps [simp del]

definition ReplaceFirst :: "string \<Rightarrow> string \<Rightarrow> string \<Rightarrow> string" where
  "ReplaceFirst s pat r = (case Cut s pat of Some (a, b) \<Rightarrow> a @ r @ b | None \<Rightarrow> s)"

text \<open>\<^verbatim>\<open>strings.Trim(s, c)\<close> for a cutset of one byte.\<close>

definition TrimByte :: "string \<Rightarrow> char \<Rightarrow> string" where
  "TrimByte s c = rev (dropWhile (\<lambda>x. x = c) (rev (dropWhile (\<lambda>x. x = c) s)))"

section \<open>Package strconv\<close>

definition digit_char :: "nat \<Rightarrow> char" where
  "digit_char d = char_of (48 + d)"

definition digit_val :: "char \<Rightarrow> nat option" where
  "digit_val c = (let n = of_char c :: nat in if 48 \<le> n \<and> n \<le> 57 then Some (n - 48) else None)"

fun nat_digits :: "nat \<Rightarrow> string" where
  "nat_digits n = (if n < 10 then [digit_char n] else nat_digits (n div 10) @ [digit_char (n mod 10)])"

declare nat_digits.simps [simp del]

definition Itoa :: "int \<Rightarrow> string" where
  "Itoa i = (if i < 0 then CHR ''-'' # nat_digits (nat (- i)) else nat_digits (nat i))"

fun digits_val :: "nat \<Rightarrow> string \<Rightarrow> nat option" where
  "digits_val acc [] = Some acc"
| "digits_val acc (c # cs) =
     (case digit_val c of None \<Rightarrow> None | Some d \<Rightarrow> digits_val (10 * acc + d) cs)"

definition parse_nat :: "string \<Rightarrow> nat option" where
  "parse_nat s = (if s = [] then None else digits_val 0 s)"

text \<open>\<^verbatim>\<open>strconv.Atoi\<close>: an optional sign, decimal digits only, within the 64-bit range.\<close>

definition Atoi :: "string \<Rightarrow> int option" where
  "Atoi s =
     (let (neg, body) = (case s of [] \<Rightarrow> (False, [])
                          | c # cs \<Rightarrow> if c = CHR ''-'' then (True, cs)
                                      else if c = CHR ''+'' then (False, cs) else (False, s))
      in case parse_nat body of
           None \<Rightarrow> None
         | Some n \<Rightarrow> (let v = (if neg then - int n else int n) in if in_int64 v then Some v else None))"

lemma of_char_digit_char: "d < 10 \<Longrightarrow> of_char (digit_char d) = 48 + d"
  by (simp add: digit_char_def)

lemma digit_val_digit_char [simp]: "d < 10 \<Longrightarrow> digit_val (digit_char d) = Some d"
  by (simp add: digit_val_def of_char_digit_char)

lemma digit_char_solid: "d < 10 \<Longrightarrow> edge_solid (digit_char d)"
proof -
  assume "d < 10"
  then have "of_char (digit_char d) \<in> {48..57::nat}" by (simp add: of_char_digit_char)
  moreover have "\<forall>p \<in> set space_encodings. p \<noteq> [] \<and> of_char (hd p) \<notin> {48..57::nat} \<and> of_char (last p) \<notin> {48..57::nat}"
    by code_simp
  ultimately show ?thesis unfolding edge_solid_def by metis
qed

lemma digits_val_append:
  "digits_val acc (s @ t) = (case digits_val acc s of None \<Rightarrow> None | Some a \<Rightarrow> digits_val a t)"
  by (induction s arbitrary: acc) (auto split: option.splits)

lemma nat_digits_nonempty [simp]: "nat_digits n \<noteq> []"
  by (subst nat_digits.simps) simp

lemma digits_val_nat_digits: "digits_val 0 (nat_digits n) = Some n"
proof (induction n rule: nat_digits.induct)
  case (1 n)
  show ?case
  proof (cases "n < 10")
    case True
    then show ?thesis by (subst nat_digits.simps) simp
  next
    case False
    with 1 have "digits_val 0 (nat_digits (n div 10)) = Some (n div 10)" by simp
    with False show ?thesis
      by (subst nat_digits.simps) (simp add: digits_val_append)
  qed
qed

lemma set_nat_digits: "c \<in> set (nat_digits n) \<Longrightarrow> \<exists>d < 10. c = digit_char d"
proof (induction n rule: nat_digits.induct)
  case (1 n)
  show ?case
  proof (cases "n < 10")
    case True
    with "1.prems" show ?thesis by (subst (asm) nat_digits.simps) auto
  next
    case False
    with "1.prems" have "c \<in> set (nat_digits (n div 10)) \<or> c = digit_char (n mod 10)"
      by (subst (asm) nat_digits.simps) auto
    with False "1.IH" show ?thesis by (metis mod_less_divisor zero_less_numeral)
  qed
qed

lemma digit_char_neq [simp]:
  assumes "d < 10"
  shows "digit_char d \<noteq> CHR ''-''" "digit_char d \<noteq> CHR ''+''" "digit_char d \<noteq> CHR '',''"
    "digit_char d \<noteq> CHR '' ''"
proof -
  have "of_char (digit_char d) = 48 + d" using assms by (rule of_char_digit_char)
  then have "of_char (digit_char d) \<noteq> (of_char CHR ''-'' :: nat)"
    "of_char (digit_char d) \<noteq> (of_char CHR ''+'' :: nat)"
    "of_char (digit_char d) \<noteq> (of_char CHR '','' :: nat)"
    "of_char (digit_char d) \<noteq> (of_char CHR '' '' :: nat)" by auto
  then show "digit_char d \<noteq> CHR ''-''" "digit_char d \<noteq> CHR ''+''" "digit_char d \<noteq> CHR '',''"
    "digit_char d \<noteq> CHR '' ''" by metis+
qed

lemma nat_digits_no:
  "CHR ''-'' \<notin> set (nat_digits n)" "CHR ''+'' \<notin> set (nat_digits n)"
  "CHR '','' \<notin> set (nat_digits n)" "CHR '' '' \<notin> set (nat_digits n)"
  using set_nat_digits digit_char_neq by metis+

lemma parse_nat_nat_digits [simp]: "parse_nat (nat_digits n) = Some n"
  by (simp add: parse_nat_def digits_val_nat_digits)

theorem Atoi_Itoa: "in_int64 i \<Longrightarrow> Atoi (Itoa i) = Some i"
proof (cases "i < 0")
  case True
  assume "in_int64 i"
  with True show ?thesis by (simp add: Atoi_def Itoa_def Let_def)
next
  case False
  assume *: "in_int64 i"
  obtain c cs where ccs: "nat_digits (nat i) = c # cs"
    by (cases "nat_digits (nat i)") auto
  then have "c \<noteq> CHR ''-''" "c \<noteq> CHR ''+''"
    using nat_digits_no [of "nat i"] by auto
  with False * ccs show ?thesis
    using parse_nat_nat_digits [of "nat i"] by (simp add: Atoi_def Itoa_def Let_def)
qed

section \<open>Sorting by a less function\<close>

text \<open>
  \<^verbatim>\<open>sort.SliceStable(xs, less)\<close>, where \<open>less\<close> is a strict weak order: stable insertion, each element
  placed behind the ones it is not less than.
\<close>

fun insert_by :: "('a \<Rightarrow> 'a \<Rightarrow> bool) \<Rightarrow> 'a \<Rightarrow> 'a list \<Rightarrow> 'a list" where
  "insert_by lt x [] = [x]"
| "insert_by lt x (y # ys) = (if lt y x then y # insert_by lt x ys else x # y # ys)"

definition sort_by :: "('a \<Rightarrow> 'a \<Rightarrow> bool) \<Rightarrow> 'a list \<Rightarrow> 'a list" where
  "sort_by lt xs = foldr (insert_by lt) xs []"

lemma mset_insert_by [simp]: "mset (insert_by lt x xs) = add_mset x (mset xs)"
  by (induction xs) auto

lemma mset_sort_by [simp]: "mset (sort_by lt xs) = mset xs"
  by (induction xs) (auto simp: sort_by_def)

lemma set_sort_by [simp]: "set (sort_by lt xs) = set xs"
  using mset_eq_setD [OF mset_sort_by] .

lemma length_sort_by [simp]: "length (sort_by lt xs) = length xs"
  by (metis mset_sort_by size_mset)

lemma sort_by_Nil [simp]: "sort_by lt [] = []"
  by (simp add: sort_by_def)

lemma sort_by_eq_Nil [simp]: "sort_by lt xs = [] \<longleftrightarrow> xs = []"
  by (metis length_0_conv length_sort_by)

lemma sort_by_Cons [simp]: "sort_by lt (x # xs) = insert_by lt x (sort_by lt xs)"
  by (simp add: sort_by_def)

lemma distinct_sort_by [simp]: "distinct (sort_by lt xs) = distinct xs"
  by (metis mset_sort_by distinct_count_atmost_1 set_mset_mset)

text \<open>The result is ordered: no element is less than one before it.\<close>

definition strict_weak :: "('a \<Rightarrow> 'a \<Rightarrow> bool) \<Rightarrow> bool" where
  "strict_weak lt \<longleftrightarrow>
     (\<forall>x. \<not> lt x x) \<and> (\<forall>x y z. lt x y \<longrightarrow> lt y z \<longrightarrow> lt x z) \<and>
     (\<forall>x y z. \<not> lt x y \<longrightarrow> \<not> lt y z \<longrightarrow> \<not> lt x z)"

lemma strict_weakD:
  assumes "strict_weak lt"
  shows "\<not> lt x x" "lt x y \<Longrightarrow> lt y z \<Longrightarrow> lt x z" "\<not> lt x y \<Longrightarrow> \<not> lt y z \<Longrightarrow> \<not> lt x z"
  using assms unfolding strict_weak_def by blast+

lemma strict_weak_asym: "strict_weak lt \<Longrightarrow> lt x y \<Longrightarrow> \<not> lt y x"
  by (metis strict_weakD(1,2))

lemma set_insert_by [simp]: "set (insert_by lt x xs) = insert x (set xs)"
  by (induction xs) auto

lemma sorted_insert_by:
  assumes "strict_weak lt" and "sorted_wrt (\<lambda>a b. \<not> lt b a) xs"
  shows "sorted_wrt (\<lambda>a b. \<not> lt b a) (insert_by lt x xs)"
  using assms(2)
proof (induction xs)
  case Nil
  then show ?case by simp
next
  case (Cons y ys)
  show ?case
  proof (cases "lt y x")
    case True
    then have "\<not> lt x y" by (rule strict_weak_asym [OF assms(1)])
    with True Cons show ?thesis by simp
  next
    case False
    with Cons.prems have "\<forall>z \<in> set (y # ys). \<not> lt z x"
      by (metis set_ConsD sorted_wrt.simps(2) strict_weakD(3) [OF assms(1)])
    with False Cons.prems show ?thesis by simp
  qed
qed

lemma sorted_sort_by: "strict_weak lt \<Longrightarrow> sorted_wrt (\<lambda>a b. \<not> lt b a) (sort_by lt xs)"
  by (induction xs) (auto simp: sorted_insert_by)

section \<open>Lists and maps\<close>

lemma sum_list_map_add: "(\<Sum>x\<leftarrow>xs. f x + g x) = sum_list (map f xs) + (sum_list (map g xs) :: int)"
  by (induction xs) auto

lemma map_if_id_absent:
  "\<forall>x \<in> set xs. key x \<noteq> k \<Longrightarrow> map (\<lambda>x. if key x = k then f x else x) xs = xs"
  by (induction xs) auto

end
