(* ===== verification/Quota_Math.thy ===== *)
theory Quota_Math
  imports Complex_Main Go_Prelude
begin

text \<open>
  Quota conversions (src/common/quota_math.go): every billing path turns a
  computed price into an integer quota through these functions, which round,
  saturate at the 32-bit range of the quota columns and report each saturation.

  A float64 is its mathematical value: NaN, one of the two infinities, or a
  finite rational (both zeros are \<open>Fin 0\<close>; the conversions to int do not tell
  them apart).  The decimals of github.com/shopspring/decimal are a parameter:
  \<open>QuotaFromDecimalChecked\<close> takes the float64 that \<open>d.Round(0).Float64()\<close> returns.
  Logging has no effect on the result and is left out.
\<close>

section \<open>Data\<close>

datatype float64 = NaN | PosInf | NegInf | Fin rat

definition MaxQuota :: int where
  "MaxQuota = 2147483647"

definition MinQuota :: int where
  "MinQuota = - 2147483648"

datatype QuotaClampKind = QuotaClampOverflow | QuotaClampUnderflow | QuotaClampNaN

record QuotaClamp =
  clamp_Op :: string
  clamp_Kind :: QuotaClampKind
  clamp_Original :: float64
  clamp_Clamped :: int

section \<open>Operations\<close>

fun IsNaN :: "float64 \<Rightarrow> bool" where
  "IsNaN NaN = True"
| "IsNaN _ = False"

fun float_ge :: "float64 \<Rightarrow> int \<Rightarrow> bool" where
  "float_ge (Fin r) k = (of_int k \<le> r)"
| "float_ge PosInf k = True"
| "float_ge NegInf k = False"
| "float_ge NaN k = False"

fun float_le :: "float64 \<Rightarrow> int \<Rightarrow> bool" where
  "float_le (Fin r) k = (r \<le> of_int k)"
| "float_le PosInf k = False"
| "float_le NegInf k = True"
| "float_le NaN k = False"

definition trunc_rat :: "rat \<Rightarrow> int" where
  "trunc_rat r = (if 0 \<le> r then \<lfloor>r\<rfloor> else \<lceil>r\<rceil>)"

definition round_away :: "rat \<Rightarrow> int" where
  "round_away r = (if 0 \<le> r then \<lfloor>r + 1/2\<rfloor> else \<lceil>r - 1/2\<rceil>)"

text \<open>\<open>int(value)\<close>; it is only reached for a finite value inside the int32 range.\<close>

fun int_of_float :: "float64 \<Rightarrow> int" where
  "int_of_float (Fin r) = trunc_rat r"
| "int_of_float _ = MinInt64"

text \<open>\<open>math.Round\<close>: half away from zero; NaN and the infinities are fixed points.\<close>

fun math_Round :: "float64 \<Rightarrow> float64" where
  "math_Round (Fin r) = Fin (of_int (round_away r))"
| "math_Round v = v"

definition saturateQuota :: "float64 \<Rightarrow> string \<Rightarrow> int \<times> QuotaClamp option" where
  "saturateQuota value op =
    (if IsNaN value then
       (0, Some \<lparr>clamp_Op = op, clamp_Kind = QuotaClampNaN, clamp_Original = value, clamp_Clamped = 0\<rparr>)
     else if float_ge value MaxQuota then
       (MaxQuota, Some \<lparr>clamp_Op = op, clamp_Kind = QuotaClampOverflow, clamp_Original = value,
                         clamp_Clamped = MaxQuota\<rparr>)
     else if float_le value MinQuota then
       (MinQuota, Some \<lparr>clamp_Op = op, clamp_Kind = QuotaClampUnderflow, clamp_Original = value,
                         clamp_Clamped = MinQuota\<rparr>)
     else (int_of_float value, None))"

fun strictQuota :: "int \<times> QuotaClamp option \<Rightarrow> QuotaClamp + int" where
  "strictQuota (quota, Some clamp) = Inl clamp"
| "strictQuota (quota, None) = Inr quota"

definition QuotaFromFloatChecked :: "float64 \<Rightarrow> int \<times> QuotaClamp option" where
  "QuotaFromFloatChecked value = saturateQuota value ''QuotaFromFloat''"

definition QuotaFromFloat :: "float64 \<Rightarrow> int" where
  "QuotaFromFloat value = fst (QuotaFromFloatChecked value)"

definition QuotaFromFloatStrict :: "float64 \<Rightarrow> QuotaClamp + int" where
  "QuotaFromFloatStrict value = strictQuota (QuotaFromFloatChecked value)"

definition QuotaRoundChecked :: "float64 \<Rightarrow> int \<times> QuotaClamp option" where
  "QuotaRoundChecked value = saturateQuota (math_Round value) ''QuotaRound''"

definition QuotaRound :: "float64 \<Rightarrow> int" where
  "QuotaRound value = fst (QuotaRoundChecked value)"

definition QuotaRoundStrict :: "float64 \<Rightarrow> QuotaClamp + int" where
  "QuotaRoundStrict value = strictQuota (QuotaRoundChecked value)"

definition QuotaFromDecimalChecked :: "('d \<Rightarrow> float64) \<Rightarrow> 'd \<Rightarrow> int \<times> QuotaClamp option" where
  "QuotaFromDecimalChecked round_float d = saturateQuota (round_float d) ''QuotaFromDecimal''"

definition QuotaFromDecimal :: "('d \<Rightarrow> float64) \<Rightarrow> 'd \<Rightarrow> int" where
  "QuotaFromDecimal round_float d = fst (QuotaFromDecimalChecked round_float d)"

section \<open>Rounding\<close>

lemmas quota_bounds = MaxQuota_def MinQuota_def

lemma trunc_of_int [simp]: "trunc_rat (of_int k) = k"
  by (simp add: trunc_rat_def)

lemma trunc_mono: "r \<le> s \<Longrightarrow> trunc_rat r \<le> trunc_rat s"
proof -
  assume le: "r \<le> s"
  have "\<lceil>r\<rceil> \<le> 0" if "r < 0" using that by (simp add: ceiling_le_iff)
  moreover have "0 \<le> \<lfloor>s\<rfloor>" if "0 \<le> s" using that by simp
  ultimately have "\<lceil>r\<rceil> \<le> \<lfloor>s\<rfloor>" if "r < 0" "0 \<le> s" using that by (meson order_trans)
  then show ?thesis
    using le floor_mono [OF le] ceiling_mono [OF le] by (auto simp: trunc_rat_def)
qed

lemma trunc_bounds:
  assumes "of_int a < r" "r < of_int b"
  shows "a \<le> trunc_rat r \<and> trunc_rat r \<le> b"
  using trunc_mono [of "of_int a" r] trunc_mono [of r "of_int b"] assms by simp

lemma round_away_mono: "r \<le> s \<Longrightarrow> round_away r \<le> round_away s"
proof -
  assume le: "r \<le> s"
  have "\<lceil>r - 1/2\<rceil> \<le> 0" if "r < 0" using that by (simp add: ceiling_le_iff)
  moreover have "0 \<le> \<lfloor>s + 1/2\<rfloor>" if "0 \<le> s" using that by simp
  ultimately have "\<lceil>r - 1/2\<rceil> \<le> \<lfloor>s + 1/2\<rfloor>" if "r < 0" "0 \<le> s" using that by (meson order_trans)
  moreover have "\<lfloor>r + 1/2\<rfloor> \<le> \<lfloor>s + 1/2\<rfloor>" "\<lceil>r - 1/2\<rceil> \<le> \<lceil>s - 1/2\<rceil>"
    using le by (simp_all add: floor_mono ceiling_mono)
  ultimately show ?thesis using le by (auto simp: round_away_def)
qed

lemma round_away_error: "\<bar>of_int (round_away r) - r\<bar> \<le> 1/2"
proof (cases "0 \<le> r")
  case True
  have "of_int \<lfloor>r + 1/2\<rfloor> \<le> r + 1/2" "r + 1/2 < of_int \<lfloor>r + 1/2\<rfloor> + 1" by linarith+
  then show ?thesis using True unfolding round_away_def by (simp only: abs_le_iff if_True) linarith
next
  case False
  have "r - 1/2 \<le> of_int \<lceil>r - 1/2\<rceil>" "of_int \<lceil>r - 1/2\<rceil> < r - 1/2 + 1" by linarith+
  then show ?thesis using False unfolding round_away_def by (simp only: abs_le_iff if_False) linarith
qed

section \<open>Saturation\<close>

lemma saturate_fin:
  "saturateQuota (Fin r) op =
    (if of_int MaxQuota \<le> r then
       (MaxQuota, Some \<lparr>clamp_Op = op, clamp_Kind = QuotaClampOverflow, clamp_Original = Fin r,
                         clamp_Clamped = MaxQuota\<rparr>)
     else if r \<le> of_int MinQuota then
       (MinQuota, Some \<lparr>clamp_Op = op, clamp_Kind = QuotaClampUnderflow, clamp_Original = Fin r,
                         clamp_Clamped = MinQuota\<rparr>)
     else (trunc_rat r, None))"
  by (simp add: saturateQuota_def)

lemma saturate_range: "MinQuota \<le> fst (saturateQuota v op) \<and> fst (saturateQuota v op) \<le> MaxQuota"
proof (cases v)
  case (Fin r)
  then show ?thesis
    using trunc_bounds [of MinQuota r MaxQuota] by (auto simp: saturate_fin quota_bounds)
qed (auto simp: saturateQuota_def quota_bounds)

lemma saturate_clamped: "snd (saturateQuota v op) = Some c \<Longrightarrow>
    clamp_Clamped c = fst (saturateQuota v op) \<and> clamp_Original c = v \<and> clamp_Op c = op"
  by (auto simp: saturateQuota_def split: if_splits)

lemma saturate_unclamped: "snd (saturateQuota v op) = None \<longleftrightarrow>
    (\<exists>r. v = Fin r \<and> of_int MinQuota < r \<and> r < of_int MaxQuota \<and> fst (saturateQuota v op) = trunc_rat r)"
  by (cases v) (auto simp: saturateQuota_def not_le)

lemma saturate_fin_mono: "r \<le> s \<Longrightarrow> fst (saturateQuota (Fin r) op) \<le> fst (saturateQuota (Fin s) op)"
  using trunc_mono [of r s] trunc_bounds [of MinQuota r MaxQuota] trunc_bounds [of MinQuota s MaxQuota]
  by (auto simp: saturate_fin quota_bounds)

lemma saturate_sign: "0 \<le> r \<Longrightarrow> 0 \<le> fst (saturateQuota (Fin r) op)"
  using saturate_fin_mono [of 0 r op] by (simp add: saturate_fin quota_bounds trunc_rat_def)

section \<open>Properties\<close>


text \<open>
  C30. Saturation never turns a charge into a credit, and a larger computed price never
  gives a smaller quota: both conversions are monotone in the value and keep its sign.
\<close>

theorem quota_conversions_monotone:
  assumes "r \<le> s"
  shows "QuotaRound (Fin r) \<le> QuotaRound (Fin s) \<and> QuotaFromFloat (Fin r) \<le> QuotaFromFloat (Fin s)
    \<and> (0 \<le> r \<longrightarrow> 0 \<le> QuotaRound (Fin r) \<and> 0 \<le> QuotaFromFloat (Fin r))"
proof -
  have "(of_int (round_away r) :: rat) \<le> of_int (round_away s)"
    using round_away_mono [OF assms] by simp
  moreover have "0 \<le> round_away r" if "0 \<le> r"
    using that by (simp add: round_away_def)
  ultimately show ?thesis
    using assms saturate_fin_mono saturate_sign
    by (auto simp: QuotaRound_def QuotaRoundChecked_def QuotaFromFloat_def QuotaFromFloatChecked_def)
qed

theorem quota_conversions_monotone_witness:
  "QuotaRound (Fin (5/2)) \<le> QuotaRound (Fin 3000000000)"
  using quota_conversions_monotone [of "5/2" 3000000000] by simp

text \<open>
  The strict conversions used before a request is billed fail exactly when the
  checked ones report a clamp, and otherwise return the same quota, so a saturated
  quota never reaches billing.
\<close>

theorem strict_conversions_agree:
  "QuotaRoundStrict v = (case snd (QuotaRoundChecked v) of Some c \<Rightarrow> Inl c | None \<Rightarrow> Inr (QuotaRound v)) \<and>
   QuotaFromFloatStrict v =
     (case snd (QuotaFromFloatChecked v) of Some c \<Rightarrow> Inl c | None \<Rightarrow> Inr (QuotaFromFloat v)) \<and>
   (\<forall>q. QuotaFromFloatStrict v = Inr q \<longrightarrow> MinQuota \<le> q \<and> q \<le> MaxQuota \<and>
      (\<exists>r. v = Fin r \<and> q = trunc_rat r))"
proof -
  have strict: "strictQuota p = (case snd p of Some c \<Rightarrow> Inl c | None \<Rightarrow> Inr (fst p))" for p
    by (cases p; cases "snd p") auto
  have "MinQuota \<le> q \<and> q \<le> MaxQuota \<and> (\<exists>r. v = Fin r \<and> q = trunc_rat r)"
    if "QuotaFromFloatStrict v = Inr q" for q
    using that saturate_range [of v "''QuotaFromFloat''"] saturate_unclamped [of v "''QuotaFromFloat''"]
    by (auto simp: QuotaFromFloatStrict_def QuotaFromFloatChecked_def strict split: option.splits)
  then show ?thesis
    by (auto simp: QuotaRoundStrict_def QuotaRound_def QuotaFromFloatStrict_def QuotaFromFloat_def strict
        split: option.splits)
qed

theorem strict_conversions_agree_witness:
  "QuotaFromFloatStrict (Fin (7/2)) = Inr 3 \<and> MinQuota \<le> 3"
proof -
  have "QuotaFromFloatStrict (Fin (7/2)) = Inr 3"
    by (simp add: QuotaFromFloatStrict_def QuotaFromFloatChecked_def saturate_fin quota_bounds trunc_rat_def
        floor_eq_iff)
  then show ?thesis using strict_conversions_agree [of "Fin (7/2)"] by blast
qed

end
