(* ===== verification/Go_Time.thy ===== *)
theory Go_Time
  imports Go_Prelude
begin

text \<open>
  The part of Go's \<open>time\<close> package that the subscription code uses: the civil calendar,
  \<open>time.Date\<close> with its normalisation, \<open>AddDate\<close>, \<open>Weekday\<close>, and durations, which are
  int64 nanoseconds and wrap.  An instant is its Unix second; a time zone is the
  lookup Go makes in a \<open>Location\<close>, the offset in force at a Unix second with the span
  for which it holds, and is a parameter of every function that needs it.

  The calendar counts days from the first of March, so that a leap day ends its year.
\<close>

section \<open>Definitions\<close>

record zone =
  zone_offset :: int
  zone_start :: int
  zone_end :: int

type_synonym location = "int \<Rightarrow> zone"

definition fixed_zone :: "int \<Rightarrow> location" where
  "fixed_zone off = (\<lambda>_. \<lparr>zone_offset = off, zone_start = MinInt64, zone_end = MaxInt64\<rparr>)"

text \<open>Days before the first of March of a year, and before a month counted from March.\<close>

definition year_start :: "int \<Rightarrow> int" where
  "year_start y = 365 * y + y div 4 - y div 100 + y div 400"

definition month_start :: "int \<Rightarrow> int" where
  "month_start mp = (153 * mp + 2) div 5"

text \<open>The day number (1970-01-01 is 0) of a date with a month from 1 to 12 and any day.\<close>

definition days_of_civil :: "int \<Rightarrow> int \<Rightarrow> int \<Rightarrow> int" where
  "days_of_civil y m d =
    (if m \<le> 2 then year_start (y - 1) + month_start (m + 9) else year_start y + month_start (m - 3))
    + d - 1 - 719468"

text \<open>The year since March and the day in it, from the day number since 0000-03-01.\<close>

definition split_year :: "int \<Rightarrow> int \<times> int" where
  "split_year z =
    (let era = z div 146097; doe = z mod 146097;
         c = min 3 (doe div 36524); r = doe - 36524 * c;
         q = r div 1461; r2 = r - 1461 * q;
         a = min 3 (r2 div 365)
     in (400 * era + 100 * c + 4 * q + a, r2 - 365 * a))"

definition civil_of_days :: "int \<Rightarrow> int \<times> int \<times> int" where
  "civil_of_days n =
    (case split_year (n + 719468) of
       (y, doy) \<Rightarrow>
         let mp = (5 * doy + 2) div 153; d = doy - month_start mp + 1
         in if mp < 10 then (y, mp + 3, d) else (y + 1, mp - 9, d))"

definition local_seconds :: "location \<Rightarrow> int \<Rightarrow> int" where
  "local_seconds loc t = t + zone_offset (loc t)"

definition time_civil :: "location \<Rightarrow> int \<Rightarrow> int \<times> int \<times> int" where
  "time_civil loc t = civil_of_days (local_seconds loc t div 86400)"

text \<open>\<open>time.Date\<close>: months out of range are carried into the year, days and clock add up.\<close>

definition time_Date :: "location \<Rightarrow> int \<Rightarrow> int \<Rightarrow> int \<Rightarrow> int \<Rightarrow> int" where
  "time_Date loc y m d clock =
    (let y' = y + (m - 1) div 12; m' = (m - 1) mod 12 + 1;
         unix = days_of_civil y' m' d * 86400 + clock;
         z = loc unix
     in if zone_offset z = 0 then unix
        else let utc = unix - zone_offset z
             in if utc < zone_start z \<or> zone_end z \<le> utc then unix - zone_offset (loc utc)
                else utc)"

definition AddDate :: "location \<Rightarrow> int \<Rightarrow> int \<Rightarrow> int \<Rightarrow> int \<Rightarrow> int" where
  "AddDate loc t years months days =
    (case time_civil loc t of
       (y, m, d) \<Rightarrow> time_Date loc (y + years) (m + months) (d + days) (local_seconds loc t mod 86400))"

text \<open>\<open>Weekday\<close>: Sunday is 0; the first day of 1970 was a Thursday.\<close>

definition Weekday :: "location \<Rightarrow> int \<Rightarrow> int" where
  "Weekday loc t = (local_seconds loc t div 86400 + 4) mod 7"

definition Second_ns :: int where
  "Second_ns = 1000000000"

text \<open>\<open>time.Duration(n) * unit\<close>: an int64 product of nanoseconds.\<close>

definition duration_mul :: "int \<Rightarrow> int \<Rightarrow> int" where
  "duration_mul n unit_ns = int64 (n * unit_ns)"

text \<open>\<open>t.Add(d).Unix()\<close> for an instant without nanoseconds.\<close>

definition Add_Unix :: "int \<Rightarrow> int \<Rightarrow> int" where
  "Add_Unix t d = t + d div Second_ns"

section \<open>The calendar\<close>

lemma div_bounds:
  fixes x k :: int
  assumes "0 < k"
  shows "k * (x div k) \<le> x" "x < k * (x div k) + k"
proof -
  have "x = k * (x div k) + x mod k" by simp
  moreover have "0 \<le> x mod k" "x mod k < k" using assms by simp_all
  ultimately show "k * (x div k) \<le> x" "x < k * (x div k) + k" by linarith+
qed

lemma div_unique_bounds:
  fixes x k d :: int
  assumes "k * d \<le> x" "x < k * d + k"
  shows "x div k = d"
proof -
  have "0 < k" using assms by linarith
  have "x div k = (d * k + (x - k * d)) div k" by (simp add: algebra_simps)
  also have "\<dots> = d + (x - k * d) div k" using \<open>0 < k\<close> by (simp only: div_mult_self3)
  also have "(x - k * d) div k = 0" using assms by (intro div_pos_pos_trivial) linarith+
  finally show ?thesis by simp
qed

lemma div_succ:
  fixes y k :: int
  assumes "0 < k"
  shows "(y + 1) div k = y div k + (if k dvd y + 1 then 1 else 0)"
proof (cases "k dvd y + 1")
  case True
  then obtain e where e: "y + 1 = k * e" by blast
  have "(y + 1) div k = e" using e assms by simp
  moreover have "y div k = e - 1"
    using e assms by (intro div_unique_bounds) (simp_all add: algebra_simps)
  ultimately show ?thesis using True by simp
next
  case False
  then have "y + 1 \<noteq> k * (y div k) + k" by (metis dvd_triv_left distrib_left mult.right_neutral)
  then have "(y + 1) div k = y div k"
    using div_bounds [OF assms, of y] by (intro div_unique_bounds) linarith+
  then show ?thesis using False by simp
qed

lemma split_year_parts:
  fixes z :: int
  obtains era c q a doy where "split_year z = (400 * era + 100 * c + 4 * q + a, doy)"
    "z = 146097 * era + 36524 * c + 1461 * q + 365 * a + doy"
    "0 \<le> c" "c \<le> 3" "0 \<le> q" "q \<le> 24" "0 \<le> a" "a \<le> 3" "0 \<le> doy" "doy \<le> 365"
    "doy = 365 \<longrightarrow> a = 3 \<and> (q < 24 \<or> c = 3)"
proof -
  define era doe where "era = z div 146097" and "doe = z mod 146097"
  define c r where "c = min 3 (doe div 36524)" and "r = doe - 36524 * c"
  define q r2 where "q = r div 1461" and "r2 = r - 1461 * q"
  define a where "a = min 3 (r2 div 365)"
  have z: "z = 146097 * era + doe" "0 \<le> doe" "doe < 146097"
    by (simp_all add: era_def doe_def)
  have c: "0 \<le> c" "c \<le> 3" "0 \<le> r" "r \<le> 36524" "r = 36524 \<longrightarrow> c = 3"
    using z(2,3) div_bounds [of 36524 doe] unfolding c_def r_def
    by (cases "3 \<le> doe div 36524"; simp add: min_def; linarith)+
  have q: "0 \<le> q" "q \<le> 24" "r = 1461 * q + r2" "0 \<le> r2" "r2 \<le> 1460"
    using c(3,4) div_bounds [of 1461 r] unfolding q_def r2_def by (simp_all; linarith)+
  have a: "0 \<le> a" "a \<le> 3" "0 \<le> r2 - 365 * a" "r2 - 365 * a \<le> 365"
    "r2 - 365 * a = 365 \<longrightarrow> a = 3 \<and> r2 = 1460"
    using q(4,5) div_bounds [of 365 r2] unfolding a_def
    by (cases "3 \<le> r2 div 365"; simp add: min_def; linarith)+
  have "split_year z = (400 * era + 100 * c + 4 * q + a, r2 - 365 * a)"
    unfolding split_year_def Let_def era_def doe_def c_def r_def q_def r2_def a_def by (rule refl)
  moreover have "r2 - 365 * a = 365 \<longrightarrow> a = 3 \<and> (q < 24 \<or> c = 3)"
    using a(5) q c(4,5) by linarith
  moreover have "z = 146097 * era + 36524 * c + 1461 * q + 365 * a + (r2 - 365 * a)"
    using z(1) q(3) r_def by linarith
  ultimately show thesis using q(1,2) c(1,2) a(1-4) that by blast
qed

lemma year_start_parts:
  assumes "0 \<le> c" "c \<le> 3" "0 \<le> q" "q \<le> 24" "0 \<le> a" "a \<le> (3::int)"
  shows "year_start (400 * era + 100 * c + 4 * q + a) = 146097 * era + 36524 * c + 1461 * q + 365 * a"
proof -
  let ?y = "400 * era + 100 * c + 4 * q + a"
  have d4: "?y div 4 = 100 * era + 25 * c + q" using assms by (intro div_unique_bounds) simp_all
  have d100: "?y div 100 = 4 * era + c" using assms by (intro div_unique_bounds) simp_all
  have d400: "?y div 400 = era" using assms by (intro div_unique_bounds) simp_all
  show ?thesis unfolding year_start_def d4 d100 d400 by simp
qed

lemma year_length: "year_start (y + 1) - year_start y =
    365 + (if 4 dvd y + 1 then 1 else 0) - (if 100 dvd y + 1 then 1 else 0) + (if 400 dvd y + 1 then 1 else 0)"
  by (simp add: year_start_def div_succ)

lemma leap_century: "(100::int) dvd k \<Longrightarrow> 4 dvd k" "(400::int) dvd k \<Longrightarrow> 100 dvd k"
  by (auto elim!: dvd_trans [rotated])

text \<open>The day splits into a year since March and a day of that year.\<close>

lemma split_year_sound:
  assumes "split_year z = (y, doy)"
  shows "z = year_start y + doy" "0 \<le> doy" "year_start y + doy < year_start (y + 1)" "doy \<le> 365"
proof -
  obtain era c q a doy' where sp: "split_year z = (400 * era + 100 * c + 4 * q + a, doy')"
    and p': "z = 146097 * era + 36524 * c + 1461 * q + 365 * a + doy'"
    "0 \<le> c" "c \<le> 3" "0 \<le> q" "q \<le> 24" "0 \<le> a" "a \<le> 3" "0 \<le> doy'" "doy' \<le> 365"
    "doy' = 365 \<longrightarrow> a = 3 \<and> (q < 24 \<or> c = 3)"
    by (rule split_year_parts [of z])
  have y: "y = 400 * era + 100 * c + 4 * q + a" and doy: "doy' = doy" using sp assms by simp_all
  note p = y p' [unfolded doy]
  have "year_start y = 146097 * era + 36524 * c + 1461 * q + 365 * a"
    unfolding y using p by (intro year_start_parts) simp_all
  then show "z = year_start y + doy" "0 \<le> doy" "doy \<le> 365" using p by simp_all
  show "year_start y + doy < year_start (y + 1)"
  proof (cases "doy = 365")
    case True
    then have a: "a = 3" "q < 24 \<or> c = 3" using p(11) by auto
    have y1: "y + 1 = 4 * (100 * era + 25 * c + q + 1)" using p(1) a by simp
    then have "4 dvd y + 1" by (metis dvd_triv_left)
    moreover have "400 dvd y + 1" if "100 dvd y + 1"
    proof -
      obtain k where k: "y + 1 = 100 * k" using \<open>100 dvd y + 1\<close> by (elim dvdE)
      define t where "t = k - 4 * era - c"
      have "100 * t = 4 * q + 4" using y1 k by (simp add: t_def)
      then have "q = 24" using p(5,6) by presburger
      then have "c = 3" using a(2) by simp
      then have "y + 1 = 400 * (era + 1)" using p(1) a(1) \<open>q = 24\<close> by simp
      then show ?thesis by (metis dvd_triv_left)
    qed
    ultimately have "year_start (y + 1) - year_start y = 366"
      using leap_century(2) [of "y + 1"] unfolding year_length by (simp split: if_splits)
    then show ?thesis using True by linarith
  next
    case False
    have "365 \<le> year_start (y + 1) - year_start y"
      using leap_century(1) [of "y + 1"] unfolding year_length by (simp split: if_splits)
    then show ?thesis using False p(10) by linarith
  qed
qed

lemma month_bounds:
  fixes doy :: int
  assumes "0 \<le> doy" "doy \<le> 365"
  defines "mp \<equiv> (5 * doy + 2) div 153"
  shows "0 \<le> mp" "mp \<le> 11" "month_start mp \<le> doy" "doy < month_start (mp + 1)"
proof -
  have mp: "153 * mp \<le> 5 * doy + 2" "5 * doy + 2 < 153 * mp + 153"
    unfolding mp_def by (rule div_bounds; simp)+
  have lo: "5 * month_start mp \<le> 153 * mp + 2" unfolding month_start_def by (rule div_bounds) simp
  have hi: "153 * (mp + 1) + 2 < 5 * month_start (mp + 1) + 5" unfolding month_start_def by (rule div_bounds) simp
  show "0 \<le> mp" using mp(2) assms(1) by linarith
  show "mp \<le> 11" using mp(1) assms(2) by linarith
  show "month_start mp \<le> doy" using mp(1) lo by linarith
  show "doy < month_start (mp + 1)" using mp(2) hi by (simp add: algebra_simps)
qed

text \<open>The date of a day number and the day number of that date are inverse.\<close>

lemma civil_parts:
  assumes "civil_of_days n = (y, m, d)"
  obtains ys doy mp where "n + 719468 = year_start ys + doy" "year_start ys + doy < year_start (ys + 1)"
    "0 \<le> mp" "mp \<le> 11" "doy < month_start (mp + 1)" "d = doy - month_start mp + 1" "1 \<le> d"
    "(y, m) = (if mp < 10 then (ys, mp + 3) else (ys + 1, mp - 9))"
proof -
  obtain ys doy where sp: "split_year (n + 719468) = (ys, doy)" by fastforce
  note sy = split_year_sound [OF sp]
  note mb = month_bounds [OF sy(2,4)]
  let ?mp = "(5 * doy + 2) div 153"
  have "d = doy - month_start ?mp + 1" "(y, m) = (if ?mp < 10 then (ys, ?mp + 3) else (ys + 1, ?mp - 9))"
    using assms by (auto simp: civil_of_days_def sp Let_def split: if_splits)
  then show thesis using sy mb by (intro that [of ys doy ?mp]) simp_all
qed

lemma days_of_civil_of_days:
  assumes "civil_of_days n = (y, m, d)"
  shows "days_of_civil y m d = n" "1 \<le> m" "m \<le> 12" "1 \<le> d"
  using assms by (auto elim!: civil_parts simp: days_of_civil_def split: if_splits)

lemma days_of_civil_add: "days_of_civil y m (d + k) = days_of_civil y m d + k"
  by (simp add: days_of_civil_def)

text \<open>The first day of the next month is after every day of the month.\<close>

lemma next_month_after:
  assumes "civil_of_days n = (y, m, d)"
  shows "n < days_of_civil (y + m div 12) (m mod 12 + 1) 1"
proof -
  obtain ys doy mp where p: "n + 719468 = year_start ys + doy" "year_start ys + doy < year_start (ys + 1)"
    "0 \<le> mp" "mp \<le> 11" "doy < month_start (mp + 1)"
    "(y, m) = (if mp < 10 then (ys, mp + 3) else (ys + 1, mp - 9))"
    using assms by (rule civil_parts)
  consider "mp \<le> 8" | "mp = 9" | "mp = 10" | "mp = 11" using p(4) by linarith
  then show ?thesis
  proof cases
    case 1
    then have "y = ys" "m = mp + 3" "m div 12 = 0" "m mod 12 = m" using p by auto
    then show ?thesis using p(1,3,5) 1 by (simp add: days_of_civil_def add.commute)
  next
    case 4
    then have "y = ys + 1" "m = 2" using p by auto
    then show ?thesis using p(1,2) by (simp add: days_of_civil_def month_start_def)
  qed (use p in \<open>auto simp: days_of_civil_def month_start_def\<close>)
qed

lemma year_start_less: "year_start y < year_start (y + 1)"
  using leap_century(1) [of "y + 1"] year_length [of y] by (simp split: if_splits)

lemma year_start_mono: "y \<le> y' \<Longrightarrow> year_start y \<le> year_start y'"
proof (induction rule: int_ge_induct)
  case (step k)
  then show ?case using year_start_less [of k] by simp
qed simp

lemma year_unique:
  assumes "year_start y \<le> z" "z < year_start (y + 1)" "year_start y' \<le> z" "z < year_start (y' + 1)"
  shows "y = y'"
  using assms year_start_mono [of "y + 1" y'] year_start_mono [of "y' + 1" y] by linarith

lemma month_of_start:
  assumes "0 \<le> mp" "mp \<le> 11"
  shows "(5 * month_start mp + 2) div 153 = mp" "0 \<le> month_start mp" "month_start mp \<le> 337"
proof -
  have ms: "5 * month_start mp \<le> 153 * mp + 2" "153 * mp + 2 < 5 * month_start mp + 5"
    unfolding month_start_def by (rule div_bounds; simp)+
  show "(5 * month_start mp + 2) div 153 = mp" using ms by (intro div_unique_bounds) linarith+
  show "0 \<le> month_start mp" "month_start mp \<le> 337" using ms assms by linarith+
qed

lemma civil_of_month_start:
  assumes "0 \<le> mp" "mp \<le> 11"
  shows "civil_of_days (year_start ys + month_start mp - 719468) =
    (if mp < 10 then (ys, mp + 3, 1) else (ys + 1, mp - 9, 1))"
proof -
  let ?z = "year_start ys + month_start mp"
  obtain y doy where sp: "split_year ?z = (y, doy)" by fastforce
  note sy = split_year_sound [OF sp]
  have "year_start ys + 365 \<le> year_start (ys + 1)"
    using leap_century(1) [of "ys + 1"] year_length [of ys] by (simp split: if_splits)
  then have "y = ys" using sy month_of_start [OF assms] by (intro year_unique [of _ ?z]) linarith+
  then have "doy = month_start mp" using sy(1) by simp
  then show ?thesis
    using sp \<open>y = ys\<close> by (simp add: civil_of_days_def month_of_start(1) [OF assms] Let_def)
qed

lemma civil_of_first:
  assumes "1 \<le> m" "m \<le> 12"
  shows "civil_of_days (days_of_civil y m 1) = (y, m, 1)"
  using assms civil_of_month_start [of "m + 9" "y - 1"] civil_of_month_start [of "m - 3" y]
  by (auto simp: days_of_civil_def)

end
