(* ===== verification/Store.thy ===== *)
theory Store
  imports Quota_Math Go_Time
begin

text \<open>
  The database and the state around it.  The tables of the model package
  (src/model) are lists of rows with the fields the modelled operations read or
  write; a soft-deleted row is not in its list.  A statement is one step: it takes
  the next entry of \<open>faults\<close>, and fails when that entry is \<open>True\<close> (no entry: it
  succeeds), so every error path of the code is reachable in the model.
  \<open>transaction\<close> is \<open>DB.Transaction\<close>: begin, body, commit, with the tables
  restored when any of them fails.  What is outside the database is not restored:
  the in-memory batch stores of src/model/utils.go and the list of effects, where
  each asynchronous cache write (\<open>gopool.Go\<close>) and each log record is appended.

  Redis, the plan caches, the clocks, the configured constants, the local time zone and the
  texts of the errors are read through \<open>env\<close>, a parameter: nothing is assumed of what a cache returns.  Go iterates a map in no fixed
  order; where the code does, \<open>map_order\<close> picks it.  Integers are unbounded here (the
  database columns are wider than the quotas, which src/common/quota_math.go bounds).
\<close>

section \<open>Rows\<close>

record User =
  user_Id :: int
  user_Quota :: int
  user_UsedQuota :: int
  user_RequestCount :: int
  user_Group :: string
  user_Email :: string
  user_Status :: int
  user_Username :: string
  user_Setting :: string
  user_AffCount :: int
  user_AffQuota :: int
  user_AffHistoryQuota :: int
  user_InviterId :: int
  user_StripeCustomer :: string

record UserBase =
  base_Id :: int
  base_Group :: string
  base_Email :: string
  base_Quota :: int
  base_Status :: int
  base_Username :: string
  base_Setting :: string

record Token =
  tok_Id :: int
  tok_UserId :: int
  tok_Key :: string
  tok_Status :: int
  tok_Name :: string
  tok_CreatedTime :: int
  tok_AccessedTime :: int
  tok_ExpiredTime :: int
  tok_RemainQuota :: int
  tok_UnlimitedQuota :: bool
  tok_ModelLimitsEnabled :: bool
  tok_ModelLimits :: string
  tok_AllowIps :: "string option"
  tok_UsedQuota :: int
  tok_Group :: string
  tok_CrossGroupRetry :: bool

record SubscriptionPlan =
  plan_Id :: int
  plan_Title :: string
  plan_PriceAmount :: float64
  plan_DurationUnit :: string
  plan_DurationValue :: int
  plan_CustomSeconds :: int
  plan_Enabled :: bool
  plan_AllowBalancePay :: "bool option"
  plan_AllowWalletOverflow :: "bool option"
  plan_MaxPurchasePerUser :: int
  plan_UpgradeGroup :: string
  plan_DowngradeGroup :: string
  plan_TotalAmount :: int
  plan_QuotaResetPeriod :: string
  plan_QuotaResetCustomSeconds :: int

record UserSubscription =
  sub_Id :: int
  sub_UserId :: int
  sub_PlanId :: int
  sub_AmountTotal :: int
  sub_AmountUsed :: int
  sub_StartTime :: int
  sub_EndTime :: int
  sub_Status :: string
  sub_Source :: string
  sub_LastResetTime :: int
  sub_NextResetTime :: int
  sub_UpgradeGroup :: string
  sub_PrevUserGroup :: string
  sub_DowngradeGroup :: string
  sub_AllowWalletOverflow :: bool
  sub_CreatedAt :: int
  sub_UpdatedAt :: int

record SubscriptionPreConsumeRecord =
  pre_Id :: int
  pre_RequestId :: string
  pre_UserId :: int
  pre_UserSubscriptionId :: int
  pre_PreConsumed :: int
  pre_Status :: string
  pre_CreatedAt :: int
  pre_UpdatedAt :: int

record SubscriptionOrder =
  ord_Id :: int
  ord_UserId :: int
  ord_PlanId :: int
  ord_Money :: float64
  ord_TradeNo :: string
  ord_PaymentMethod :: string
  ord_PaymentProvider :: string
  ord_Status :: string
  ord_CreateTime :: int
  ord_CompleteTime :: int
  ord_ProviderPayload :: string

record TopUp =
  top_Id :: int
  top_UserId :: int
  top_Amount :: int
  top_Money :: float64
  top_TradeNo :: string
  top_PaymentMethod :: string
  top_PaymentProvider :: string
  top_CreateTime :: int
  top_CompleteTime :: int
  top_Status :: string

record Redemption =
  red_Id :: int
  red_UserId :: int
  red_Key :: string
  red_Status :: int
  red_Name :: string
  red_Quota :: int
  red_CreatedTime :: int
  red_RedeemedTime :: int
  red_UsedUserId :: int
  red_ExpiredTime :: int

record Checkin =
  chk_Id :: int
  chk_UserId :: int
  chk_CheckinDate :: string
  chk_QuotaAwarded :: int
  chk_CreatedAt :: int

text \<open>
  A channel row.  \<open>ch_OtherInfo\<close> is the object its JSON column holds (\<open>None\<close> for the empty text); \<open>ch_Keys\<close> is not a column but
  the split keys of a cached channel.  The used quota is in \<open>channel_used\<close>; columns that only
  the adaptors read are left out.
\<close>

record ChannelInfo =
  ci_IsMultiKey :: bool
  ci_MultiKeySize :: int
  ci_MultiKeyStatusList :: "int \<rightharpoonup> int"
  ci_MultiKeyDisabledReason :: "int \<rightharpoonup> string"
  ci_MultiKeyDisabledTime :: "int \<rightharpoonup> int"
  ci_MultiKeyPollingIndex :: int
  ci_MultiKeyMode :: string

datatype info_value = InfoText string | InfoNumber int

record Channel =
  ch_Id :: int
  ch_Type :: int
  ch_Key :: string
  ch_Status :: int
  ch_Name :: string
  ch_Weight :: "nat option"
  ch_CreatedTime :: int
  ch_TestTime :: int
  ch_ResponseTime :: int
  ch_Models :: string
  ch_Group :: string
  ch_ModelMapping :: "string option"
  ch_Priority :: "int option"
  ch_AutoBan :: "int option"
  ch_OtherInfo :: "(string \<rightharpoonup> info_value) option"
  ch_Tag :: "string option"
  ch_ParamOverride :: "string option"
  ch_HeaderOverride :: "string option"
  ch_ChannelInfo :: ChannelInfo
  ch_OtherSettings :: string
  ch_Keys :: "string list"

text \<open>An ability: a channel serves a model to a group.  A NULL priority is stored as the default 0.\<close>

record Ability =
  ab_Group :: string
  ab_Model :: string
  ab_ChannelId :: int
  ab_Enabled :: bool
  ab_Priority :: int
  ab_Weight :: nat
  ab_Tag :: "string option"

section \<open>Errors\<close>

text \<open>
  The errors the modelled operations return: \<open>ErrDB\<close> is an error of the driver, the
  others are the \<open>errors.New\<close> and \<open>fmt.Errorf\<close> values of the source, by their meaning.
\<close>

datatype error =
    ErrDB
  | ErrRecordNotFound
  | ErrNegativeQuota
  | ErrUserNotExist
  | ErrTokenNotExist
  | ErrTokenNotProvided
  | ErrTokenInvalid
  | ErrDatabase
  | ErrEmptyId
  | ErrInvalidUserId
  | ErrInvalidPlanId
  | ErrInvalidPlan
  | ErrInvalidUserOrPlanId
  | ErrInvalidSubscriptionId
  | ErrRequestIdEmpty
  | ErrAmountNotPositive
  | ErrNoActiveSubscription
  | ErrSubscriptionQuotaInsufficient int
  | ErrSubscriptionAlreadyRefunded
  | ErrSubscriptionUsedExceedsTotal int int
  | ErrDurationValue
  | ErrCustomSeconds
  | ErrInvalidDurationUnit string
  | ErrPurchaseLimit
  | ErrPlanDisabled
  | ErrPlanPriceNegative
  | ErrBalancePayNotAllowed
  | ErrQuotaUnitConfig
  | ErrBalanceInsufficient
  | ErrNoSubscriptionOfPlan
  | ErrTradeNoEmpty
  | ErrSubscriptionOrderNotFound
  | ErrSubscriptionOrderStatusInvalid
  | ErrPaymentMethodMismatch
  | ErrTopUpNotFound
  | ErrTopUpStatusInvalid
  | ErrTopUpFailed error
  | ErrTopUpQuotaInvalid
  | ErrRedeemFailed error
  | ErrRedemptionInvalid
  | ErrRedemptionUsed
  | ErrRedemptionExpired
  | ErrRedemptionNotProvided
  | ErrCheckinDisabled
  | ErrCheckinDone
  | ErrCheckinFailed
  | ErrCheckinQuota
  | ErrQuotaLessThanUnit
  | ErrAffQuotaInsufficient
  | ErrIdsEmpty
  | ErrLikeConsecutive
  | ErrLikeTooMany
  | ErrLikeTooShort
  | ErrCountTokens
  | ErrExactSearchOnly
  | ErrSearchTokens
  | ErrSearchTopUps
  | ErrTokenQuotaNotEnough int int
  | ErrUserQuotaExhausted int
  | ErrUserQuotaNotEnough int int
  | ErrSubscriptionUnavailable error
  | ErrSubscriptionIdMissing
  | ErrPreConsumeNegative int
  | ErrQuotaClamp QuotaClamp
  | ErrChannelIdZero
  | ErrChannelGone int
  | ErrChannelInconsistent int
  | ErrNoChannelAtPriority
  | ErrChannelNotFound
  | ErrPrioritiesInconsistent
  | ErrNoKeysAvailable
  | ErrNoEnabledKeys
  | ErrRedis
  | ErrFixRunning

section \<open>State\<close>

record tables =
  users :: "User list"
  tokens :: "Token list"
  channel_used :: "(int \<times> int) list"
  plans :: "SubscriptionPlan list"
  subs :: "UserSubscription list"
  preRecords :: "SubscriptionPreConsumeRecord list"
  orders :: "SubscriptionOrder list"
  topups :: "TopUp list"
  redemptions :: "Redemption list"
  checkins :: "Checkin list"
  channels :: "Channel list"
  abilities :: "Ability list"
  next_id :: int

datatype effect =
    CacheIncrUserQuota int int
  | CacheSetUserQuota int int
  | CacheSetUserGroup int string
  | CachePopulateUser User
  | CacheIncrTokenQuota string int
  | CacheSetToken Token
  | CacheDeleteToken string
  | CacheDeleteUser int
  | CacheSetPlan int SubscriptionPlan
  | CacheSetPlanInfo int int string
  | RecordLog int
  | QuotaNotify int int int
  | SubscriptionQuotaNotify int

text \<open>The in-memory stores of src/model/utils.go, one per batch type.\<close>

datatype BatchUpdateType =
    BatchUpdateTypeUserQuota
  | BatchUpdateTypeTokenQuota
  | BatchUpdateTypeUsedQuota
  | BatchUpdateTypeChannelUsedQuota
  | BatchUpdateTypeRequestCount

record store =
  db :: tables
  batchUpdateStores :: "BatchUpdateType \<Rightarrow> (int \<times> int) list"
  effects :: "effect list"
  faults :: "bool list"

record env =
  BatchUpdateEnabled :: bool
  RedisEnabled :: bool
  GetTimestamp :: int
  db_timestamp :: int
  redis_token :: "string \<Rightarrow> Token option"
  redis_user :: "int \<Rightarrow> UserBase option"
  plan_cache :: "int \<Rightarrow> SubscriptionPlan option"
  plan_info_cache :: "int \<Rightarrow> (int \<times> string) option"
  Local :: location
  map_order :: "int list \<Rightarrow> int list"
  env_QuotaPerUnit :: rat
  GetMaxUserTokens :: int
  error_text :: "error \<Rightarrow> string"

section \<open>Statements\<close>

definition stmt :: "store \<Rightarrow> bool \<times> store" where
  "stmt s = (case faults s of [] \<Rightarrow> (True, s) | f # fs \<Rightarrow> (\<not> f, s\<lparr>faults := fs\<rparr>))"

definition emit :: "effect \<Rightarrow> store \<Rightarrow> store" where
  "emit e s = s\<lparr>effects := effects s @ [e]\<rparr>"

text \<open>Table updates.\<close>

definition set_users :: "(User list \<Rightarrow> User list) \<Rightarrow> store \<Rightarrow> store" where
  "set_users f s = s\<lparr>db := (db s)\<lparr>users := f (users (db s))\<rparr>\<rparr>"

definition set_subs :: "(UserSubscription list \<Rightarrow> UserSubscription list) \<Rightarrow> store \<Rightarrow> store" where
  "set_subs f s = s\<lparr>db := (db s)\<lparr>subs := f (subs (db s))\<rparr>\<rparr>"

definition set_preRecords ::
    "(SubscriptionPreConsumeRecord list \<Rightarrow> SubscriptionPreConsumeRecord list) \<Rightarrow> store \<Rightarrow> store" where
  "set_preRecords f s = s\<lparr>db := (db s)\<lparr>preRecords := f (preRecords (db s))\<rparr>\<rparr>"

text \<open>The identifier of the next inserted row.\<close>

definition fresh_id :: "store \<Rightarrow> int \<times> store" where
  "fresh_id s = (next_id (db s), s\<lparr>db := (db s)\<lparr>next_id := next_id (db s) + 1\<rparr>\<rparr>)"

text \<open>Rows by an identifying column; a write changes every row with the identifier.\<close>

definition row :: "('r \<Rightarrow> 'k) \<Rightarrow> 'r list \<Rightarrow> 'k \<Rightarrow> 'r option" where
  "row key rs k = find (\<lambda>r. key r = k) rs"

definition upd_row :: "('r \<Rightarrow> 'k) \<Rightarrow> 'k \<Rightarrow> ('r \<Rightarrow> 'r) \<Rightarrow> 'r list \<Rightarrow> 'r list" where
  "upd_row key k f rs = map (\<lambda>r. if key r = k then f r else r) rs"

text \<open>\<open>Save\<close>: update the row with the same primary key, insert it when there is none.\<close>

definition save_row :: "('r \<Rightarrow> 'k) \<Rightarrow> 'r \<Rightarrow> 'r list \<Rightarrow> 'r list" where
  "save_row key r rs = (if row key rs (key r) = None then rs @ [r] else upd_row key (key r) (\<lambda>_. r) rs)"

text \<open>
  The end of a transaction: roll the tables back to what they were on an error, commit otherwise.
\<close>

definition tx_end :: "tables \<Rightarrow> (error + 'a) \<times> store \<Rightarrow> (error + 'a) \<times> store" where
  "tx_end t0 res =
    (case res of
       (Inl e, s1) \<Rightarrow> (Inl e, s1\<lparr>db := t0\<rparr>)
     | (Inr a, s1) \<Rightarrow>
        (case stmt s1 of
           (True, s2) \<Rightarrow> (Inr a, s2)
         | (False, s2) \<Rightarrow> (Inl ErrDB, s2\<lparr>db := t0\<rparr>)))"

definition transaction :: "(store \<Rightarrow> (error + 'a) \<times> store) \<Rightarrow> store \<Rightarrow> (error + 'a) \<times> store" where
  "transaction body s =
    (case stmt s of
       (True, s0) \<Rightarrow> tx_end (db s) (body s0)
     | (False, s0) \<Rightarrow> (Inl ErrDB, s0))"

text \<open>The same for a body that may not return: \<open>None\<close> is a call that runs forever.\<close>

definition transaction_opt ::
    "(store \<Rightarrow> ((error + 'a) \<times> store) option) \<Rightarrow> store \<Rightarrow> ((error + 'a) \<times> store) option" where
  "transaction_opt body s =
    (case stmt s of
       (True, s0) \<Rightarrow> map_option (tx_end (db s)) (body s0)
     | (False, s0) \<Rightarrow> Some (Inl ErrDB, s0))"

text \<open>\<open>GetDBTimestamp\<close> (src/model/db_time.go): the clock of the database, or the local one.\<close>

definition GetDBTimestamp :: "env \<Rightarrow> store \<Rightarrow> int \<times> store" where
  "GetDBTimestamp env s =
    (case stmt s of
       (True, s1) \<Rightarrow> (if db_timestamp env \<le> 0 then GetTimestamp env else db_timestamp env, s1)
     | (False, s1) \<Rightarrow> (GetTimestamp env, s1))"

definition shouldUpdateRedis :: "env \<Rightarrow> bool \<Rightarrow> bool \<Rightarrow> bool" where
  "shouldUpdateRedis env fromDB no_err \<longleftrightarrow> RedisEnabled env \<and> fromDB \<and> no_err"

section \<open>Laws\<close>

lemma stmt_db [simp]: "db (snd (stmt s)) = db s"
  by (simp add: stmt_def split: list.splits)

lemma stmt_batch [simp]: "batchUpdateStores (snd (stmt s)) = batchUpdateStores s"
  by (simp add: stmt_def split: list.splits)

lemma stmt_effects [simp]: "effects (snd (stmt s)) = effects s"
  by (simp add: stmt_def split: list.splits)

lemma stmt_no_faults [simp]: "faults s = [] \<Longrightarrow> stmt s = (True, s)"
  by (simp add: stmt_def)

lemma case_stmt [op_unfolds]:
  "(case stmt s of (True, s1) \<Rightarrow> f s1 | (False, s1) \<Rightarrow> g s1) =
    (if fst (stmt s) then f (snd (stmt s)) else g (snd (stmt s)))"
  by (cases "stmt s"; cases "fst (stmt s)") simp_all

lemma stmt_eqD:
  assumes "stmt s = (b, s')"
  shows "db s' = db s" "batchUpdateStores s' = batchUpdateStores s" "effects s' = effects s"
  using assms stmt_db [of s] stmt_batch [of s] stmt_effects [of s] by simp_all

lemma emit_sel [simp]:
  "db (emit e s) = db s" "batchUpdateStores (emit e s) = batchUpdateStores s"
  "faults (emit e s) = faults s" "effects (emit e s) = effects s @ [e]"
  by (simp_all add: emit_def)

lemma row_Cons [simp]: "row key (r # rs) k = (if key r = k then Some r else row key rs k)"
  by (simp add: row_def)

lemma row_Nil [simp]: "row key [] k = None"
  by (simp add: row_def)

lemma row_append: "row key (xs @ ys) k = (case row key xs k of None \<Rightarrow> row key ys k | Some r \<Rightarrow> Some r)"
  by (induction xs) simp_all

lemma upd_row_Cons [simp]:
  "upd_row key k f (r # rs) = (if key r = k then f r else r) # upd_row key k f rs"
  by (simp add: upd_row_def)

lemma upd_row_Nil [simp]: "upd_row key k f [] = []"
  by (simp add: upd_row_def)

lemma row_upd_row:
  assumes "\<And>r. key r = k \<Longrightarrow> key (f r) = key r"
  shows "row key (upd_row key k f rs) j = (if j = k then map_option f (row key rs j) else row key rs j)"
  using assms by (induction rs) auto

lemma row_key: "row key rs k = Some r \<Longrightarrow> key r = k"
  by (induction rs) (auto split: if_splits)

lemma row_mem: "row key rs k = Some r \<Longrightarrow> r \<in> set rs"
  by (induction rs) (auto split: if_splits)

lemma row_save:
  "row key (save_row key r rs) j = (if j = key r then Some r else row key rs j)"
proof (cases "row key rs (key r)")
  case None
  then show ?thesis by (auto simp: save_row_def row_append split: option.splits)
next
  case (Some r')
  have "row key (upd_row key (key r) (\<lambda>_. r) rs) j
      = (if j = key r then map_option (\<lambda>_. r) (row key rs j) else row key rs j)"
    by (rule row_upd_row) simp
  then show ?thesis using Some by (simp add: save_row_def)
qed

lemma row_unique:
  assumes "distinct (map key rs)" "r \<in> set rs"
  shows "row key rs (key r) = Some r"
  using assms by (induction rs) (auto simp: image_iff)

lemma row_None_iff: "row key rs k = None \<longleftrightarrow> k \<notin> key ` set rs"
  by (induction rs) auto

lemma set_save_row: "set (save_row key r rs) \<subseteq> insert r (set rs)"
  by (auto simp: save_row_def upd_row_def)

lemma save_row_in: "r \<in> set (save_row key r rs)"
  using row_save [of key r rs "key r"] by (auto dest: row_mem)

lemma map_key_upd_row:
  "(\<And>r. key r = k \<Longrightarrow> key (f r) = key r) \<Longrightarrow> map key (upd_row key k f rs) = map key rs"
  by (induction rs) auto

lemma distinct_save_row:
  "distinct (map key rs) \<Longrightarrow> distinct (map key (save_row key r rs))"
  by (auto simp: save_row_def map_key_upd_row row_None_iff)

section \<open>Transactions\<close>

lemma tx_end_eq:
  "tx_end t0 res =
    (case fst res of
       Inl e \<Rightarrow> (Inl e, (snd res)\<lparr>db := t0\<rparr>)
     | Inr a \<Rightarrow>
         (if fst (stmt (snd res)) then (Inr a, snd (stmt (snd res)))
          else (Inl ErrDB, (snd (stmt (snd res)))\<lparr>db := t0\<rparr>)))"
  by (cases res; cases "fst res") (simp_all add: tx_end_def case_stmt)

lemma transaction_eq:
  "transaction body s =
    (if fst (stmt s) then tx_end (db s) (body (snd (stmt s))) else (Inl ErrDB, snd (stmt s)))"
  by (simp add: transaction_def case_stmt)

lemma transaction_opt_eq:
  "transaction_opt body s =
    (if fst (stmt s) then map_option (tx_end (db s)) (body (snd (stmt s))) else Some (Inl ErrDB, snd (stmt s)))"
  by (simp add: transaction_opt_def case_stmt)

text \<open>A transaction that returns an error leaves every table as it was.\<close>

lemma tx_end_err: "fst (tx_end t0 res) = Inl e \<Longrightarrow> db (snd (tx_end t0 res)) = t0"
  by (auto simp: tx_end_eq split: sum.splits if_splits)

lemma tx_end_ok: "fst (tx_end t0 res) = Inr a \<Longrightarrow> fst res = Inr a \<and> db (snd (tx_end t0 res)) = db (snd res)"
  by (auto simp: tx_end_eq split: sum.splits if_splits)

lemma transaction_error_rolls_back:
  "fst (transaction body s) = Inl e \<Longrightarrow> db (snd (transaction body s)) = db s"
  by (auto simp: transaction_eq tx_end_err split: if_splits)

lemma transaction_errD: "transaction body s = (Inl e, s') \<Longrightarrow> db s' = db s"
  using transaction_error_rolls_back [of body s e] by simp

lemma transaction_okD:
  assumes "transaction body s = (Inr a, s')"
  obtains s1 where "body (snd (stmt s)) = (Inr a, s1)" "db s' = db s1"
proof -
  let ?r = "body (snd (stmt s))"
  have "tx_end (db s) ?r = (Inr a, s')" using assms by (simp add: transaction_eq split: if_splits)
  then have "fst ?r = Inr a" "db s' = db (snd ?r)" using tx_end_ok [of "db s" ?r a] by simp_all
  then show thesis using that [of "snd ?r"] by (cases ?r) simp
qed

lemma transaction_optD:
  assumes "transaction_opt body s = Some (r, s')"
  shows "case r of Inl e \<Rightarrow> db s' = db s
    | Inr a \<Rightarrow> \<exists>s1. body (snd (stmt s)) = Some (Inr a, s1) \<and> db s' = db s1"
proof (cases "fst (stmt s)")
  case True
  then obtain res where res: "body (snd (stmt s)) = Some res" "tx_end (db s) res = (r, s')"
    using assms by (auto simp: transaction_opt_eq)
  then show ?thesis
    using tx_end_err [of "db s" res] tx_end_ok [of "db s" res] by (cases r; cases res) auto
qed (use assms in \<open>auto simp: transaction_opt_eq\<close>)

lemma GetDBTimestamp_db [simp]: "db (snd (GetDBTimestamp env s)) = db s"
  by (auto simp: GetDBTimestamp_def split: prod.splits bool.splits dest: stmt_eqD)

end
