(* ===== verification/Ledger.thy ===== *)
theory Ledger
  imports Store
begin

text \<open>
  Quota accounts: the user and token quota operations of src/model/user.go and
  src/model/token.go, and the batch updater of src/model/utils.go that collects
  deltas in memory and flushes them later.

  The balance of an account is what its row holds plus what the batch stores
  still owe it.  The locale \<open>quota_account\<close> states what billing relies on: an
  operation that succeeds moves the balance of its account by exactly the
  amount, one that fails moves nothing, and neither touches anything else.  It is
  interpreted for users and for tokens, in the direct and in the batch mode.

  An UPDATE reports one affected row when the row exists.
\<close>

section \<open>Batch stores\<close>

fun add_pending :: "int \<Rightarrow> int \<Rightarrow> (int \<times> int) list \<Rightarrow> (int \<times> int) list" where
  "add_pending i v [] = [(i, v)]"
| "add_pending i v ((k, w) # ps) = (if k = i then (k, w + v) # ps else (k, w) # add_pending i v ps)"

definition pending :: "(int \<times> int) list \<Rightarrow> int \<Rightarrow> int" where
  "pending ps i = (case map_of ps i of None \<Rightarrow> 0 | Some v \<Rightarrow> v)"

definition addNewRecord :: "BatchUpdateType \<Rightarrow> int \<Rightarrow> int \<Rightarrow> store \<Rightarrow> store" where
  "addNewRecord t i v s =
    s\<lparr>batchUpdateStores := (batchUpdateStores s)(t := add_pending i v (batchUpdateStores s t))\<rparr>"

section \<open>User quota\<close>

text \<open>An UPDATE of one user or token row; the error is the one for no affected row.\<close>

definition update_user :: "int \<Rightarrow> (User \<Rightarrow> User) \<Rightarrow> store \<Rightarrow> error option \<times> store" where
  "update_user i f s =
    (case stmt s of
       (False, s1) \<Rightarrow> (Some ErrDB, s1)
     | (True, s1) \<Rightarrow>
         if row user_Id (users (db s1)) i = None then (Some ErrUserNotExist, s1)
         else (None, s1\<lparr>db := (db s1)\<lparr>users := upd_row user_Id i f (users (db s1))\<rparr>\<rparr>))"

definition update_token :: "int \<Rightarrow> (Token \<Rightarrow> Token) \<Rightarrow> store \<Rightarrow> error option \<times> store" where
  "update_token i f s =
    (case stmt s of
       (False, s1) \<Rightarrow> (Some ErrDB, s1)
     | (True, s1) \<Rightarrow>
         if row tok_Id (tokens (db s1)) i = None then (Some ErrTokenNotExist, s1)
         else (None, s1\<lparr>db := (db s1)\<lparr>tokens := upd_row tok_Id i f (tokens (db s1))\<rparr>\<rparr>))"

definition increaseUserQuota :: "int \<Rightarrow> int \<Rightarrow> store \<Rightarrow> error option \<times> store" where
  "increaseUserQuota i quota s =
    (case update_user i (\<lambda>u. u\<lparr>user_Quota := user_Quota u + quota\<rparr>) s of
       (Some e, s1) \<Rightarrow> (Some e, s1)
     | (None, s1) \<Rightarrow> (None, emit (CacheIncrUserQuota i quota) s1))"

definition decreaseUserQuota :: "int \<Rightarrow> int \<Rightarrow> store \<Rightarrow> error option \<times> store" where
  "decreaseUserQuota i quota s =
    (case update_user i (\<lambda>u. u\<lparr>user_Quota := user_Quota u - quota\<rparr>) s of
       (Some e, s1) \<Rightarrow> (Some e, s1)
     | (None, s1) \<Rightarrow> (None, emit (CacheIncrUserQuota i (- quota)) s1))"

definition IncreaseUserQuota :: "env \<Rightarrow> int \<Rightarrow> int \<Rightarrow> bool \<Rightarrow> store \<Rightarrow> error option \<times> store" where
  "IncreaseUserQuota env i quota direct s =
    (if quota < 0 then (Some ErrNegativeQuota, s)
     else if \<not> direct \<and> BatchUpdateEnabled env then
       (None, addNewRecord BatchUpdateTypeUserQuota i quota (emit (CacheIncrUserQuota i quota) s))
     else increaseUserQuota i quota s)"

definition DecreaseUserQuota :: "env \<Rightarrow> int \<Rightarrow> int \<Rightarrow> bool \<Rightarrow> store \<Rightarrow> error option \<times> store" where
  "DecreaseUserQuota env i quota direct s =
    (if quota < 0 then (Some ErrNegativeQuota, s)
     else if \<not> direct \<and> BatchUpdateEnabled env then
       (None, addNewRecord BatchUpdateTypeUserQuota i (- quota) (emit (CacheIncrUserQuota i (- quota)) s))
     else decreaseUserQuota i quota s)"

definition DeltaUpdateUserQuota :: "env \<Rightarrow> int \<Rightarrow> int \<Rightarrow> store \<Rightarrow> error option \<times> store" where
  "DeltaUpdateUserQuota env i delta s =
    (if delta = 0 then (None, s)
     else if 0 < delta then IncreaseUserQuota env i delta False s
     else DecreaseUserQuota env i (- delta) False s)"

definition updateUserUsedQuotaAndRequestCount :: "int \<Rightarrow> int \<Rightarrow> int \<Rightarrow> store \<Rightarrow> store" where
  "updateUserUsedQuotaAndRequestCount i quota n s =
    snd (update_user i (\<lambda>u. u\<lparr>user_UsedQuota := user_UsedQuota u + quota,
                               user_RequestCount := user_RequestCount u + n\<rparr>) s)"

definition UpdateUserUsedQuotaAndRequestCount :: "env \<Rightarrow> int \<Rightarrow> int \<Rightarrow> store \<Rightarrow> store" where
  "UpdateUserUsedQuotaAndRequestCount env i quota s =
    (if BatchUpdateEnabled env then
       addNewRecord BatchUpdateTypeRequestCount i 1 (addNewRecord BatchUpdateTypeUsedQuota i quota s)
     else updateUserUsedQuotaAndRequestCount i quota 1 s)"

definition updateUserQuotaUsedQuotaAndRequestCount ::
    "int \<Rightarrow> int \<Rightarrow> int \<Rightarrow> int \<Rightarrow> store \<Rightarrow> store" where
  "updateUserQuotaUsedQuotaAndRequestCount i quota usedQuota requestCount s =
    (if quota = 0 \<and> usedQuota = 0 \<and> requestCount = 0 then s
     else snd (update_user i (\<lambda>u. u\<lparr>user_Quota := user_Quota u + quota,
                                     user_UsedQuota := user_UsedQuota u + usedQuota,
                                     user_RequestCount := user_RequestCount u + requestCount\<rparr>) s))"

section \<open>Token quota\<close>

definition increaseTokenQuota :: "env \<Rightarrow> int \<Rightarrow> int \<Rightarrow> store \<Rightarrow> error option \<times> store" where
  "increaseTokenQuota env i quota s =
    update_token i (\<lambda>t. t\<lparr>tok_RemainQuota := tok_RemainQuota t + quota,
                          tok_UsedQuota := tok_UsedQuota t - quota,
                          tok_AccessedTime := GetTimestamp env\<rparr>) s"

definition decreaseTokenQuota :: "env \<Rightarrow> int \<Rightarrow> int \<Rightarrow> store \<Rightarrow> error option \<times> store" where
  "decreaseTokenQuota env i quota s =
    update_token i (\<lambda>t. t\<lparr>tok_RemainQuota := tok_RemainQuota t - quota,
                          tok_UsedQuota := tok_UsedQuota t + quota,
                          tok_AccessedTime := GetTimestamp env\<rparr>) s"

definition IncreaseTokenQuota :: "env \<Rightarrow> int \<Rightarrow> string \<Rightarrow> int \<Rightarrow> store \<Rightarrow> error option \<times> store" where
  "IncreaseTokenQuota env tokenId key quota s =
    (if quota < 0 then (Some ErrNegativeQuota, s)
     else if BatchUpdateEnabled env then (None, addNewRecord BatchUpdateTypeTokenQuota tokenId quota s)
     else case increaseTokenQuota env tokenId quota s of
       (Some e, s1) \<Rightarrow> (Some e, s1)
     | (None, s1) \<Rightarrow> (None, if RedisEnabled env then emit (CacheIncrTokenQuota key quota) s1 else s1))"

definition DecreaseTokenQuota :: "env \<Rightarrow> int \<Rightarrow> string \<Rightarrow> int \<Rightarrow> store \<Rightarrow> error option \<times> store" where
  "DecreaseTokenQuota env i key quota s =
    (if quota < 0 then (Some ErrNegativeQuota, s)
     else if BatchUpdateEnabled env then (None, addNewRecord BatchUpdateTypeTokenQuota i (- quota) s)
     else case decreaseTokenQuota env i quota s of
       (Some e, s1) \<Rightarrow> (Some e, s1)
     | (None, s1) \<Rightarrow> (None, if RedisEnabled env then emit (CacheIncrTokenQuota key (- quota)) s1 else s1))"

section \<open>Channel usage and the flush\<close>

definition updateChannelUsedQuota :: "int \<Rightarrow> int \<Rightarrow> store \<Rightarrow> store" where
  "updateChannelUsedQuota i quota s =
    (case stmt s of
       (False, s1) \<Rightarrow> s1
     | (True, s1) \<Rightarrow>
         s1\<lparr>db := (db s1)\<lparr>channel_used :=
              upd_row fst i (\<lambda>(k, used). (k, used + quota)) (channel_used (db s1))\<rparr>\<rparr>)"

definition UpdateChannelUsedQuota :: "env \<Rightarrow> int \<Rightarrow> int \<Rightarrow> store \<Rightarrow> store" where
  "UpdateChannelUsedQuota env i quota s =
    (if BatchUpdateEnabled env then addNewRecord BatchUpdateTypeChannelUsedQuota i quota s
     else updateChannelUsedQuota i quota s)"

definition all_batch_types :: "BatchUpdateType list" where
  "all_batch_types = [BatchUpdateTypeUserQuota, BatchUpdateTypeTokenQuota, BatchUpdateTypeUsedQuota,
     BatchUpdateTypeChannelUsedQuota, BatchUpdateTypeRequestCount]"

text \<open>
  \<open>batchUpdate\<close>: take all stores, then write the token deltas, the channel deltas, and
  one combined update per user with a delta.  A map is iterated in the order of its
  list, which is arbitrary.
\<close>

definition batchUpdate :: "env \<Rightarrow> store \<Rightarrow> store" where
  "batchUpdate env s =
    (if list_all (\<lambda>t. batchUpdateStores s t = []) all_batch_types then s
     else
       let stores = batchUpdateStores s;
           userQuotaStore = stores BatchUpdateTypeUserQuota;
           usedQuotaStore = stores BatchUpdateTypeUsedQuota;
           requestCountStore = stores BatchUpdateTypeRequestCount;
           s0 = s\<lparr>batchUpdateStores := (\<lambda>_. [])\<rparr>;
           s1 = fold (\<lambda>(key, value) s. snd (increaseTokenQuota env key value s))
                  (stores BatchUpdateTypeTokenQuota) s0;
           s2 = fold (\<lambda>(key, value). updateChannelUsedQuota key value)
                  (stores BatchUpdateTypeChannelUsedQuota) s1;
           userIDs = remdups (map fst userQuotaStore @ map fst usedQuotaStore @ map fst requestCountStore)
       in fold (\<lambda>key. updateUserQuotaUsedQuotaAndRequestCount key (pending userQuotaStore key)
                        (pending usedQuotaStore key) (pending requestCountStore key)) userIDs s2)"

section \<open>Reads\<close>

definition find_user :: "int \<Rightarrow> store \<Rightarrow> (error + User) \<times> store" where
  "find_user i s =
    (case stmt s of
       (False, s1) \<Rightarrow> (Inl ErrDB, s1)
     | (True, s1) \<Rightarrow>
         (case row user_Id (users (db s1)) i of
            None \<Rightarrow> (Inl ErrRecordNotFound, s1)
          | Some u \<Rightarrow> (Inr u, s1)))"

definition GetUserById :: "int \<Rightarrow> store \<Rightarrow> (error + User) \<times> store" where
  "GetUserById i s = (if i = 0 then (Inl ErrEmptyId, s) else find_user i s)"

definition ToBaseUser :: "User \<Rightarrow> UserBase" where
  "ToBaseUser u = \<lparr>base_Id = user_Id u, base_Group = user_Group u, base_Email = user_Email u,
     base_Quota = user_Quota u, base_Status = user_Status u, base_Username = user_Username u,
     base_Setting = user_Setting u\<rparr>"

definition cacheGetUserBase :: "env \<Rightarrow> int \<Rightarrow> UserBase option" where
  "cacheGetUserBase env i = (if RedisEnabled env then redis_user env i else None)"

definition GetUserCache :: "env \<Rightarrow> int \<Rightarrow> store \<Rightarrow> (error + UserBase) \<times> store" where
  "GetUserCache env i s =
    (case cacheGetUserBase env i of
       Some base \<Rightarrow> (Inr base, s)
     | None \<Rightarrow>
         (case GetUserById i s of
            (Inl e, s1) \<Rightarrow> (Inl e, s1)
          | (Inr u, s1) \<Rightarrow>
              (Inr (ToBaseUser u),
               if shouldUpdateRedis env True True then emit (CachePopulateUser u) s1 else s1)))"

definition GetUserQuota :: "env \<Rightarrow> int \<Rightarrow> bool \<Rightarrow> store \<Rightarrow> (error + int) \<times> store" where
  "GetUserQuota env i fromDB s =
    (let fallback = (\<lambda>s.
       (case stmt s of
          (False, s1) \<Rightarrow> (Inl ErrDB, s1)
        | (True, s1) \<Rightarrow>
            let quota = (case row user_Id (users (db s1)) i of None \<Rightarrow> 0 | Some u \<Rightarrow> user_Quota u)
            in (Inr quota,
                if shouldUpdateRedis env True True then emit (CacheSetUserQuota i quota) s1 else s1)))
     in if \<not> fromDB \<and> RedisEnabled env then
          (case GetUserCache env i s of
             (Inr base, s1) \<Rightarrow> (Inr (base_Quota base), s1)
           | (Inl _, s1) \<Rightarrow> fallback s1)
        else fallback s)"

section \<open>Inviter rewards\<close>

text \<open>
  \<open>inviteUser\<close> reads a user and saves the whole row afterwards.  The two statements are
  separate definitions, since other requests run between them.
\<close>

definition inviteUser_write :: "int \<Rightarrow> User \<Rightarrow> store \<Rightarrow> error option \<times> store" where
  "inviteUser_write QuotaForInviter user s =
    (let user' = user\<lparr>user_AffCount := user_AffCount user + 1,
                      user_AffQuota := user_AffQuota user + QuotaForInviter,
                      user_AffHistoryQuota := user_AffHistoryQuota user + QuotaForInviter\<rparr>
     in case stmt s of
          (False, s1) \<Rightarrow> (Some ErrDB, s1)
        | (True, s1) \<Rightarrow> (None, s1\<lparr>db := (db s1)\<lparr>users := save_row user_Id user' (users (db s1))\<rparr>\<rparr>))"

definition inviteUser :: "int \<Rightarrow> int \<Rightarrow> store \<Rightarrow> error option \<times> store" where
  "inviteUser QuotaForInviter inviterId s =
    (case GetUserById inviterId s of
       (Inl e, s1) \<Rightarrow> (Some e, s1)
     | (Inr user, s1) \<Rightarrow> inviteUser_write QuotaForInviter user s1)"

definition TransferAffQuotaToQuota :: "rat \<Rightarrow> int \<Rightarrow> int \<Rightarrow> store \<Rightarrow> (error + unit) \<times> store" where
  "TransferAffQuotaToQuota QuotaPerUnit userId quota s =
    (if of_int quota < QuotaPerUnit then (Inl ErrQuotaLessThanUnit, s)
     else transaction (\<lambda>s0.
       (case find_user userId s0 of
          (Inl e, s1) \<Rightarrow> (Inl e, s1)
        | (Inr user, s1) \<Rightarrow>
            if user_AffQuota user < quota then (Inl ErrAffQuotaInsufficient, s1)
            else
              let user' = user\<lparr>user_AffQuota := user_AffQuota user - quota,
                               user_Quota := user_Quota user + quota\<rparr>
              in case stmt s1 of
                   (False, s2) \<Rightarrow> (Inl ErrDB, s2)
                 | (True, s2) \<Rightarrow>
                     (Inr (), s2\<lparr>db := (db s2)\<lparr>users := save_row user_Id user' (users (db s2))\<rparr>\<rparr>))) s)"

section \<open>Balances\<close>

definition user_balance :: "store \<Rightarrow> int \<Rightarrow> int" where
  "user_balance s i =
    (case row user_Id (users (db s)) i of None \<Rightarrow> 0 | Some u \<Rightarrow> user_Quota u)
    + pending (batchUpdateStores s BatchUpdateTypeUserQuota) i"

definition token_balance :: "store \<Rightarrow> int \<Rightarrow> int" where
  "token_balance s i =
    (case row tok_Id (tokens (db s)) i of None \<Rightarrow> 0 | Some t \<Rightarrow> tok_RemainQuota t)
    + pending (batchUpdateStores s BatchUpdateTypeTokenQuota) i"

text \<open>An account that exists, in a database that is up: there the operations succeed.\<close>

definition user_live :: "store \<Rightarrow> int \<Rightarrow> bool" where
  "user_live s i \<longleftrightarrow> faults s = [] \<and> row user_Id (users (db s)) i \<noteq> None"

definition token_live :: "store \<Rightarrow> int \<Rightarrow> bool" where
  "token_live s i \<longleftrightarrow> faults s = [] \<and> row tok_Id (tokens (db s)) i \<noteq> None"

text \<open>What an account operation may not touch: every other table and batch store.\<close>

definition beside_users :: "store \<Rightarrow> tables \<times> (BatchUpdateType \<Rightarrow> (int \<times> int) list)" where
  "beside_users s = ((db s)\<lparr>users := []\<rparr>, (batchUpdateStores s)(BatchUpdateTypeUserQuota := []))"

definition beside_tokens :: "store \<Rightarrow> tables \<times> (BatchUpdateType \<Rightarrow> (int \<times> int) list)" where
  "beside_tokens s = ((db s)\<lparr>tokens := []\<rparr>, (batchUpdateStores s)(BatchUpdateTypeTokenQuota := []))"

section \<open>Pending deltas\<close>

lemma pending_Nil [simp]: "pending [] i = 0"
  by (simp add: pending_def)

lemma pending_Cons: "pending ((k, v) # ps) i = (if k = i then v else pending ps i)"
  by (simp add: pending_def)

lemma pending_add: "pending (add_pending i v ps) j = pending ps j + (if j = i then v else 0)"
  by (induction i v ps rule: add_pending.induct) (auto simp: pending_Cons pending_def)

lemma keys_add_pending: "fst ` set (add_pending i v ps) = insert i (fst ` set ps)"
  by (induction i v ps rule: add_pending.induct) auto

lemma distinct_add_pending:
  "distinct (map fst ps) \<Longrightarrow> distinct (map fst (add_pending i v ps))"
proof (induction i v ps rule: add_pending.induct)
  case (2 i v k w ps)
  then show ?case using keys_add_pending [of i v ps] by auto
qed simp

lemma pending_absent: "i \<notin> fst ` set ps \<Longrightarrow> pending ps i = 0"
  by (auto simp: pending_def split: option.splits dest: map_of_SomeD intro: rev_image_eqI)

lemma pending_mem: "distinct (map fst ps) \<Longrightarrow> (k, v) \<in> set ps \<Longrightarrow> pending ps k = v"
  by (simp add: pending_def)

lemma addNewRecord_sel [simp]:
  "db (addNewRecord t i v s) = db s" "faults (addNewRecord t i v s) = faults s"
  "effects (addNewRecord t i v s) = effects s"
  "batchUpdateStores (addNewRecord t i v s) =
     (batchUpdateStores s)(t := add_pending i v (batchUpdateStores s t))"
  by (simp_all add: addNewRecord_def)

section \<open>Row updates\<close>

lemma update_user_eq:
  "update_user i f s =
    (if \<not> fst (stmt s) then (Some ErrDB, snd (stmt s))
     else if row user_Id (users (db s)) i = None then (Some ErrUserNotExist, snd (stmt s))
     else (None, (snd (stmt s))\<lparr>db := (db s)\<lparr>users := upd_row user_Id i f (users (db s))\<rparr>\<rparr>))"
  by (simp add: update_user_def case_stmt)

lemma update_token_eq:
  "update_token i f s =
    (if \<not> fst (stmt s) then (Some ErrDB, snd (stmt s))
     else if row tok_Id (tokens (db s)) i = None then (Some ErrTokenNotExist, snd (stmt s))
     else (None, (snd (stmt s))\<lparr>db := (db s)\<lparr>tokens := upd_row tok_Id i f (tokens (db s))\<rparr>\<rparr>))"
  by (simp add: update_token_def case_stmt)

lemma find_user_eq:
  "find_user i s =
    ((if \<not> fst (stmt s) then Inl ErrDB
      else case row user_Id (users (db s)) i of None \<Rightarrow> Inl ErrRecordNotFound | Some u \<Rightarrow> Inr u), snd (stmt s))"
  by (simp add: find_user_def case_stmt split: option.splits)

section \<open>The account contract\<close>

locale quota_account =
  fixes inc :: "int \<Rightarrow> int \<Rightarrow> store \<Rightarrow> error option \<times> store"
    and decr :: "int \<Rightarrow> int \<Rightarrow> store \<Rightarrow> error option \<times> store"
    and bal :: "store \<Rightarrow> int \<Rightarrow> int"
    and live :: "store \<Rightarrow> int \<Rightarrow> bool"
    and beside :: "store \<Rightarrow> 'f"
  assumes inc_neg: "q < 0 \<Longrightarrow> inc i q s = (Some ErrNegativeQuota, s)"
    and decr_neg: "q < 0 \<Longrightarrow> decr i q s = (Some ErrNegativeQuota, s)"
    and inc_ok: "fst (inc i q s) = None \<Longrightarrow> bal (snd (inc i q s)) j = bal s j + (if j = i then q else 0)"
    and decr_ok: "fst (decr i q s) = None \<Longrightarrow> bal (snd (decr i q s)) j = bal s j - (if j = i then q else 0)"
    and inc_err: "fst (inc i q s) \<noteq> None \<Longrightarrow> bal (snd (inc i q s)) j = bal s j"
    and decr_err: "fst (decr i q s) \<noteq> None \<Longrightarrow> bal (snd (decr i q s)) j = bal s j"
    and inc_live: "live s i \<Longrightarrow> 0 \<le> q \<Longrightarrow> fst (inc i q s) = None"
    and decr_live: "live s i \<Longrightarrow> 0 \<le> q \<Longrightarrow> fst (decr i q s) = None"
    and inc_keeps_live: "live s j \<Longrightarrow> live (snd (inc i q s)) j"
    and decr_keeps_live: "live s j \<Longrightarrow> live (snd (decr i q s)) j"
    and inc_beside: "beside (snd (inc i q s)) = beside s"
    and decr_beside: "beside (snd (decr i q s)) = beside s"
begin

text \<open>What every caller of an account does: charge, then give back or charge the difference.\<close>

lemma charge_then_return:
  assumes "live s i" "0 \<le> q"
  shows "bal (snd (inc i q (snd (decr i q s)))) j = bal s j"
  using assms by (simp add: inc_ok decr_ok inc_live decr_live decr_keeps_live)

lemma charge_to_actual:
  assumes "fst (decr i pre s) = None" "pre \<le> actual" "fst (decr i (actual - pre) (snd (decr i pre s))) = None"
  shows "bal (snd (decr i (actual - pre) (snd (decr i pre s)))) i = bal s i - actual"
  using assms by (simp add: decr_ok)

text \<open>The outcome is all or nothing, whatever fails.\<close>

lemma decr_all_or_nothing:
  "bal (snd (decr i q s)) j = bal s j - (if fst (decr i q s) = None \<and> j = i then q else 0)"
  by (cases "fst (decr i q s) = None") (auto simp: decr_ok decr_err)

lemma inc_all_or_nothing:
  "bal (snd (inc i q s)) j = bal s j + (if fst (inc i q s) = None \<and> j = i then q else 0)"
  by (cases "fst (inc i q s) = None") (auto simp: inc_ok inc_err)

end

section \<open>Users keep the contract\<close>

lemma on_success:
  "(case p of (Some e, s1) \<Rightarrow> (Some e, s1) | (None, s1) \<Rightarrow> (None, h s1)) =
    (fst p, if fst p = None then h (snd p) else snd p)"
  by (cases p; cases "fst p") auto

lemma account_sels_emit [simp]:
  "token_balance (emit e s) = token_balance s" "token_live (emit e s) = token_live s"
  "beside_tokens (emit e s) = beside_tokens s" "user_balance (emit e s) = user_balance s"
  "user_live (emit e s) = user_live s" "beside_users (emit e s) = beside_users s"
  by (auto simp: token_balance_def token_live_def beside_tokens_def user_balance_def user_live_def
      beside_users_def fun_eq_iff)

lemma balance_addNewRecord [simp]:
  "user_balance (addNewRecord t i v s) j =
     user_balance s j + (if t = BatchUpdateTypeUserQuota \<and> j = i then v else 0)"
  "token_balance (addNewRecord t i v s) j =
     token_balance s j + (if t = BatchUpdateTypeTokenQuota \<and> j = i then v else 0)"
  "user_live (addNewRecord t i v s) = user_live s" "token_live (addNewRecord t i v s) = token_live s"
  "beside_users (addNewRecord BatchUpdateTypeUserQuota i v s) = beside_users s"
  "beside_tokens (addNewRecord BatchUpdateTypeTokenQuota i v s) = beside_tokens s"
  by (auto simp: user_balance_def token_balance_def user_live_def token_live_def beside_users_def
      beside_tokens_def pending_add fun_eq_iff)

lemma user_row_update:
  "row user_Id (upd_row user_Id i (\<lambda>u. u\<lparr>user_Quota := g u\<rparr>) us) j =
    (if j = i then map_option (\<lambda>u. u\<lparr>user_Quota := g u\<rparr>) (row user_Id us j) else row user_Id us j)"
  by (rule row_upd_row) simp

lemma increaseUserQuota_facts:
  "user_balance (snd (increaseUserQuota i q s)) j =
     user_balance s j + (if fst (increaseUserQuota i q s) = None \<and> j = i then q else 0)"
  "user_live s j \<Longrightarrow> user_live (snd (increaseUserQuota i q s)) j"
  "user_live s i \<Longrightarrow> fst (increaseUserQuota i q s) = None"
  "beside_users (snd (increaseUserQuota i q s)) = beside_users s"
  by (auto simp: update_user_eq increaseUserQuota_def user_balance_def user_live_def beside_users_def user_row_update
      split: option.splits)

lemma decreaseUserQuota_facts:
  "user_balance (snd (decreaseUserQuota i q s)) j =
     user_balance s j - (if fst (decreaseUserQuota i q s) = None \<and> j = i then q else 0)"
  "user_live s j \<Longrightarrow> user_live (snd (decreaseUserQuota i q s)) j"
  "user_live s i \<Longrightarrow> fst (decreaseUserQuota i q s) = None"
  "beside_users (snd (decreaseUserQuota i q s)) = beside_users s"
  by (auto simp: update_user_eq decreaseUserQuota_def user_balance_def user_live_def beside_users_def user_row_update
      split: option.splits)

interpretation user_acct: quota_account
    "\<lambda>i q. IncreaseUserQuota env i q direct" "\<lambda>i q. DecreaseUserQuota env i q direct"
    user_balance user_live beside_users for env direct
  by unfold_locales
    (auto simp: IncreaseUserQuota_def DecreaseUserQuota_def increaseUserQuota_facts decreaseUserQuota_facts
      split: if_splits)

section \<open>Tokens keep the contract\<close>

lemma token_row_update:
  "row tok_Id (upd_row tok_Id i (\<lambda>t. t\<lparr>tok_RemainQuota := f t, tok_UsedQuota := g t, tok_AccessedTime := n\<rparr>) ts) j =
    (if j = i then map_option (\<lambda>t. t\<lparr>tok_RemainQuota := f t, tok_UsedQuota := g t, tok_AccessedTime := n\<rparr>)
       (row tok_Id ts j) else row tok_Id ts j)"
  by (rule row_upd_row) simp

lemma increaseTokenQuota_facts:
  "token_balance (snd (increaseTokenQuota env i q s)) j =
     token_balance s j + (if fst (increaseTokenQuota env i q s) = None \<and> j = i then q else 0)"
  "token_live s j \<Longrightarrow> token_live (snd (increaseTokenQuota env i q s)) j"
  "token_live s i \<Longrightarrow> fst (increaseTokenQuota env i q s) = None"
  "beside_tokens (snd (increaseTokenQuota env i q s)) = beside_tokens s"
  by (auto simp: update_token_eq increaseTokenQuota_def token_balance_def token_live_def beside_tokens_def token_row_update
      split: option.splits)

lemma decreaseTokenQuota_facts:
  "token_balance (snd (decreaseTokenQuota env i q s)) j =
     token_balance s j - (if fst (decreaseTokenQuota env i q s) = None \<and> j = i then q else 0)"
  "token_live s j \<Longrightarrow> token_live (snd (decreaseTokenQuota env i q s)) j"
  "token_live s i \<Longrightarrow> fst (decreaseTokenQuota env i q s) = None"
  "beside_tokens (snd (decreaseTokenQuota env i q s)) = beside_tokens s"
  by (auto simp: update_token_eq decreaseTokenQuota_def token_balance_def token_live_def beside_tokens_def token_row_update
      split: option.splits)

interpretation token_acct: quota_account
    "\<lambda>i q. IncreaseTokenQuota env i key q" "\<lambda>i q. DecreaseTokenQuota env i key q"
    token_balance token_live beside_tokens for env key
  by unfold_locales
    (auto simp: IncreaseTokenQuota_def DecreaseTokenQuota_def increaseTokenQuota_facts decreaseTokenQuota_facts
      on_success split: if_splits)

section \<open>The flush\<close>

text \<open>
  The state of the batch updater: each store has at most one delta per account, and the
  accounts with a token or user delta exist.
\<close>

definition user_exists :: "store \<Rightarrow> int \<Rightarrow> bool" where
  "user_exists s i \<longleftrightarrow> row user_Id (users (db s)) i \<noteq> None"

definition token_exists :: "store \<Rightarrow> int \<Rightarrow> bool" where
  "token_exists s i \<longleftrightarrow> row tok_Id (tokens (db s)) i \<noteq> None"

definition wf_batch :: "store \<Rightarrow> bool" where
  "wf_batch s \<longleftrightarrow> (\<forall>t. distinct (map fst (batchUpdateStores s t)))
    \<and> (\<forall>k \<in> fst ` set (batchUpdateStores s BatchUpdateTypeTokenQuota). token_exists s k)
    \<and> (\<forall>t \<in> {BatchUpdateTypeUserQuota, BatchUpdateTypeUsedQuota, BatchUpdateTypeRequestCount}.
         \<forall>k \<in> fst ` set (batchUpdateStores s t). user_exists s k)"

definition user_used :: "store \<Rightarrow> int \<Rightarrow> int" where
  "user_used s i =
    (case row user_Id (users (db s)) i of None \<Rightarrow> 0 | Some u \<Rightarrow> user_UsedQuota u)
    + pending (batchUpdateStores s BatchUpdateTypeUsedQuota) i"

definition user_requests :: "store \<Rightarrow> int \<Rightarrow> int" where
  "user_requests s i =
    (case row user_Id (users (db s)) i of None \<Rightarrow> 0 | Some u \<Rightarrow> user_RequestCount u)
    + pending (batchUpdateStores s BatchUpdateTypeRequestCount) i"

lemma flush_tokens:
  assumes "faults s = []" "distinct (map fst ps)" "\<forall>k \<in> fst ` set ps. token_exists s k"
  shows "faults (fold (\<lambda>(k, v) s. snd (increaseTokenQuota env k v s)) ps s) = []
    \<and> beside_tokens (fold (\<lambda>(k, v) s. snd (increaseTokenQuota env k v s)) ps s) = beside_tokens s
    \<and> batchUpdateStores (fold (\<lambda>(k, v) s. snd (increaseTokenQuota env k v s)) ps s) = batchUpdateStores s
    \<and> token_balance (fold (\<lambda>(k, v) s. snd (increaseTokenQuota env k v s)) ps s) j
        = token_balance s j + pending ps j"
  using assms
proof (induction ps arbitrary: s)
  case (Cons p ps)
  obtain k v where p: "p = (k, v)" by force
  let ?s = "snd (increaseTokenQuota env k v s)"
  have live: "token_live s k" using Cons.prems p by (simp add: token_live_def token_exists_def)
  have step: "faults ?s = []" "\<forall>i. token_exists ?s i = token_exists s i" "beside_tokens ?s = beside_tokens s"
    "batchUpdateStores ?s = batchUpdateStores s"
    using Cons.prems live
    by (auto simp: increaseTokenQuota_def update_token_eq token_exists_def token_live_def token_row_update
        beside_tokens_def)
  have "token_balance ?s j = token_balance s j + (if j = k then v else 0)"
    using live by (simp add: increaseTokenQuota_facts)
  then show ?case
    using Cons.IH [of ?s] Cons.prems step p by (auto simp: pending_Cons pending_absent)
qed simp

lemma flush_channels:
  assumes "faults s = []"
  shows "faults (fold (\<lambda>(k, v). updateChannelUsedQuota k v) ps s) = []
    \<and> users (db (fold (\<lambda>(k, v). updateChannelUsedQuota k v) ps s)) = users (db s)
    \<and> tokens (db (fold (\<lambda>(k, v). updateChannelUsedQuota k v) ps s)) = tokens (db s)
    \<and> batchUpdateStores (fold (\<lambda>(k, v). updateChannelUsedQuota k v) ps s) = batchUpdateStores s"
  using assms by (induction ps arbitrary: s) (auto simp: updateChannelUsedQuota_def)

lemma user_row_settle:
  "row user_Id (upd_row user_Id i (\<lambda>u. u\<lparr>user_Quota := f u, user_UsedQuota := g u, user_RequestCount := h u\<rparr>) us) j =
    (if j = i then map_option (\<lambda>u. u\<lparr>user_Quota := f u, user_UsedQuota := g u, user_RequestCount := h u\<rparr>)
       (row user_Id us j) else row user_Id us j)"
  by (rule row_upd_row) simp

lemma settle_user_facts:
  fixes q u r :: int
  assumes "faults s = []" "user_exists s i"
  defines "s' \<equiv> updateUserQuotaUsedQuotaAndRequestCount i q u r s"
  shows "faults s' = []" "tokens (db s') = tokens (db s)" "batchUpdateStores s' = batchUpdateStores s"
    "user_exists s' j = user_exists s j"
    "user_balance s' j = user_balance s j + (if j = i then q else 0)"
    "user_used s' j = user_used s j + (if j = i then u else 0)"
    "user_requests s' j = user_requests s j + (if j = i then r else 0)"
  using assms
  by (auto simp: updateUserQuotaUsedQuotaAndRequestCount_def update_user_eq user_exists_def user_row_settle
      user_balance_def user_used_def user_requests_def)

lemma flush_users:
  fixes q u r :: "int \<Rightarrow> int"
  assumes "faults s = []" "distinct ks" "\<forall>k \<in> set ks. user_exists s k"
  defines "s' \<equiv> fold (\<lambda>k. updateUserQuotaUsedQuotaAndRequestCount k (q k) (u k) (r k)) ks s"
  shows "tokens (db s') = tokens (db s) \<and> batchUpdateStores s' = batchUpdateStores s
    \<and> user_balance s' j = user_balance s j + (if j \<in> set ks then q j else 0)
    \<and> user_used s' j = user_used s j + (if j \<in> set ks then u j else 0)
    \<and> user_requests s' j = user_requests s j + (if j \<in> set ks then r j else 0)"
  using assms(1-3) unfolding s'_def
proof (induction ks arbitrary: s)
  case (Cons k ks)
  let ?s = "updateUserQuotaUsedQuotaAndRequestCount k (q k) (u k) (r k) s"
  have "user_exists s k" using Cons.prems by simp
  note facts = settle_user_facts [OF Cons.prems(1) this, of "q k" "u k" "r k"]
  show ?case using Cons.IH [of ?s] Cons.prems facts by auto
qed simp

lemma tokens_beside: "beside_tokens s = beside_tokens s' \<Longrightarrow> users (db s) = users (db s')"
  unfolding beside_tokens_def by (metis Pair_inject tables.select_convs(1) tables.surjective tables.update_convs(2))

lemma wf_batchD:
  assumes "wf_batch s"
  shows "distinct (map fst (batchUpdateStores s t))"
    "k \<in> fst ` set (batchUpdateStores s BatchUpdateTypeTokenQuota) \<Longrightarrow> token_exists s k"
    "k \<in> fst ` set (batchUpdateStores s BatchUpdateTypeUserQuota) \<Longrightarrow> user_exists s k"
    "k \<in> fst ` set (batchUpdateStores s BatchUpdateTypeUsedQuota) \<Longrightarrow> user_exists s k"
    "k \<in> fst ` set (batchUpdateStores s BatchUpdateTypeRequestCount) \<Longrightarrow> user_exists s k"
  using assms unfolding wf_batch_def by blast+

lemma no_data: "list_all (\<lambda>t. batchUpdateStores s t = []) all_batch_types \<Longrightarrow> batchUpdateStores s t = []"
  by (cases t) (simp_all add: all_batch_types_def)

lemma batchUpdate_facts:
  assumes up: "faults s = []" and wf: "wf_batch s"
  shows "batchUpdateStores (batchUpdate env s) t = []
    \<and> user_balance (batchUpdate env s) j = user_balance s j
    \<and> token_balance (batchUpdate env s) j = token_balance s j
    \<and> user_used (batchUpdate env s) j = user_used s j
    \<and> user_requests (batchUpdate env s) j = user_requests s j"
proof (cases "list_all (\<lambda>t. batchUpdateStores s t = []) all_batch_types")
  case True
  then show ?thesis using no_data [OF True] by (simp only: batchUpdate_def if_True)
next
  case False
  define st where "st = batchUpdateStores s"
  define s0 where "s0 = s\<lparr>batchUpdateStores := (\<lambda>_. [])\<rparr>"
  define s1 where "s1 = fold (\<lambda>(k, v) s. snd (increaseTokenQuota env k v s)) (st BatchUpdateTypeTokenQuota) s0"
  define s2 where "s2 = fold (\<lambda>(k, v). updateChannelUsedQuota k v) (st BatchUpdateTypeChannelUsedQuota) s1"
  define ids where "ids = remdups (map fst (st BatchUpdateTypeUserQuota) @ map fst (st BatchUpdateTypeUsedQuota)
                @ map fst (st BatchUpdateTypeRequestCount))"
  define s3 where "s3 = fold (\<lambda>k. updateUserQuotaUsedQuotaAndRequestCount k
      (pending (st BatchUpdateTypeUserQuota) k) (pending (st BatchUpdateTypeUsedQuota) k)
      (pending (st BatchUpdateTypeRequestCount) k)) ids s2"
  have final: "batchUpdate env s = s3"
    using False unfolding batchUpdate_def Let_def s3_def s2_def s1_def s0_def st_def ids_def by simp
  have s0: "faults s0 = []" "db s0 = db s" "batchUpdateStores s0 = (\<lambda>_. [])"
    using up by (simp_all add: s0_def)
  have "\<forall>k \<in> fst ` set (st BatchUpdateTypeTokenQuota). token_exists s0 k"
    using wf_batchD(2) [OF wf] by (simp add: token_exists_def s0 st_def)
  then have s1: "faults s1 = []" "beside_tokens s1 = beside_tokens s0" "batchUpdateStores s1 = (\<lambda>_. [])"
      "token_balance s1 j = token_balance s0 j + pending (st BatchUpdateTypeTokenQuota) j"
    using flush_tokens [OF s0(1), of "st BatchUpdateTypeTokenQuota" env j] wf_batchD(1) [OF wf] s0
    by (simp_all add: s1_def st_def)
  have s2: "faults s2 = []" "users (db s2) = users (db s)" "tokens (db s2) = tokens (db s1)"
      "batchUpdateStores s2 = (\<lambda>_. [])"
    using flush_channels [OF s1(1), of "st BatchUpdateTypeChannelUsedQuota"] s1 tokens_beside [OF s1(2)] s0
    by (simp_all add: s2_def)
  have "user_exists s2 = user_exists s" by (simp add: user_exists_def fun_eq_iff s2)
  then have "\<forall>k \<in> set ids. user_exists s2 k"
    using wf_batchD(3-5) [OF wf] by (force simp: ids_def st_def)
  note s3 = flush_users [OF s2(1) _ this, of "pending (st BatchUpdateTypeUserQuota)"
      "pending (st BatchUpdateTypeUsedQuota)" "pending (st BatchUpdateTypeRequestCount)" j, folded s3_def]
  have ids: "(if j \<in> set ids then pending (st t) j else 0) = pending (st t) j"
    if "t \<in> {BatchUpdateTypeUserQuota, BatchUpdateTypeUsedQuota, BatchUpdateTypeRequestCount}" for t
    using that by (auto simp: ids_def pending_absent)
  have "distinct ids" by (simp add: ids_def)
  note s3 = s3 [OF this]
  have s3': "batchUpdateStores s3 = (\<lambda>_. [])" "tokens (db s3) = tokens (db s1)"
      "user_balance s3 j = user_balance s2 j + pending (st BatchUpdateTypeUserQuota) j"
      "user_used s3 j = user_used s2 j + pending (st BatchUpdateTypeUsedQuota) j"
      "user_requests s3 j = user_requests s2 j + pending (st BatchUpdateTypeRequestCount) j"
    using s3 s2(3,4) ids [of BatchUpdateTypeUserQuota] ids [of BatchUpdateTypeUsedQuota]
      ids [of BatchUpdateTypeRequestCount] by auto
  have "token_balance s3 j = token_balance s1 j"
    by (simp add: token_balance_def s3'(1,2) s1(3))
  then have "token_balance s3 j = token_balance s j"
    using s1(4) by (simp add: token_balance_def s0 st_def)
  moreover have "user_balance s3 j = user_balance s j"
    using s3'(3) by (simp add: user_balance_def s2 s3'(1) st_def)
  moreover have "user_used s3 j = user_used s j"
    using s3'(4) by (simp add: user_used_def s2 s3'(1) st_def)
  moreover have "user_requests s3 j = user_requests s j"
    using s3'(5) by (simp add: user_requests_def s2 s3'(1) st_def)
  ultimately show ?thesis using s3'(1) by (simp add: final)
qed

section \<open>Sequences of account operations\<close>

datatype quota_op =
    OpIncreaseUser int int
  | OpDecreaseUser int int
  | OpIncreaseToken int string int
  | OpDecreaseToken int string int
  | OpUsed int int

fun quota_step :: "env \<Rightarrow> quota_op \<Rightarrow> store \<Rightarrow> store" where
  "quota_step env (OpIncreaseUser i q) s = snd (IncreaseUserQuota env i q False s)"
| "quota_step env (OpDecreaseUser i q) s = snd (DecreaseUserQuota env i q False s)"
| "quota_step env (OpIncreaseToken i key q) s = snd (IncreaseTokenQuota env i key q s)"
| "quota_step env (OpDecreaseToken i key q) s = snd (DecreaseTokenQuota env i key q s)"
| "quota_step env (OpUsed i q) s = UpdateUserUsedQuotaAndRequestCount env i q s"

fun op_target :: "store \<Rightarrow> quota_op \<Rightarrow> bool" where
  "op_target s (OpIncreaseUser i q) = user_exists s i"
| "op_target s (OpDecreaseUser i q) = user_exists s i"
| "op_target s (OpIncreaseToken i key q) = token_exists s i"
| "op_target s (OpDecreaseToken i key q) = token_exists s i"
| "op_target s (OpUsed i q) = user_exists s i"

fun user_delta :: "quota_op \<Rightarrow> int \<Rightarrow> int" where
  "user_delta (OpIncreaseUser i q) j = (if 0 \<le> q \<and> j = i then q else 0)"
| "user_delta (OpDecreaseUser i q) j = (if 0 \<le> q \<and> j = i then - q else 0)"
| "user_delta _ j = 0"

fun token_delta :: "quota_op \<Rightarrow> int \<Rightarrow> int" where
  "token_delta (OpIncreaseToken i key q) j = (if 0 \<le> q \<and> j = i then q else 0)"
| "token_delta (OpDecreaseToken i key q) j = (if 0 \<le> q \<and> j = i then - q else 0)"
| "token_delta _ j = 0"

lemmas account_ops = IncreaseUserQuota_def DecreaseUserQuota_def increaseUserQuota_def decreaseUserQuota_def
  IncreaseTokenQuota_def DecreaseTokenQuota_def increaseTokenQuota_def decreaseTokenQuota_def
  UpdateUserUsedQuotaAndRequestCount_def updateUserUsedQuotaAndRequestCount_def

lemma user_row_used:
  "row user_Id (upd_row user_Id i (\<lambda>u. u\<lparr>user_UsedQuota := g u, user_RequestCount := h u\<rparr>) us) j =
    (if j = i then map_option (\<lambda>u. u\<lparr>user_UsedQuota := g u, user_RequestCount := h u\<rparr>) (row user_Id us j)
     else row user_Id us j)"
  by (rule row_upd_row) simp

lemmas row_updates = user_row_update user_row_settle user_row_used token_row_update

lemma quota_step_exists:
  assumes "faults s = []"
  shows "faults (quota_step env op s) = []"
    "user_exists (quota_step env op s) i = user_exists s i"
    "token_exists (quota_step env op s) i = token_exists s i"
  using assms
  by (cases op; auto simp: account_ops update_user_eq update_token_eq user_exists_def token_exists_def
      row_updates on_success)+

lemma quota_step_balance:
  assumes "faults s = []" "op_target s op"
  shows "user_balance (quota_step env op s) j = user_balance s j + user_delta op j"
    "token_balance (quota_step env op s) j = token_balance s j + token_delta op j"
  using assms
  by (cases op; auto simp: account_ops update_user_eq update_token_eq user_exists_def token_exists_def
      row_updates on_success user_balance_def token_balance_def pending_add)+

lemma ball_add_pending:
  "(\<forall>x \<in> set (add_pending i v ps). P (fst x)) \<longleftrightarrow> P i \<and> (\<forall>x \<in> set ps. P (fst x))"
  using keys_add_pending [of i v ps] by (metis (no_types, opaque_lifting) imageE image_eqI insert_iff)

lemma quota_step_wf_batch:
  assumes "faults s = []" "op_target s op" "wf_batch s"
  shows "wf_batch (quota_step env op s)"
proof -
  have keep: "user_exists (quota_step env op s) = user_exists s" "token_exists (quota_step env op s) = token_exists s"
    using quota_step_exists [OF assms(1)] by (simp_all add: fun_eq_iff)
  show ?thesis
    unfolding wf_batch_def keep using assms
    by (cases op; simp add: account_ops update_user_eq update_token_eq on_success wf_batch_def
        distinct_add_pending ball_add_pending)
qed

definition quota_run :: "env \<Rightarrow> quota_op list \<Rightarrow> store \<Rightarrow> store" where
  "quota_run env ops s = fold (quota_step env) ops s"

lemma op_target_step: "faults s = [] \<Longrightarrow> op_target (quota_step env op' s) op = op_target s op"
  by (cases op) (simp_all add: quota_step_exists)

lemma quota_run_facts:
  assumes "faults s = []" "list_all (op_target s) ops"
  shows "faults (quota_run env ops s) = []
    \<and> user_balance (quota_run env ops s) j = user_balance s j + (\<Sum>op \<leftarrow> ops. user_delta op j)
    \<and> token_balance (quota_run env ops s) j = token_balance s j + (\<Sum>op \<leftarrow> ops. token_delta op j)
    \<and> (wf_batch s \<longrightarrow> wf_batch (quota_run env ops s))"
  using assms unfolding quota_run_def
proof (induction ops arbitrary: s)
  case (Cons op ops)
  have "list_all (op_target (quota_step env op s)) ops"
    using Cons.prems by (simp add: list_all_iff op_target_step)
  then show ?case
    using Cons.IH [of "quota_step env op s"] Cons.prems quota_step_exists [OF Cons.prems(1), of env op]
      quota_step_balance [OF Cons.prems(1), of op env] quota_step_wf_batch [OF Cons.prems(1), of op env]
    by simp
qed simp

definition demo_user :: "int \<Rightarrow> int \<Rightarrow> User" where
  "demo_user i q = \<lparr>user_Id = i, user_Quota = q, user_UsedQuota = 0, user_RequestCount = 0,
     user_Group = ''default'', user_Email = [], user_Status = 1, user_Username = ''u'', user_Setting = [],
     user_AffCount = 0, user_AffQuota = 0, user_AffHistoryQuota = 0, user_InviterId = 0,
     user_StripeCustomer = []\<rparr>"

definition demo_token :: "int \<Rightarrow> int \<Rightarrow> int \<Rightarrow> Token" where
  "demo_token i u q = \<lparr>tok_Id = i, tok_UserId = u, tok_Key = ''k'', tok_Status = 1, tok_Name = ''n'',
     tok_CreatedTime = 0, tok_AccessedTime = 0, tok_ExpiredTime = - 1, tok_RemainQuota = q,
     tok_UnlimitedQuota = False, tok_ModelLimitsEnabled = False, tok_ModelLimits = [], tok_AllowIps = None,
     tok_UsedQuota = 0, tok_Group = [], tok_CrossGroupRetry = False\<rparr>"

definition demo_env :: "bool \<Rightarrow> env" where
  "demo_env batch = \<lparr>BatchUpdateEnabled = batch, RedisEnabled = False, GetTimestamp = 1700000000,
     db_timestamp = 1700000000, redis_token = (\<lambda>_. None), redis_user = (\<lambda>_. None), plan_cache = (\<lambda>_. None),
     plan_info_cache = (\<lambda>_. None), Local = fixed_zone 0, map_order = (\<lambda>ks. ks), env_QuotaPerUnit = 500000,
     GetMaxUserTokens = 1000,
     error_text = (\<lambda>e. if e = ErrNoActiveSubscription then ''no active subscription'' else ''error'')\<rparr>"

definition demo_store :: store where
  "demo_store = \<lparr>db = \<lparr>users = [demo_user 1 1000], tokens = [demo_token 7 1 500], channel_used = [], plans = [],
       subs = [], preRecords = [], orders = [], topups = [], redemptions = [], checkins = [], channels = [], abilities = [], next_id = 1\<rparr>,
     batchUpdateStores = (\<lambda>_. []), effects = [], faults = []\<rparr>"

lemmas demo_defs = demo_user_def demo_token_def demo_env_def demo_store_def

text \<open>
  C12. Batch mode refines direct mode: when the rows exist and no statement fails, any
  sequence of charges and returns run in batch mode and then flushed leaves
  every user and token row with the quota that the same sequence leaves in direct
  mode, and nothing pending.
\<close>

theorem batch_flush_refines_direct:
  assumes "faults s = []" "list_all (op_target s) ops" "\<forall>t. batchUpdateStores s t = []"
  shows "let direct = quota_run (env\<lparr>BatchUpdateEnabled := False\<rparr>) ops s;
             batched = batchUpdate env (quota_run (env\<lparr>BatchUpdateEnabled := True\<rparr>) ops s)
         in user_balance batched i = user_balance direct i
          \<and> token_balance batched i = token_balance direct i
          \<and> batchUpdateStores batched t = []"
proof -
  have "wf_batch s" using assms(3) by (simp add: wf_batch_def)
  then show ?thesis
    using quota_run_facts [OF assms(1,2), of "env\<lparr>BatchUpdateEnabled := True\<rparr>" i]
      quota_run_facts [OF assms(1,2), of "env\<lparr>BatchUpdateEnabled := False\<rparr>" i]
      batchUpdate_facts [of "quota_run (env\<lparr>BatchUpdateEnabled := True\<rparr>) ops s" env t i]
    by (simp add: Let_def)
qed

theorem batch_flush_refines_direct_witness:
  "user_balance (batchUpdate (demo_env True)
      (quota_run (demo_env True) [OpDecreaseUser 1 30, OpDecreaseToken 7 ''k'' 30, OpIncreaseUser 1 5] demo_store)) 1
    = 975"
proof -
  let ?ops = "[OpDecreaseUser 1 30, OpDecreaseToken 7 ''k'' 30, OpIncreaseUser 1 5]"
  have "(demo_env True)\<lparr>BatchUpdateEnabled := True\<rparr> = demo_env True" by (simp add: demo_env_def)
  moreover have "user_balance (quota_run ((demo_env True)\<lparr>BatchUpdateEnabled := False\<rparr>) ?ops demo_store) 1 = 975"
    by (simp add: quota_run_def account_ops update_user_eq update_token_eq on_success user_balance_def demo_defs)
  ultimately show ?thesis
    using batch_flush_refines_direct [of demo_store ?ops "demo_env True" 1]
    by (simp add: Let_def demo_store_def user_exists_def token_exists_def demo_user_def demo_token_def)
qed

section \<open>Transfers and rewards\<close>

text \<open>
  C31. Moving invitation quota to the wallet is atomic: on success the user's two
  quotas change by exactly the amount in opposite directions, the invitation quota
  stays non-negative and no other user changes; on an error no table changes.
\<close>

theorem transfer_aff_quota_atomic:
  assumes "TransferAffQuotaToQuota QuotaPerUnit i q s = (r, s')"
  shows "case r of
      Inl _ \<Rightarrow> db s' = db s
    | Inr _ \<Rightarrow> (\<exists>u u'. row user_Id (users (db s)) i = Some u \<and> row user_Id (users (db s')) i = Some u'
        \<and> user_Quota u' = user_Quota u + q \<and> user_AffQuota u' = user_AffQuota u - q \<and> 0 \<le> user_AffQuota u'
        \<and> (\<forall>j. j \<noteq> i \<longrightarrow> row user_Id (users (db s')) j = row user_Id (users (db s)) j))"
proof (cases r)
  case (Inl e)
  then show ?thesis
    using assms by (auto simp: TransferAffQuotaToQuota_def split: if_splits dest: transaction_errD)
next
  case (Inr x)
  then show ?thesis
    using assms
    by (auto simp: TransferAffQuotaToQuota_def transaction_eq tx_end_eq find_user_eq case_stmt row_save
        split: if_splits sum.splits option.splits dest: row_key)
qed

theorem transfer_aff_quota_atomic_witness:
  "fst (TransferAffQuotaToQuota 10 1 20 demo_store) = Inl ErrAffQuotaInsufficient
    \<and> db (snd (TransferAffQuotaToQuota 10 1 20 demo_store)) = db demo_store"
proof -
  have "fst (TransferAffQuotaToQuota 10 1 20 demo_store) = Inl ErrAffQuotaInsufficient"
    by (simp add: TransferAffQuotaToQuota_def transaction_def tx_end_def find_user_def stmt_def demo_defs)
  then show ?thesis
    using transfer_aff_quota_atomic [of 10 1 20 demo_store] 
    by (cases "TransferAffQuotaToQuota 10 1 20 demo_store") auto
qed

text \<open>
  A charge between the read and the write of \<open>inviteUser\<close> is lost: the reward saves
  the whole row it read, quota included, so the inviter's balance is back at its old value.
\<close>

theorem invite_reward_loses_charge:
  assumes "faults s = []" "\<not> BatchUpdateEnabled env" "row user_Id (users (db s)) i = Some u" "0 \<le> q"
  shows "fst (DecreaseUserQuota env i q False s) = None
    \<and> user_balance (snd (DecreaseUserQuota env i q False s)) i = user_balance s i - q
    \<and> user_balance (snd (inviteUser_write reward u (snd (DecreaseUserQuota env i q False s)))) i = user_balance s i"
proof -
  have "user_Id u = i" using assms(3) by (rule row_key)
  then show ?thesis
    using assms
    by (auto simp: account_ops update_user_eq user_balance_def inviteUser_write_def row_save row_updates)
qed

theorem invite_reward_loses_charge_witness:
  "user_balance (snd (inviteUser_write 5 (demo_user 1 1000) (snd (DecreaseUserQuota (demo_env False) 1 300 False demo_store)))) 1
    = user_balance demo_store 1"
  using invite_reward_loses_charge [of demo_store "demo_env False" 1 "demo_user 1 1000" 300 5]
  by (simp add: demo_defs)

text \<open>
  In batch mode a token charge schedules no write to the token cache, although a
  user charge does and a token charge in direct mode does: with Redis enabled the cached
  remaining quota that authentication reads is not lowered.
\<close>

theorem batch_token_charge_skips_cache:
  assumes "0 \<le> q" "RedisEnabled env" "faults s = []" "token_exists s i"
  shows "effects (snd (DecreaseTokenQuota (env\<lparr>BatchUpdateEnabled := True\<rparr>) i key q s)) = effects s
    \<and> effects (snd (DecreaseTokenQuota (env\<lparr>BatchUpdateEnabled := False\<rparr>) i key q s))
        = effects s @ [CacheIncrTokenQuota key (- q)]
    \<and> effects (snd (DecreaseUserQuota (env\<lparr>BatchUpdateEnabled := True\<rparr>) u q False s))
        = effects s @ [CacheIncrUserQuota u (- q)]"
  using assms by (auto simp: account_ops update_token_eq on_success token_exists_def)

theorem batch_token_charge_skips_cache_witness:
  "effects (snd (DecreaseTokenQuota (demo_env False\<lparr>RedisEnabled := True, BatchUpdateEnabled := True\<rparr>) 7 ''k'' 9 demo_store))
    = []"
  using batch_token_charge_skips_cache [of 9 "demo_env False\<lparr>RedisEnabled := True\<rparr>" demo_store 7 "''k''" 1]
  by (simp add: demo_defs token_exists_def)

end
