(* ===== verification/Token_Auth.thy ===== *)
theory Token_Auth
  imports Ledger
begin

text \<open>
  API tokens (src/model/token.go, src/model/token_cache.go): lookup by key with the Redis
  cache in front, validation of a request's token, the administrative operations on
  tokens, and the pure functions on their texts: masking, the IP and model limits, and the
  patterns of the token search.

  The cache of tokens is the \<open>redis_token\<close> field of \<open>env\<close>; its key is an HMAC of the
  token's key, and the stored row has no key, which a hit puts back.  The SQL operator
  \<open>LIKE\<close> belongs to the database and is a parameter of \<open>SearchUserTokens\<close>; \<open>like_escape\<close>
  is its documented meaning with the escape character \<open>!\<close>.  \<open>InvalidateUserTokensCache\<close>
  reads soft-deleted rows, which the tables do not keep, and is not modelled.
\<close>

section \<open>Texts\<close>

definition MaskTokenKey :: "string \<Rightarrow> string" where
  "MaskTokenKey key =
    (if key = '''' then ''''
     else if length key \<le> 4 then replicate (length key) (CHR ''*'')
     else if length key \<le> 8 then take 2 key @ ''****'' @ drop (length key - 2) key
     else take 4 key @ ''**********'' @ drop (length key - 4) key)"

definition GetMaskedKey :: "Token \<Rightarrow> string" where
  "GetMaskedKey token = MaskTokenKey (tok_Key token)"

definition GetIpLimits :: "Token \<Rightarrow> string list" where
  "GetIpLimits token =
    (case tok_AllowIps token of
       None \<Rightarrow> []
     | Some allowIps \<Rightarrow>
         let cleanIps = ReplaceByte allowIps (CHR '' '') ''''
         in if cleanIps = '''' then []
            else filter (\<lambda>ip. ip \<noteq> '''')
                   (map (\<lambda>ip. ReplaceByte (TrimSpace ip) (CHR '','') '''') (Split cleanIps (CHR 0x0A))))"

definition GetModelLimits :: "Token \<Rightarrow> string list" where
  "GetModelLimits token = (if tok_ModelLimits token = '''' then [] else Split (tok_ModelLimits token) (CHR '',''))"

definition GetModelLimitsMap :: "Token \<Rightarrow> string \<Rightarrow> bool" where
  "GetModelLimitsMap token model \<longleftrightarrow> model \<in> set (GetModelLimits token)"

section \<open>Search patterns\<close>

definition validateLikePattern :: "string \<Rightarrow> error option" where
  "validateLikePattern input =
    (if Contains input ''%%'' then Some ErrLikeConsecutive
     else
       let n = count_list input (CHR ''%'')
       in if 2 < n then Some ErrLikeTooMany
          else if 0 < n \<and> length (ReplaceByte input (CHR ''%'') '''') < 2 then Some ErrLikeTooShort
          else None)"

definition sanitizeLikePattern :: "string \<Rightarrow> error + string" where
  "sanitizeLikePattern input =
    (let escaped = ReplaceByte (ReplaceByte input (CHR ''!'') ''!!'') (CHR ''_'') ''!_''
     in case validateLikePattern escaped of
          Some e \<Rightarrow> Inl e
        | None \<Rightarrow> Inr escaped)"

section \<open>Lookup\<close>

definition cacheGetTokenByKey :: "env \<Rightarrow> string \<Rightarrow> Token option" where
  "cacheGetTokenByKey env key =
    (if RedisEnabled env then map_option (\<lambda>t. t\<lparr>tok_Key := key\<rparr>) (redis_token env key) else None)"

definition first_token :: "(Token \<Rightarrow> bool) \<Rightarrow> store \<Rightarrow> (error + Token) \<times> store" where
  "first_token P s =
    (case stmt s of
       (False, s1) \<Rightarrow> (Inl ErrDB, s1)
     | (True, s1) \<Rightarrow>
         (case find P (tokens (db s1)) of
            None \<Rightarrow> (Inl ErrRecordNotFound, s1)
          | Some t \<Rightarrow> (Inr t, s1)))"

text \<open>A row read from the database is written to the cache afterwards.\<close>

definition cache_token :: "env \<Rightarrow> (error + Token) \<times> store \<Rightarrow> (error + Token) \<times> store" where
  "cache_token env res =
    (case res of
       (Inl e, s1) \<Rightarrow> (Inl e, s1)
     | (Inr t, s1) \<Rightarrow> (Inr t, if shouldUpdateRedis env True True then emit (CacheSetToken t) s1 else s1))"

definition GetTokenByKey :: "env \<Rightarrow> string \<Rightarrow> bool \<Rightarrow> store \<Rightarrow> (error + Token) \<times> store" where
  "GetTokenByKey env key fromDB s =
    (case (if \<not> fromDB \<and> RedisEnabled env then cacheGetTokenByKey env key else None) of
       Some t \<Rightarrow> (Inr t, s)
     | None \<Rightarrow> cache_token env (first_token (\<lambda>t. tok_Key t = key) s))"

definition GetTokenByIds :: "int \<Rightarrow> int \<Rightarrow> store \<Rightarrow> (error + Token) \<times> store" where
  "GetTokenByIds i userId s =
    (if i = 0 \<or> userId = 0 then (Inl ErrEmptyId, s)
     else first_token (\<lambda>t. tok_Id t = i \<and> tok_UserId t = userId) s)"

definition GetTokenById :: "env \<Rightarrow> int \<Rightarrow> store \<Rightarrow> (error + Token) \<times> store" where
  "GetTokenById env i s =
    (if i = 0 then (Inl ErrEmptyId, s) else cache_token env (first_token (\<lambda>t. tok_Id t = i) s))"

section \<open>Writes\<close>

definition set_tokens :: "(Token list \<Rightarrow> Token list) \<Rightarrow> store \<Rightarrow> store" where
  "set_tokens f s = s\<lparr>db := (db s)\<lparr>tokens := f (tokens (db s))\<rparr>\<rparr>"

text \<open>
  \<open>Insert\<close>: the key column has a unique index, so a row with the key of another one is refused.
\<close>

definition Token_Insert :: "Token \<Rightarrow> store \<Rightarrow> error option \<times> store" where
  "Token_Insert token s =
    (case stmt s of
       (False, s1) \<Rightarrow> (Some ErrDB, s1)
     | (True, s1) \<Rightarrow>
         if \<exists>t \<in> set (tokens (db s1)). tok_Key t = tok_Key token then (Some ErrDB, s1)
         else case fresh_id s1 of
                (i, s2) \<Rightarrow> (None, set_tokens (\<lambda>ts. ts @ [token\<lparr>tok_Id := i\<rparr>]) s2))"

text \<open>A selective update of the columns \<open>f\<close> writes, and the cache write after it.\<close>

definition write_token :: "env \<Rightarrow> Token \<Rightarrow> (Token \<Rightarrow> Token) \<Rightarrow> store \<Rightarrow> error option \<times> store" where
  "write_token env token f s =
    (case stmt s of
       (False, s1) \<Rightarrow> (Some ErrDB, s1)
     | (True, s1) \<Rightarrow>
         (let s2 = set_tokens (upd_row tok_Id (tok_Id token) f) s1
          in (None, if shouldUpdateRedis env True True then emit (CacheSetToken token) s2 else s2)))"

definition Token_Update :: "env \<Rightarrow> Token \<Rightarrow> store \<Rightarrow> error option \<times> store" where
  "Token_Update env token s =
    write_token env token (\<lambda>t. t\<lparr>tok_Name := tok_Name token, tok_Status := tok_Status token,
       tok_ExpiredTime := tok_ExpiredTime token, tok_RemainQuota := tok_RemainQuota token,
       tok_UnlimitedQuota := tok_UnlimitedQuota token, tok_ModelLimitsEnabled := tok_ModelLimitsEnabled token,
       tok_ModelLimits := tok_ModelLimits token, tok_AllowIps := tok_AllowIps token,
       tok_Group := tok_Group token, tok_CrossGroupRetry := tok_CrossGroupRetry token\<rparr>) s"

definition SelectUpdate :: "env \<Rightarrow> Token \<Rightarrow> store \<Rightarrow> error option \<times> store" where
  "SelectUpdate env token s =
    write_token env token
      (\<lambda>t. t\<lparr>tok_AccessedTime := tok_AccessedTime token, tok_Status := tok_Status token\<rparr>) s"

definition Token_Delete :: "env \<Rightarrow> Token \<Rightarrow> store \<Rightarrow> error option \<times> store" where
  "Token_Delete env token s =
    (case stmt s of
       (False, s1) \<Rightarrow> (Some ErrDB, s1)
     | (True, s1) \<Rightarrow>
         (let s2 = set_tokens (filter (\<lambda>t. tok_Id t \<noteq> tok_Id token)) s1
          in (None, if shouldUpdateRedis env True True then emit (CacheDeleteToken (tok_Key token)) s2 else s2)))"

definition DisableModelLimits :: "env \<Rightarrow> int \<Rightarrow> store \<Rightarrow> error option \<times> store" where
  "DisableModelLimits env tokenId s =
    (case GetTokenById env tokenId s of
       (Inl e, s1) \<Rightarrow> (Some e, s1)
     | (Inr token, s1) \<Rightarrow>
         Token_Update env (token\<lparr>tok_ModelLimitsEnabled := False, tok_ModelLimits := ''''\<rparr>) s1)"

definition DeleteTokenById :: "env \<Rightarrow> int \<Rightarrow> int \<Rightarrow> store \<Rightarrow> error option \<times> store" where
  "DeleteTokenById env i userId s =
    (if i = 0 \<or> userId = 0 then (Some ErrEmptyId, s)
     else case first_token (\<lambda>t. tok_Id t = i \<and> tok_UserId t = userId) s of
       (Inl e, s1) \<Rightarrow> (Some e, s1)
     | (Inr token, s1) \<Rightarrow> Token_Delete env token s1)"

definition CountUserTokens :: "int \<Rightarrow> store \<Rightarrow> (error + int) \<times> store" where
  "CountUserTokens userId s =
    (case stmt s of
       (False, s1) \<Rightarrow> (Inl ErrDB, s1)
     | (True, s1) \<Rightarrow> (Inr (int (length (filter (\<lambda>t. tok_UserId t = userId) (tokens (db s1))))), s1))"

definition owned :: "int \<Rightarrow> int list \<Rightarrow> Token \<Rightarrow> bool" where
  "owned userId ids t \<longleftrightarrow> tok_UserId t = userId \<and> tok_Id t \<in> set ids"

definition emit_all :: "effect list \<Rightarrow> store \<Rightarrow> store" where
  "emit_all es s = s\<lparr>effects := effects s @ es\<rparr>"

definition BatchDeleteTokens :: "env \<Rightarrow> int list \<Rightarrow> int \<Rightarrow> store \<Rightarrow> (error + int) \<times> store" where
  "BatchDeleteTokens env ids userId s =
    (if ids = [] then (Inl ErrIdsEmpty, s)
     else case transaction (\<lambda>s0.
        (case stmt s0 of
           (False, s1) \<Rightarrow> (Inl ErrDB, s1)
         | (True, s1) \<Rightarrow>
             (let found = filter (owned userId ids) (tokens (db s1))
              in case stmt s1 of
                   (False, s2) \<Rightarrow> (Inl ErrDB, s2)
                 | (True, s2) \<Rightarrow>
                     (Inr found, set_tokens (filter (\<lambda>t. \<not> owned userId ids t)) s2)))) s of
       (Inl e, s1) \<Rightarrow> (Inl e, s1)
     | (Inr found, s1) \<Rightarrow>
         (Inr (int (length found)),
          if RedisEnabled env then emit_all (map (\<lambda>t. CacheDeleteToken (tok_Key t)) found) s1 else s1))"

definition GetTokenKeysByIds :: "int list \<Rightarrow> int \<Rightarrow> store \<Rightarrow> (error + (int \<times> string) list) \<times> store" where
  "GetTokenKeysByIds ids userId s =
    (case stmt s of
       (False, s1) \<Rightarrow> (Inl ErrDB, s1)
     | (True, s1) \<Rightarrow>
         (Inr (map (\<lambda>t. (tok_Id t, tok_Key t)) (filter (owned userId ids) (tokens (db s1)))), s1))"

text \<open>Pages of a query, newest first.  A negative limit or offset of the driver means none.\<close>

definition newest_first :: "Token list \<Rightarrow> Token list" where
  "newest_first ts = sort_by (\<lambda>a b. tok_Id b < tok_Id a) ts"

definition page :: "int \<Rightarrow> int \<Rightarrow> 'a list \<Rightarrow> 'a list" where
  "page offset limit xs =
    (let rest = drop (nat offset) xs in if limit < 0 then rest else take (nat limit) rest)"

definition GetAllUserTokens :: "int \<Rightarrow> int \<Rightarrow> int \<Rightarrow> store \<Rightarrow> (error + Token list) \<times> store" where
  "GetAllUserTokens userId startIdx num s =
    (case stmt s of
       (False, s1) \<Rightarrow> (Inl ErrDB, s1)
     | (True, s1) \<Rightarrow>
         (Inr (page startIdx num (newest_first (filter (\<lambda>t. tok_UserId t = userId) (tokens (db s1))))), s1))"

definition searchHardLimit :: int where
  "searchHardLimit = 100"

text \<open>
  The two filters of the search; an empty text filters nothing.  The count is a query
  with a \<open>LIMIT\<close>, which bounds the number of rows of its result, a single row: only a limit of
  0 changes what it returns.
\<close>

definition like_filter :: "(string \<Rightarrow> string \<Rightarrow> bool) \<Rightarrow> (Token \<Rightarrow> string) \<Rightarrow> string \<Rightarrow> error + (Token \<Rightarrow> bool)" where
  "like_filter like column text =
    (if text = '''' then Inr (\<lambda>_. True)
     else case sanitizeLikePattern text of
       Inl e \<Rightarrow> Inl e
     | Inr pat \<Rightarrow> Inr (\<lambda>t. like (column t) pat))"

definition run_search ::
    "env \<Rightarrow> (Token \<Rightarrow> bool) \<Rightarrow> int \<Rightarrow> int \<Rightarrow> store \<Rightarrow> (error + Token list \<times> int) \<times> store" where
  "run_search env P offset limit s =
    (case stmt s of
       (False, s1) \<Rightarrow> (Inl ErrSearchTokens, s1)
     | (True, s1) \<Rightarrow>
         (let total = (if GetMaxUserTokens env = 0 then 0 else int (length (filter P (tokens (db s1)))))
          in case stmt s1 of
               (False, s2) \<Rightarrow> (Inl ErrSearchTokens, s2)
             | (True, s2) \<Rightarrow> (Inr (page offset limit (newest_first (filter P (tokens (db s2)))), total), s2)))"

definition fuzzy_guard :: "env \<Rightarrow> int \<Rightarrow> bool \<Rightarrow> store \<Rightarrow> error option \<times> store" where
  "fuzzy_guard env userId hasFuzzy s =
    (if \<not> hasFuzzy then (None, s)
     else case CountUserTokens userId s of
       (Inl _, s1) \<Rightarrow> (Some ErrCountTokens, s1)
     | (Inr n, s1) \<Rightarrow> (if GetMaxUserTokens env < n then Some ErrExactSearchOnly else None, s1))"

definition SearchUserTokens ::
    "(string \<Rightarrow> string \<Rightarrow> bool) \<Rightarrow> env \<Rightarrow> int \<Rightarrow> string \<Rightarrow> string \<Rightarrow> int \<Rightarrow> int \<Rightarrow> store \<Rightarrow>
      (error + Token list \<times> int) \<times> store" where
  "SearchUserTokens like env userId keyword token offset limit s =
    (let limit' = (if limit \<le> 0 \<or> searchHardLimit < limit then searchHardLimit else limit);
         offset' = (if offset < 0 then 0 else offset);
         token' = (if token \<noteq> '''' then TrimPrefix token ''sk-'' else token)
     in case fuzzy_guard env userId (Contains keyword ''%'' \<or> Contains token' ''%'') s of
          (Some e, s1) \<Rightarrow> (Inl e, s1)
        | (None, s1) \<Rightarrow>
            (case like_filter like tok_Name keyword of
               Inl e \<Rightarrow> (Inl e, s1)
             | Inr P \<Rightarrow>
                 (case like_filter like tok_Key token' of
                    Inl e \<Rightarrow> (Inl e, s1)
                  | Inr Q \<Rightarrow>
                      run_search env (\<lambda>t. tok_UserId t = userId \<and> P t \<and> Q t) offset' limit' s1)))"

section \<open>Validation\<close>

text \<open>The result may carry both a token and an error, as the Go function does.\<close>

definition reject :: "env \<Rightarrow> Token \<Rightarrow> int \<Rightarrow> store \<Rightarrow> (Token option \<times> error option) \<times> store" where
  "reject env token status s =
    (if RedisEnabled env then ((Some token, Some ErrTokenInvalid), s)
     else
       let token' = token\<lparr>tok_Status := status\<rparr>
       in ((Some token', Some ErrTokenInvalid), snd (SelectUpdate env token' s)))"

definition ValidateUserToken :: "env \<Rightarrow> string \<Rightarrow> store \<Rightarrow> (Token option \<times> error option) \<times> store" where
  "ValidateUserToken env key s =
    (if key = '''' then ((None, Some ErrTokenNotProvided), s)
     else case GetTokenByKey env key False s of
       (Inr token, s1) \<Rightarrow>
         if tok_Status token = 4 \<or> tok_Status token = 3 \<or> tok_Status token \<noteq> 1
           then ((Some token, Some ErrTokenInvalid), s1)
         else if tok_ExpiredTime token \<noteq> -1 \<and> tok_ExpiredTime token < GetTimestamp env
           then reject env token 3 s1
         else if \<not> tok_UnlimitedQuota token \<and> tok_RemainQuota token \<le> 0
           then reject env token 4 s1
         else ((Some token, None), s1)
     | (Inl e, s1) \<Rightarrow> ((None, Some (if e = ErrRecordNotFound then ErrTokenInvalid else ErrDatabase)), s1))"

section \<open>Statements of the token table\<close>

lemma first_token_eq:
  "first_token P s =
    ((if \<not> fst (stmt s) then Inl ErrDB
      else case find P (tokens (db s)) of None \<Rightarrow> Inl ErrRecordNotFound | Some t \<Rightarrow> Inr t), snd (stmt s))"
  by (simp add: first_token_def case_stmt split: option.splits)

lemma set_tokens_sel [simp]:
  "db (set_tokens f s) = (db s)\<lparr>tokens := f (tokens (db s))\<rparr>" "faults (set_tokens f s) = faults s"
  "batchUpdateStores (set_tokens f s) = batchUpdateStores s" "effects (set_tokens f s) = effects s"
  by (simp_all add: set_tokens_def)

lemma emit_all_sel [simp]:
  "db (emit_all es s) = db s" "batchUpdateStores (emit_all es s) = batchUpdateStores s"
  by (simp_all add: emit_all_def)

lemma write_token_eq:
  "fst (write_token env token f s) = (if fst (stmt s) then None else Some ErrDB)"
  "db (snd (write_token env token f s)) =
    (if fst (stmt s) then (db s)\<lparr>tokens := upd_row tok_Id (tok_Id token) f (tokens (db s))\<rparr> else db s)"
  by (simp_all add: write_token_def case_stmt Let_def)

lemma Token_Delete_eq:
  "fst (Token_Delete env token s) = (if fst (stmt s) then None else Some ErrDB)"
  "db (snd (Token_Delete env token s)) =
    (if fst (stmt s) then (db s)\<lparr>tokens := filter (\<lambda>t. tok_Id t \<noteq> tok_Id token) (tokens (db s))\<rparr> else db s)"
  by (simp_all add: Token_Delete_def case_stmt Let_def)

lemma cache_token_db [simp]: "db (snd (cache_token env res)) = db (snd res)" "fst (cache_token env res) = fst res"
  by (auto simp: cache_token_def split: prod.splits sum.splits)

lemma find_SomeD: "find P xs = Some x \<Longrightarrow> x \<in> set xs \<and> P x"
  by (induction xs) (auto split: if_splits)

section \<open>Validation\<close>

text \<open>A token a request may use at the time of the clock.\<close>

definition usable :: "env \<Rightarrow> Token \<Rightarrow> bool" where
  "usable env t \<longleftrightarrow> tok_Status t = 1 \<and> (tok_ExpiredTime t = -1 \<or> GetTimestamp env \<le> tok_ExpiredTime t)
     \<and> (tok_UnlimitedQuota t \<or> 0 < tok_RemainQuota t)"

definition rejected_status :: "env \<Rightarrow> Token \<Rightarrow> int" where
  "rejected_status env t =
    (if tok_Status t \<noteq> 1 then tok_Status t
     else if tok_ExpiredTime t \<noteq> -1 \<and> tok_ExpiredTime t < GetTimestamp env then 3 else 4)"

lemma upd_row_unique:
  assumes "distinct (map key rs)" "r \<in> set rs"
  shows "upd_row key (key r) f rs = map (\<lambda>x. if key x = key r then f r else x) rs"
  using assms unfolding upd_row_def by (auto dest: eq_key_imp_eq_value simp: distinct_map inj_on_def)

lemma find_map_same:
  "(\<And>x. x \<in> set xs \<Longrightarrow> P (g x) = P x) \<Longrightarrow> find P (map g xs) = map_option g (find P xs)"
  by (induction xs) auto

lemma GetTokenByKey_row:
  assumes "\<not> RedisEnabled env" "faults s = []" "find (\<lambda>t. tok_Key t = key) (tokens (db s)) = Some t"
  shows "GetTokenByKey env key fromDB s = (Inr t, s)"
  using assms by (simp add: GetTokenByKey_def cache_token_def first_token_eq shouldUpdateRedis_def)

lemma reject_row:
  assumes "\<not> RedisEnabled env" "faults s = []" "distinct (map tok_Id (tokens (db s)))" "t \<in> set (tokens (db s))"
  shows "reject env t c s = ((Some (t\<lparr>tok_Status := c\<rparr>), Some ErrTokenInvalid),
    set_tokens (map (\<lambda>x. if tok_Id x = tok_Id t then t\<lparr>tok_Status := c\<rparr> else x)) s)"
  using assms upd_row_unique [OF assms(3,4)]
  by (simp add: reject_def SelectUpdate_def write_token_def shouldUpdateRedis_def Let_def set_tokens_def)

lemma ValidateUserToken_row:
  assumes "\<not> RedisEnabled env" "faults s = []" "distinct (map tok_Id (tokens (db s)))"
    and "key \<noteq> []" "find (\<lambda>t. tok_Key t = key) (tokens (db s)) = Some t"
  shows "usable env t \<Longrightarrow> ValidateUserToken env key s = ((Some t, None), s)"
    and "\<not> usable env t \<Longrightarrow> snd (fst (ValidateUserToken env key s)) = Some ErrTokenInvalid
      \<and> snd (ValidateUserToken env key s)
          = set_tokens (map (\<lambda>x. if tok_Id x = tok_Id t then t\<lparr>tok_Status := rejected_status env t\<rparr> else x)) s"
proof -
  have t: "t \<in> set (tokens (db s))" using find_SomeD [OF assms(5)] by simp
  show "usable env t \<Longrightarrow> ValidateUserToken env key s = ((Some t, None), s)"
    using assms by (auto simp: ValidateUserToken_def GetTokenByKey_row usable_def)
  have "map (\<lambda>x. if tok_Id x = tok_Id t then t else x) (tokens (db s)) = tokens (db s)"
    using upd_row_unique [OF assms(3) t, of "\<lambda>x. x"] by (simp add: upd_row_def)
  then have "set_tokens (map (\<lambda>x. if tok_Id x = tok_Id t then t else x)) s = s"
    by (simp add: set_tokens_def)
  moreover have "t\<lparr>tok_Status := rejected_status env t\<rparr> = t" if "tok_Status t \<noteq> 1"
    using that by (simp add: rejected_status_def)
  ultimately show "\<not> usable env t \<Longrightarrow> snd (fst (ValidateUserToken env key s)) = Some ErrTokenInvalid
      \<and> snd (ValidateUserToken env key s)
          = set_tokens (map (\<lambda>x. if tok_Id x = tok_Id t then t\<lparr>tok_Status := rejected_status env t\<rparr> else x)) s"
    using assms(4)
    by (cases "tok_Status t = 1")
      (simp_all add: ValidateUserToken_def GetTokenByKey_row [OF assms(1,2,5)] usable_def rejected_status_def
        reject_row [OF assms(1-3) t] cong: if_cong, linarith?)
qed

definition demo_expiry :: "int \<Rightarrow> store" where
  "demo_expiry e = demo_store\<lparr>db := (db demo_store)\<lparr>tokens := [(demo_token 7 1 500)\<lparr>tok_Key := ''k1'', tok_ExpiredTime := e\<rparr>]\<rparr>\<rparr>"



section \<open>Search\<close>

text \<open>
  SQL's \<open>LIKE\<close> with \<open>ESCAPE '!'\<close>: a percent sign stands for any text, an underscore for any
  character, the escape character makes the next one literal.  The user's view of a search
  text is \<open>glob\<close>: only the percent sign is special.
\<close>

fun like_escape :: "string \<Rightarrow> string \<Rightarrow> bool" where
  "like_escape s [] \<longleftrightarrow> s = []"
| "like_escape s (p # ps) \<longleftrightarrow>
    (if p = CHR ''%'' then list_ex (\<lambda>k. like_escape (drop k s) ps) [0..<Suc (length s)]
     else if p = CHR ''!'' then (case ps of [] \<Rightarrow> False | q # qs \<Rightarrow> s \<noteq> [] \<and> hd s = q \<and> like_escape (tl s) qs)
     else s \<noteq> [] \<and> (p = CHR ''_'' \<or> hd s = p) \<and> like_escape (tl s) ps)"

fun glob :: "string \<Rightarrow> string \<Rightarrow> bool" where
  "glob s [] \<longleftrightarrow> s = []"
| "glob s (p # ps) \<longleftrightarrow>
    (if p = CHR ''%'' then list_ex (\<lambda>k. glob (drop k s) ps) [0..<Suc (length s)]
     else s \<noteq> [] \<and> hd s = p \<and> glob (tl s) ps)"

declare like_escape.simps(2) [simp del]

lemma like_escape_escaped:
  "like_escape s (ReplaceByte (ReplaceByte input (CHR ''!'') ''!!'') (CHR ''_'') ''!_'') = glob s input"
proof (induction input arbitrary: s)
  case (Cons c cs)
  then show ?case
    by (cases "c = CHR ''!''"; cases "c = CHR ''_''"; cases "c = CHR ''%''") (simp_all add: like_escape.simps(2))
qed simp

lemma glob_literal: "CHR ''%'' \<notin> set input \<Longrightarrow> glob s input \<longleftrightarrow> s = input"
proof (induction input arbitrary: s)
  case (Cons c cs)
  then show ?case by (cases s) auto
qed simp

text \<open>
  A search text accepted by \<open>sanitizeLikePattern\<close> becomes a \<open>LIKE\<close> pattern that matches
  exactly what the text describes with the percent sign as its only wildcard: an underscore or
  an exclamation mark in it matches only itself, and a text with no percent sign matches
  nothing but itself.
\<close>

theorem sanitized_pattern_matches:
  assumes "sanitizeLikePattern input = Inr pat"
  shows "(like_escape s pat \<longleftrightarrow> glob s input) \<and> (CHR ''%'' \<notin> set input \<longrightarrow> (like_escape s pat \<longleftrightarrow> s = input))"
proof -
  have "pat = ReplaceByte (ReplaceByte input (CHR ''!'') ''!!'') (CHR ''_'') ''!_''"
    using assms by (simp add: sanitizeLikePattern_def Let_def split: option.splits)
  then show ?thesis by (simp add: like_escape_escaped glob_literal)
qed

lemma sanitized_pattern_matches_witness:
  "sanitizeLikePattern ''a_b%'' = Inr ''a!_b%'' \<and> like_escape ''a_bc'' ''a!_b%'' \<and> \<not> like_escape ''axb'' ''a!_b%''"
proof -
  have p: "sanitizeLikePattern ''a_b%'' = Inr ''a!_b%''" by code_simp
  have "glob ''a_bc'' ''a_b%''" "\<not> glob ''axb'' ''a_b%''" by code_simp+
  then show ?thesis
    using p sanitized_pattern_matches [OF p, of "''a_bc''"] sanitized_pattern_matches [OF p, of "''axb''"] by simp
qed

lemma set_page: "set (page offset limit xs) \<subseteq> set xs"
  unfolding page_def Let_def by (auto dest!: in_set_takeD in_set_dropD)

lemma length_page: "0 \<le> limit \<Longrightarrow> int (length (page offset limit xs)) \<le> limit"
  by (simp add: page_def Let_def)

lemma CountUserTokens_db [simp]: "db (snd (CountUserTokens userId s)) = db s"
  by (simp add: CountUserTokens_def case_stmt)

lemma fuzzy_guard_eq:
  "fst (fuzzy_guard env userId hasFuzzy s) =
    (if \<not> hasFuzzy then None
     else if \<not> fst (stmt s) then Some ErrCountTokens
     else if GetMaxUserTokens env < int (length (filter (\<lambda>t. tok_UserId t = userId) (tokens (db s))))
       then Some ErrExactSearchOnly else None)"
  "db (snd (fuzzy_guard env userId hasFuzzy s)) = db s"
  by (simp_all add: fuzzy_guard_def CountUserTokens_def case_stmt)

lemma like_filter_err:
  "like_filter like column text = Inl e \<Longrightarrow> e \<in> {ErrLikeConsecutive, ErrLikeTooMany, ErrLikeTooShort}"
  by (auto simp: like_filter_def sanitizeLikePattern_def validateLikePattern_def Let_def split: if_splits)

lemma run_search_db: "run_search env P offset limit s = (res, s') \<Longrightarrow> db s' = db s"
  by (auto simp: run_search_def case_stmt Let_def split: if_splits)

lemma run_search_err: "run_search env P offset limit s = (Inl e, s') \<Longrightarrow> e = ErrSearchTokens"
  by (auto simp: run_search_def case_stmt Let_def split: if_splits)

lemma run_search_ok:
  assumes "run_search env P offset limit s = (Inr (found, n), s')" "0 \<le> limit"
  shows "db s' = db s \<and> set found \<subseteq> Set.filter P (set (tokens (db s))) \<and> int (length found) \<le> limit"
  using assms set_page [of offset limit "newest_first (filter P (tokens (db s)))"]
    length_page [of limit offset "newest_first (filter P (tokens (db s)))"]
  by (auto simp: run_search_def case_stmt Let_def newest_first_def split: if_splits)

text \<open>
  A token search returns only tokens of the user who searches, at most a hundred of
  them, whatever limit the caller gives and whatever the database's \<open>LIKE\<close> matches; a fuzzy search by a
  user with more tokens than the limit is refused; no search changes a table.
\<close>

theorem search_scoped:
  assumes "SearchUserTokens like env userId keyword token offset limit s = (res, s')"
  shows "db s' = db s \<and>
    (case res of
       Inr (found, n) \<Rightarrow>
         set found \<subseteq> Set.filter (\<lambda>t. tok_UserId t = userId) (set (tokens (db s))) \<and> length found \<le> 100 \<and>
         (CHR ''%'' \<in> set keyword \<longrightarrow>
           int (length (filter (\<lambda>t. tok_UserId t = userId) (tokens (db s)))) \<le> GetMaxUserTokens env)
     | Inl e \<Rightarrow> e \<in> {ErrCountTokens, ErrExactSearchOnly, ErrSearchTokens, ErrLikeConsecutive, ErrLikeTooMany,
                     ErrLikeTooShort})"
proof -
  define token' where "token' = (if token \<noteq> '''' then TrimPrefix token ''sk-'' else token)"
  define fuzzy where "fuzzy = (Contains keyword ''%'' \<or> Contains token' ''%'')"
  define s1 where "s1 = snd (fuzzy_guard env userId fuzzy s)"
  have d: "db s1 = db s" by (simp add: s1_def fuzzy_guard_eq)
  define lim where "lim = (if limit \<le> 0 \<or> searchHardLimit < limit then searchHardLimit else limit)"
  have lim: "0 \<le> lim" "lim \<le> 100" by (auto simp: lim_def searchHardLimit_def)
  note run = assms [unfolded SearchUserTokens_def Let_def, folded token'_def, folded fuzzy_def, folded lim_def]
  show ?thesis
  proof (cases "fst (fuzzy_guard env userId fuzzy s)")
    case (Some e)
    then have "fuzzy_guard env userId fuzzy s = (Some e, s1)" by (simp add: s1_def prod_eq_iff)
    then have "res = Inl e" "s' = s1" using run by auto
    then show ?thesis using d Some by (auto simp: fuzzy_guard_eq split: if_splits)
  next
    case None
    then have fg: "fuzzy_guard env userId fuzzy s = (None, s1)" by (simp add: s1_def prod_eq_iff)
    have few: "CHR ''%'' \<in> set keyword \<longrightarrow>
        int (length (filter (\<lambda>t. tok_UserId t = userId) (tokens (db s)))) \<le> GetMaxUserTokens env"
      using None by (auto simp: fuzzy_guard_eq fuzzy_def split: if_splits)
    consider (err) e where "res = Inl e" "s' = s1" "e \<in> {ErrLikeConsecutive, ErrLikeTooMany, ErrLikeTooShort}"
      | (ok) P Q off where "run_search env (\<lambda>t. tok_UserId t = userId \<and> P t \<and> Q t) off lim s1 = (res, s')"
      using run like_filter_err [of like tok_Name keyword] like_filter_err [of like tok_Key token']
      unfolding fg by (cases "like_filter like tok_Name keyword"; cases "like_filter like tok_Key token'") auto
    then show ?thesis
    proof cases
      case err
      then show ?thesis using d by auto
    next
      case ok
      show ?thesis
      proof (cases res)
        case (Inl e)
        then show ?thesis using ok d run_search_db [OF ok] run_search_err by auto
      next
        case (Inr r)
        then show ?thesis
          using ok d few lim run_search_ok [of env "\<lambda>t. tok_UserId t = userId \<and> P t \<and> Q t" off lim s1 "fst r" "snd r" s']
          by (cases r) auto
      qed
    qed
  qed
qed

lemma search_scoped_witness:
  "let r = SearchUserTokens like_escape (demo_env False) 1 ''n%o'' ''sk-k1'' (-3) 500 (demo_expiry 5)
   in fst r = Inr ([], 0) \<and> db (snd r) = db (demo_expiry 5)"
proof -
  have p: "sanitizeLikePattern ''n%o'' = Inr ''n%o''" "sanitizeLikePattern ''k1'' = Inr ''k1''"
    "TrimPrefix ''sk-k1'' ''sk-'' = ''k1''" "like_escape ''n'' ''n%o'' = False" "like_escape ''k1'' ''k1'' = True"
    "Contains ''n%o'' ''%'' = True"
    by code_simp+
  obtain s' where r: "SearchUserTokens like_escape (demo_env False) 1 ''n%o'' ''sk-k1'' (-3) 500 (demo_expiry 5)
      = (Inr ([], 0), s')"
    by (simp add: SearchUserTokens_def like_filter_def p run_search_def fuzzy_guard_def CountUserTokens_def
        demo_expiry_def demo_defs page_def newest_first_def)
  show ?thesis using search_scoped [OF r] r by (simp add: Let_def)
qed

section \<open>Deletion\<close>

lemma BatchDeleteTokens_ok:
  assumes "BatchDeleteTokens env ids userId s = (Inr n, s')"
  shows "db s' = (db s)\<lparr>tokens := filter (\<lambda>t. \<not> owned userId ids t) (tokens (db s))\<rparr>
    \<and> n = int (length (filter (owned userId ids) (tokens (db s))))"
proof -
  define s1 where "s1 = snd (stmt s)"
  define s2 where "s2 = snd (stmt s1)"
  have "db s1 = db s" "db s2 = db s" by (simp_all add: s1_def s2_def)
  then show ?thesis
    using assms
    by (cases "fst (stmt s)"; cases "fst (stmt s1)"; cases "fst (stmt s2)")
      (auto simp: BatchDeleteTokens_def transaction_eq tx_end_eq case_stmt Let_def
        simp flip: s1_def s2_def split: if_splits)
qed

lemma BatchDeleteTokens_err:
  assumes "BatchDeleteTokens env ids userId s = (Inl e, s')"
  shows "db s' = db s"
  using assms
  by (auto simp: BatchDeleteTokens_def split: if_splits prod.splits sum.splits dest: transaction_errD)

text \<open>
  C34. Deleting a batch of tokens is all or nothing and touches no other user's token: a
  failure changes no table; on success exactly the listed tokens of the user are gone, their
  number is returned, and the key of each is refused from then on (keys being unique, without Redis).
\<close>

theorem batch_delete_isolated:
  assumes "BatchDeleteTokens env ids userId s = (res, s')" "distinct (map tok_Key (tokens (db s)))"
    and "\<not> RedisEnabled env" "faults s' = []"
  shows "case res of
      Inl e \<Rightarrow> db s' = db s
    | Inr n \<Rightarrow> tokens (db s') = filter (\<lambda>t. \<not> owned userId ids t) (tokens (db s))
        \<and> n = int (length (tokens (db s))) - int (length (tokens (db s')))
        \<and> (\<forall>t \<in> set (tokens (db s)). owned userId ids t \<and> tok_Key t \<noteq> '''' \<longrightarrow>
             fst (ValidateUserToken env (tok_Key t) s') = (None, Some ErrTokenInvalid))"
proof (cases res)
  case (Inl e)
  then show ?thesis using assms(1) by (auto dest: BatchDeleteTokens_err)
next
  case (Inr n)
  then have d: "tokens (db s') = filter (\<lambda>t. \<not> owned userId ids t) (tokens (db s))"
    and n: "n = int (length (filter (owned userId ids) (tokens (db s))))"
    using BatchDeleteTokens_ok [of env ids userId s n s'] assms(1) by simp_all
  have "find (\<lambda>x. tok_Key x = tok_Key t) (tokens (db s')) = None"
    if "t \<in> set (tokens (db s))" "owned userId ids t" for t
    using that assms(2) by (auto simp: d find_None_iff distinct_map inj_on_def)
  then show ?thesis
    using Inr d n sum_length_filter_compl [of "owned userId ids" "tokens (db s)"] assms(3,4)
    by (auto simp: ValidateUserToken_def GetTokenByKey_def first_token_eq cache_token_def)
qed

lemma batch_delete_isolated_witness:
  "let r = BatchDeleteTokens (demo_env False) [7, 8] 1 (demo_expiry 5)
   in fst r = Inr 1 \<and> fst (ValidateUserToken (demo_env False) ''k1'' (snd r)) = (None, Some ErrTokenInvalid)"
proof -
  obtain s' where r: "BatchDeleteTokens (demo_env False) [7, 8] 1 (demo_expiry 5) = (Inr 1, s')" "faults s' = []"
    by (simp add: BatchDeleteTokens_def transaction_eq tx_end_eq demo_expiry_def demo_defs owned_def set_tokens_def)
  have "\<not> RedisEnabled (demo_env False)" "tokens (db (demo_expiry 5)) = [(demo_token 7 1 500)\<lparr>tok_Key := ''k1'', tok_ExpiredTime := 5\<rparr>]"
    by (simp_all add: demo_expiry_def demo_defs)
  then show ?thesis
    using batch_delete_isolated [OF r(1) _ _ r(2)] r(1)
    by (simp add: demo_token_def owned_def Let_def)
qed

section \<open>The token table\<close>

text \<open>Identifiers and keys are unique and every identifier has been given out.\<close>

definition token_table_ok :: "store \<Rightarrow> bool" where
  "token_table_ok s \<longleftrightarrow> distinct (map tok_Id (tokens (db s))) \<and> distinct (map tok_Key (tokens (db s)))
     \<and> (\<forall>i \<in> set (map tok_Id (tokens (db s))). i < next_id (db s))"

lemma token_table_ok_db: "db s' = db s \<Longrightarrow> token_table_ok s \<Longrightarrow> token_table_ok s'"
  by (simp add: token_table_ok_def)

lemma token_table_ok_upd:
  assumes "token_table_ok s" "\<And>t. tok_Id (f t) = tok_Id t" "\<And>t. tok_Key (f t) = tok_Key t"
    and "db s' = (db s)\<lparr>tokens := upd_row tok_Id i f (tokens (db s))\<rparr>"
  shows "token_table_ok s'"
proof -
  have "map tok_Id (upd_row tok_Id i f ts) = map tok_Id ts" "map tok_Key (upd_row tok_Id i f ts) = map tok_Key ts" for ts
    using assms(2,3) by (simp_all add: upd_row_def)
  then show ?thesis
    using assms(1,4) unfolding token_table_ok_def by (simp del: set_map map_eq_conv)
qed

lemma token_table_ok_filter:
  "token_table_ok s \<Longrightarrow> db s' = (db s)\<lparr>tokens := filter P (tokens (db s))\<rparr> \<Longrightarrow> token_table_ok s'"
  by (auto simp: token_table_ok_def distinct_map_filter)

lemma write_token_ok:
  assumes "token_table_ok s" "\<And>t. tok_Id (f t) = tok_Id t" "\<And>t. tok_Key (f t) = tok_Key t"
  shows "token_table_ok (snd (write_token env token f s))"
proof (cases "fst (stmt s)")
  case True
  then show ?thesis using assms by (auto simp: write_token_eq intro!: token_table_ok_upd [of s f])
next
  case False
  then show ?thesis using assms(1) by (auto simp: write_token_eq intro: token_table_ok_db)
qed

lemma update_token_ok:
  assumes "token_table_ok s" "\<And>t. tok_Id (f t) = tok_Id t" "\<And>t. tok_Key (f t) = tok_Key t"
  shows "token_table_ok (snd (update_token i f s))"
proof (cases "fst (update_token i f s)")
  case None
  then show ?thesis
    using assms by (auto simp: update_token_eq split: if_splits intro!: token_table_ok_upd [of s f])
next
  case (Some e)
  then show ?thesis
    using assms(1) by (auto simp: update_token_eq split: if_splits intro: token_table_ok_db)
qed

lemma Token_Insert_ok:
  assumes "token_table_ok s"
  shows "token_table_ok (snd (Token_Insert token s))"
  using assms
  by (auto simp: Token_Insert_def case_stmt fresh_id_def token_table_ok_def)

text \<open>What requests and administrators do to the token table, one call at a time.\<close>

inductive token_step :: "env \<Rightarrow> store \<Rightarrow> store \<Rightarrow> bool" for env where
  "token_step env s (snd (Token_Insert token s))"
| "token_step env s (snd (Token_Update env token s))"
| "token_step env s (snd (DisableModelLimits env i s))"
| "token_step env s (snd (DeleteTokenById env i userId s))"
| "token_step env s (snd (BatchDeleteTokens env ids userId s))"
| "token_step env s (snd (ValidateUserToken env key s))"
| "token_step env s (snd (IncreaseTokenQuota env i key quota s))"
| "token_step env s (snd (DecreaseTokenQuota env i key quota s))"

inductive_cases token_stepE: "token_step env s s'"

lemma first_token_db [simp]: "db (snd (first_token P s)) = db s"
  by (simp add: first_token_eq)

lemma GetTokenByKey_db [simp]: "db (snd (GetTokenByKey env key fromDB s)) = db s"
  by (simp add: GetTokenByKey_def split: option.splits)

lemma GetTokenById_db [simp]: "db (snd (GetTokenById env i s)) = db s"
  by (simp add: GetTokenById_def)

lemma lookup_ok:
  assumes "token_table_ok s"
  shows "first_token P s = (r, s1) \<Longrightarrow> token_table_ok s1"
    and "GetTokenByKey env key fromDB s = (r, s1) \<Longrightarrow> token_table_ok s1"
    and "GetTokenById env i s = (r, s1) \<Longrightarrow> token_table_ok s1"
  using assms first_token_db [of P s] GetTokenByKey_db [of env key fromDB s] GetTokenById_db [of env i s]
  by (auto intro: token_table_ok_db)

lemma Token_Update_ok: "token_table_ok s \<Longrightarrow> token_table_ok (snd (Token_Update env token s))"
  unfolding Token_Update_def by (rule write_token_ok) simp_all

lemma DisableModelLimits_ok: "token_table_ok s \<Longrightarrow> token_table_ok (snd (DisableModelLimits env i s))"
  by (auto simp: DisableModelLimits_def split: prod.splits sum.splits intro!: Token_Update_ok dest: lookup_ok)

lemma Token_Delete_ok: "token_table_ok s \<Longrightarrow> token_table_ok (snd (Token_Delete env token s))"
  by (cases "fst (stmt s)") (auto simp: Token_Delete_eq intro: token_table_ok_filter token_table_ok_db)

lemma DeleteTokenById_ok: "token_table_ok s \<Longrightarrow> token_table_ok (snd (DeleteTokenById env i userId s))"
  by (auto simp: DeleteTokenById_def split: prod.splits sum.splits intro!: Token_Delete_ok dest: lookup_ok)

lemma BatchDeleteTokens_keeps: "token_table_ok s \<Longrightarrow> token_table_ok (snd (BatchDeleteTokens env ids userId s))"
  by (cases "BatchDeleteTokens env ids userId s"; cases "fst (BatchDeleteTokens env ids userId s)")
    (auto dest!: BatchDeleteTokens_ok BatchDeleteTokens_err intro: token_table_ok_filter token_table_ok_db)

lemma reject_ok: "token_table_ok s \<Longrightarrow> token_table_ok (snd (reject env token c s))"
  by (auto simp: reject_def SelectUpdate_def Let_def intro!: write_token_ok)

lemma ValidateUserToken_ok: "token_table_ok s \<Longrightarrow> token_table_ok (snd (ValidateUserToken env key s))"
  by (auto simp: ValidateUserToken_def split: prod.splits sum.splits intro!: reject_ok dest: lookup_ok)

lemma token_quota_ok:
  assumes "token_table_ok s"
  shows "token_table_ok (snd (IncreaseTokenQuota env i key quota s))"
    and "token_table_ok (snd (DecreaseTokenQuota env i key quota s))"
proof -
  have a: "token_table_ok (addNewRecord t j v s)" for t j v
    using assms by (auto simp: addNewRecord_def intro: token_table_ok_db)
  have "token_table_ok (snd (increaseTokenQuota env i quota s))" "token_table_ok (snd (decreaseTokenQuota env i quota s))"
    unfolding increaseTokenQuota_def decreaseTokenQuota_def using assms by (auto intro!: update_token_ok)
  moreover have "token_table_ok (emit e x)" if "token_table_ok x" for e x
    using that by (auto intro: token_table_ok_db)
  ultimately show "token_table_ok (snd (IncreaseTokenQuota env i key quota s))"
    and "token_table_ok (snd (DecreaseTokenQuota env i key quota s))"
    using assms a by (auto simp: IncreaseTokenQuota_def DecreaseTokenQuota_def split: prod.splits option.splits)
qed

lemmas token_ops_ok = Token_Insert_ok Token_Update_ok DisableModelLimits_ok DeleteTokenById_ok
  BatchDeleteTokens_keeps ValidateUserToken_ok token_quota_ok



end
