(* ===== verification/Subscription.thy ===== *)
theory Subscription
  imports Ledger
begin

text \<open>
  Subscriptions (src/model/subscription.go): plan durations and quota resets over the
  civil calendar, creation from a plan, pre-consumption with its idempotency
  record, refund, post-consume delta, periodic reset, expiry with group
  downgrade, and the administrative operations.

  The loop that advances a subscription to its current reset window need not end: a
  custom period whose nanoseconds overflow int64 can be shorter than a second.  It is a
  partial function, and an operation that runs it returns an option, where \<open>None\<close>
  is a call that never returns.
\<close>

section \<open>Durations and resets\<close>

definition Hour_ns :: int where
  "Hour_ns = 3600 * Second_ns"

definition calcPlanEndTime :: "location \<Rightarrow> int \<Rightarrow> SubscriptionPlan \<Rightarrow> error + int" where
  "calcPlanEndTime loc start plan =
    (if plan_DurationValue plan \<le> 0 \<and> plan_DurationUnit plan \<noteq> ''custom'' then Inl ErrDurationValue
     else if plan_DurationUnit plan = ''year'' then Inr (AddDate loc start (plan_DurationValue plan) 0 0)
     else if plan_DurationUnit plan = ''month'' then Inr (AddDate loc start 0 (plan_DurationValue plan) 0)
     else if plan_DurationUnit plan = ''day'' then
       Inr (Add_Unix start (duration_mul (int64 (plan_DurationValue plan * 24)) Hour_ns))
     else if plan_DurationUnit plan = ''hour'' then
       Inr (Add_Unix start (duration_mul (plan_DurationValue plan) Hour_ns))
     else if plan_DurationUnit plan = ''custom'' then
       (if plan_CustomSeconds plan \<le> 0 then Inl ErrCustomSeconds
        else Inr (Add_Unix start (duration_mul (plan_CustomSeconds plan) Second_ns)))
     else Inl (ErrInvalidDurationUnit (plan_DurationUnit plan)))"

definition NormalizeResetPeriod :: "string \<Rightarrow> string" where
  "NormalizeResetPeriod period =
    (if TrimSpace period \<in> {''daily'', ''weekly'', ''monthly'', ''custom''} then TrimSpace period
     else ''never'')"

text \<open>Midnight of the day of \<open>base\<close>, and of the first day of its month.\<close>

definition midnight :: "location \<Rightarrow> int \<Rightarrow> int" where
  "midnight loc base = (case time_civil loc base of (y, m, d) \<Rightarrow> time_Date loc y m d 0)"

definition month_first :: "location \<Rightarrow> int \<Rightarrow> int" where
  "month_first loc base = (case time_civil loc base of (y, m, d) \<Rightarrow> time_Date loc y m 1 0)"

definition days_until_monday :: "location \<Rightarrow> int \<Rightarrow> int" where
  "days_until_monday loc base =
    (let weekday = Weekday loc base in 8 - (if weekday = 0 then 7 else weekday))"

definition calcNextResetTime :: "location \<Rightarrow> int \<Rightarrow> SubscriptionPlan \<Rightarrow> int \<Rightarrow> int" where
  "calcNextResetTime loc base plan endUnix =
    (let period = NormalizeResetPeriod (plan_QuotaResetPeriod plan);
         clip = (\<lambda>next. if 0 < endUnix \<and> endUnix < next then 0 else next)
     in if period = ''never'' then 0
        else if period = ''daily'' then clip (AddDate loc (midnight loc base) 0 0 1)
        else if period = ''weekly'' then
          clip (AddDate loc (midnight loc base) 0 0 (days_until_monday loc base))
        else if period = ''monthly'' then clip (AddDate loc (month_first loc base) 0 1 0)
        else if plan_QuotaResetCustomSeconds plan \<le> 0 then 0
        else clip (Add_Unix base (duration_mul (plan_QuotaResetCustomSeconds plan) Second_ns)))"

partial_function (option) reset_loop ::
    "location \<Rightarrow> SubscriptionPlan \<Rightarrow> int \<Rightarrow> int \<Rightarrow> int \<Rightarrow> int \<Rightarrow> bool \<Rightarrow> (int \<times> int \<times> bool) option" where
  "reset_loop loc plan endUnix now base next advanced =
    (if 0 < next \<and> next \<le> now then
       reset_loop loc plan endUnix now next (calcNextResetTime loc next plan endUnix) True
     else Some (base, next, advanced))"

section \<open>Plans and groups\<close>

definition NormalizeDefaults :: "SubscriptionPlan \<Rightarrow> SubscriptionPlan" where
  "NormalizeDefaults p = p\<lparr>
     plan_AllowBalancePay := (case plan_AllowBalancePay p of None \<Rightarrow> Some True | Some b \<Rightarrow> Some b),
     plan_AllowWalletOverflow := (case plan_AllowWalletOverflow p of None \<Rightarrow> Some True | Some b \<Rightarrow> Some b)\<rparr>"

definition getSubscriptionPlanByIdTx :: "env \<Rightarrow> int \<Rightarrow> store \<Rightarrow> (error + SubscriptionPlan) \<times> store" where
  "getSubscriptionPlanByIdTx env i s =
    (if i \<le> 0 then (Inl ErrInvalidPlanId, s)
     else case plan_cache env i of
       Some cached \<Rightarrow> (Inr (NormalizeDefaults cached), s)
     | None \<Rightarrow>
        (case stmt s of
           (True, s1) \<Rightarrow>
             (case row plan_Id (plans (db s1)) i of
                None \<Rightarrow> (Inl ErrRecordNotFound, s1)
              | Some plan \<Rightarrow>
                  (Inr (NormalizeDefaults plan), emit (CacheSetPlan i (NormalizeDefaults plan)) s1))
         | (False, s1) \<Rightarrow> (Inl ErrDB, s1)))"

definition getUserGroupByIdTx :: "int \<Rightarrow> store \<Rightarrow> (error + string) \<times> store" where
  "getUserGroupByIdTx userId s =
    (if userId \<le> 0 then (Inl ErrInvalidUserId, s)
     else case stmt s of
       (True, s1) \<Rightarrow>
         (Inr (case row user_Id (users (db s1)) userId of None \<Rightarrow> '''' | Some u \<Rightarrow> user_Group u), s1)
     | (False, s1) \<Rightarrow> (Inl ErrDB, s1))"

definition set_user_group :: "int \<Rightarrow> string \<Rightarrow> store \<Rightarrow> error option \<times> store" where
  "set_user_group userId g s =
    (case stmt s of
       (True, s1) \<Rightarrow> (None, set_users (upd_row user_Id userId (\<lambda>u. u\<lparr>user_Group := g\<rparr>)) s1)
     | (False, s1) \<Rightarrow> (Some ErrDB, s1))"

text \<open>
  The group to fall back to: the explicit downgrade group, else the group before the
  purchase, and that only while the user still is in the upgraded group.
\<close>

definition downgrade_target :: "UserSubscription \<Rightarrow> string \<Rightarrow> string" where
  "downgrade_target sub currentGroup =
    (let downgradeGroup = TrimSpace (sub_DowngradeGroup sub);
         target = (if downgradeGroup \<noteq> '''' then downgradeGroup
                   else if currentGroup \<noteq> TrimSpace (sub_UpgradeGroup sub) then ''''
                   else TrimSpace (sub_PrevUserGroup sub))
     in if target = currentGroup then '''' else target)"

definition downgradeUserGroupForSubscriptionTx ::
    "UserSubscription \<Rightarrow> int \<Rightarrow> store \<Rightarrow> (error + string) \<times> store" where
  "downgradeUserGroupForSubscriptionTx sub now s =
    (if TrimSpace (sub_DowngradeGroup sub) = '''' \<and> TrimSpace (sub_UpgradeGroup sub) = '''' then (Inr '''', s)
     else case getUserGroupByIdTx (sub_UserId sub) s of
       (Inl e, s1) \<Rightarrow> (Inl e, s1)
     | (Inr currentGroup, s1) \<Rightarrow>
        (case stmt s1 of
           (ok, s2) \<Rightarrow>
             if ok \<and> (\<exists>x \<in> set (subs (db s2)). sub_UserId x = sub_UserId sub \<and> sub_Status x = ''active''
                  \<and> now < sub_EndTime x \<and> sub_Id x \<noteq> sub_Id sub \<and> sub_UpgradeGroup x \<noteq> '''')
             then (Inr '''', s2)
             else
               let target = downgrade_target sub currentGroup
               in if target = '''' then (Inr '''', s2)
                  else case set_user_group (sub_UserId sub) target s2 of
                         (Some e, s3) \<Rightarrow> (Inl e, s3)
                       | (None, s3) \<Rightarrow> (Inr target, s3)))"

section \<open>Creation\<close>

definition insert_sub :: "UserSubscription \<Rightarrow> store \<Rightarrow> (error + UserSubscription) \<times> store" where
  "insert_sub sub s =
    (case stmt s of
       (True, s1) \<Rightarrow>
         (case fresh_id s1 of
            (i, s2) \<Rightarrow> (Inr (sub\<lparr>sub_Id := i\<rparr>), set_subs (\<lambda>xs. xs @ [sub\<lparr>sub_Id := i\<rparr>]) s2))
     | (False, s1) \<Rightarrow> (Inl ErrDB, s1))"

definition count_purchases :: "int \<Rightarrow> int \<Rightarrow> store \<Rightarrow> int" where
  "count_purchases userId planId s =
    int (length (filter (\<lambda>x. sub_UserId x = userId \<and> sub_PlanId x = planId) (subs (db s))))"

definition CountUserSubscriptionsByPlan :: "int \<Rightarrow> int \<Rightarrow> store \<Rightarrow> (error + int) \<times> store" where
  "CountUserSubscriptionsByPlan userId planId s =
    (if userId \<le> 0 \<or> planId \<le> 0 then (Inl ErrInvalidUserOrPlanId, s)
     else case stmt s of
       (True, s1) \<Rightarrow> (Inr (count_purchases userId planId s1), s1)
     | (False, s1) \<Rightarrow> (Inl ErrDB, s1))"

text \<open>The upgrade of the buyer's group; it returns the group held before.\<close>

definition upgrade_buyer :: "int \<Rightarrow> string \<Rightarrow> store \<Rightarrow> (error + string) \<times> store" where
  "upgrade_buyer userId upgradeGroup s =
    (if upgradeGroup = '''' then (Inr '''', s)
     else case getUserGroupByIdTx userId s of
       (Inl e, s1) \<Rightarrow> (Inl e, s1)
     | (Inr currentGroup, s1) \<Rightarrow>
         if currentGroup = upgradeGroup then (Inr '''', s1)
         else case set_user_group userId upgradeGroup s1 of
                (Some e, s2) \<Rightarrow> (Inl e, s2)
              | (None, s2) \<Rightarrow> (Inr currentGroup, s2))"

text \<open>The purchase limit, from the count of the user's subscriptions of the plan.\<close>

definition check_purchase_limit :: "int \<Rightarrow> SubscriptionPlan \<Rightarrow> store \<Rightarrow> error option \<times> store" where
  "check_purchase_limit userId plan s =
    (if plan_MaxPurchasePerUser plan \<le> 0 then (None, s)
     else case stmt s of
       (True, s1) \<Rightarrow>
         (if plan_MaxPurchasePerUser plan \<le> count_purchases userId (plan_Id plan) s1 then (Some ErrPurchaseLimit, s1)
          else (None, s1))
     | (False, s1) \<Rightarrow> (Some ErrDB, s1))"

definition CreateUserSubscriptionFromPlanTx ::
    "env \<Rightarrow> int \<Rightarrow> SubscriptionPlan \<Rightarrow> string \<Rightarrow> store \<Rightarrow> (error + UserSubscription) \<times> store" where
  "CreateUserSubscriptionFromPlanTx env userId plan source s =
    (if plan_Id plan = 0 then (Inl ErrInvalidPlan, s)
     else if userId \<le> 0 then (Inl ErrInvalidUserId, s)
     else case check_purchase_limit userId plan s of
       (Some e, s1) \<Rightarrow> (Inl e, s1)
     | (None, s1) \<Rightarrow>
        (case GetDBTimestamp env s1 of
           (nowUnix, s2) \<Rightarrow>
             (case calcPlanEndTime (Local env) nowUnix plan of
                Inl e \<Rightarrow> (Inl e, s2)
              | Inr endUnix \<Rightarrow>
                  let nextReset = calcNextResetTime (Local env) nowUnix plan endUnix;
                      lastReset = (if 0 < nextReset then nowUnix else 0);
                      upgradeGroup = TrimSpace (plan_UpgradeGroup plan)
                  in case upgrade_buyer userId upgradeGroup s2 of
                       (Inl e, s3) \<Rightarrow> (Inl e, s3)
                     | (Inr prevGroup, s3) \<Rightarrow>
                         insert_sub \<lparr>sub_Id = 0, sub_UserId = userId, sub_PlanId = plan_Id plan,
                           sub_AmountTotal = plan_TotalAmount plan, sub_AmountUsed = 0,
                           sub_StartTime = nowUnix, sub_EndTime = endUnix, sub_Status = ''active'',
                           sub_Source = source, sub_LastResetTime = lastReset, sub_NextResetTime = nextReset,
                           sub_UpgradeGroup = upgradeGroup, sub_PrevUserGroup = prevGroup,
                           sub_DowngradeGroup = TrimSpace (plan_DowngradeGroup plan),
                           sub_AllowWalletOverflow =
                             (case plan_AllowWalletOverflow plan of None \<Rightarrow> True | Some b \<Rightarrow> b),
                           sub_CreatedAt = GetTimestamp env, sub_UpdatedAt = GetTimestamp env\<rparr> s3)))"

section \<open>Queries\<close>

definition active_for :: "int \<Rightarrow> int \<Rightarrow> UserSubscription \<Rightarrow> bool" where
  "active_for userId now x \<longleftrightarrow> sub_UserId x = userId \<and> sub_Status x = ''active'' \<and> now < sub_EndTime x"

text \<open>\<open>ORDER BY end_time ASC, id ASC\<close> and its reverse.\<close>

definition end_before :: "UserSubscription \<Rightarrow> UserSubscription \<Rightarrow> bool" where
  "end_before x y \<longleftrightarrow> sub_EndTime x < sub_EndTime y \<or> sub_EndTime x = sub_EndTime y \<and> sub_Id x < sub_Id y"

definition GetAllActiveUserSubscriptions :: "env \<Rightarrow> int \<Rightarrow> store \<Rightarrow> (error + UserSubscription list) \<times> store" where
  "GetAllActiveUserSubscriptions env userId s =
    (if userId \<le> 0 then (Inl ErrInvalidUserId, s)
     else case stmt s of
       (True, s1) \<Rightarrow>
         (Inr (sort_by (\<lambda>x y. end_before y x) (filter (active_for userId (GetTimestamp env)) (subs (db s1)))), s1)
     | (False, s1) \<Rightarrow> (Inl ErrDB, s1))"

definition HasActiveUserSubscription :: "env \<Rightarrow> int \<Rightarrow> store \<Rightarrow> (error + bool) \<times> store" where
  "HasActiveUserSubscription env userId s =
    (if userId \<le> 0 then (Inl ErrInvalidUserId, s)
     else case stmt s of
       (True, s1) \<Rightarrow> (Inr (list_ex (active_for userId (GetTimestamp env)) (subs (db s1))), s1)
     | (False, s1) \<Rightarrow> (Inl ErrDB, s1))"

definition UserActiveSubscriptionsAllowWalletOverflow :: "env \<Rightarrow> int \<Rightarrow> store \<Rightarrow> (error + bool) \<times> store" where
  "UserActiveSubscriptionsAllowWalletOverflow env userId s =
    (if userId \<le> 0 then (Inl ErrInvalidUserId, s)
     else case stmt s of
       (True, s1) \<Rightarrow>
         (Inr (filter (\<lambda>x. active_for userId (GetTimestamp env) x \<and> \<not> sub_AllowWalletOverflow x) (subs (db s1)) = []), s1)
     | (False, s1) \<Rightarrow> (Inl ErrDB, s1))"

section \<open>Reset on use\<close>

text \<open>\<open>tx.Save(sub)\<close> with its \<open>BeforeUpdate\<close> hook.\<close>

definition save_sub :: "env \<Rightarrow> UserSubscription \<Rightarrow> store \<Rightarrow> error option \<times> store" where
  "save_sub env sub s =
    (case stmt s of
       (True, s1) \<Rightarrow> (None, set_subs (save_row sub_Id (sub\<lparr>sub_UpdatedAt := GetTimestamp env\<rparr>)) s1)
     | (False, s1) \<Rightarrow> (Some ErrDB, s1))"

text \<open>The subscription is passed by pointer: the result carries its new value.\<close>

definition maybeResetUserSubscriptionWithPlanTx ::
    "env \<Rightarrow> UserSubscription \<Rightarrow> SubscriptionPlan \<Rightarrow> int \<Rightarrow> store
      \<Rightarrow> (error option \<times> UserSubscription \<times> store) option" where
  "maybeResetUserSubscriptionWithPlanTx env sub plan now s =
    (if 0 < sub_NextResetTime sub \<and> now < sub_NextResetTime sub then Some (None, sub, s)
     else if NormalizeResetPeriod (plan_QuotaResetPeriod plan) = ''never'' then Some (None, sub, s)
     else
       let baseUnix = (if sub_LastResetTime sub \<le> 0 then sub_StartTime sub else sub_LastResetTime sub)
       in case reset_loop (Local env) plan (sub_EndTime sub) now baseUnix
                 (calcNextResetTime (Local env) baseUnix plan (sub_EndTime sub)) False of
            None \<Rightarrow> None
          | Some (base, next, False) \<Rightarrow>
              (if sub_NextResetTime sub = 0 \<and> 0 < next then
                 let sub' = sub\<lparr>sub_NextResetTime := next, sub_LastResetTime := base\<rparr>
                 in Some (case save_sub env sub' s of (err, s1) \<Rightarrow> (err, sub', s1))
               else Some (None, sub, s))
          | Some (base, next, True) \<Rightarrow>
              let sub' = sub\<lparr>sub_AmountUsed := 0, sub_LastResetTime := base, sub_NextResetTime := next\<rparr>
              in Some (case save_sub env sub' s of (err, s1) \<Rightarrow> (err, sub', s1)))"

section \<open>Pre-consumption\<close>

record SubscriptionPreConsumeResult =
  res_UserSubscriptionId :: int
  res_PreConsumed :: int
  res_AmountTotal :: int
  res_AmountUsedBefore :: int
  res_AmountUsedAfter :: int

definition result_of :: "UserSubscription \<Rightarrow> int \<Rightarrow> int \<Rightarrow> int \<Rightarrow> SubscriptionPreConsumeResult" where
  "result_of sub pre before after = \<lparr>res_UserSubscriptionId = sub_Id sub, res_PreConsumed = pre,
     res_AmountTotal = sub_AmountTotal sub, res_AmountUsedBefore = before, res_AmountUsedAfter = after\<rparr>"

text \<open>
  Insert the idempotency record; the request id has a unique index, so the statement also
  fails when it is there already.
\<close>

definition create_preRecord :: "env \<Rightarrow> SubscriptionPreConsumeRecord \<Rightarrow> store \<Rightarrow> bool \<times> store" where
  "create_preRecord env r s =
    (case stmt s of
       (True, s1) \<Rightarrow>
         (if row pre_RequestId (preRecords (db s1)) (pre_RequestId r) \<noteq> None then (False, s1)
          else case fresh_id s1 of
            (i, s2) \<Rightarrow> (True, set_preRecords (\<lambda>rs. rs @ [r\<lparr>pre_Id := i, pre_CreatedAt := GetTimestamp env,
                               pre_UpdatedAt := GetTimestamp env\<rparr>]) s2))
     | (False, s1) \<Rightarrow> (False, s1))"

text \<open>The record could not be inserted: another request may have done it.\<close>

definition duplicate_result ::
    "string \<Rightarrow> UserSubscription \<Rightarrow> store \<Rightarrow> (error + SubscriptionPreConsumeResult) \<times> store" where
  "duplicate_result requestId sub s =
    (case stmt s of
       (True, s1) \<Rightarrow>
         (case row pre_RequestId (preRecords (db s1)) requestId of
            None \<Rightarrow> (Inl ErrDB, s1)
          | Some dup \<Rightarrow>
              if pre_Status dup = ''refunded'' then (Inl ErrSubscriptionAlreadyRefunded, s1)
              else (Inr (result_of sub (pre_PreConsumed dup) (sub_AmountUsed sub) (sub_AmountUsed sub)), s1))
     | (False, s1) \<Rightarrow> (Inl ErrDB, s1))"

definition consume_from ::
    "env \<Rightarrow> string \<Rightarrow> int \<Rightarrow> int \<Rightarrow> UserSubscription \<Rightarrow> store
      \<Rightarrow> (error + SubscriptionPreConsumeResult) \<times> store" where
  "consume_from env requestId userId amount sub s =
    (case create_preRecord env \<lparr>pre_Id = 0, pre_RequestId = requestId, pre_UserId = userId,
            pre_UserSubscriptionId = sub_Id sub, pre_PreConsumed = amount, pre_Status = ''consumed'',
            pre_CreatedAt = 0, pre_UpdatedAt = 0\<rparr> s of
       (False, s1) \<Rightarrow> duplicate_result requestId sub s1
     | (True, s1) \<Rightarrow>
         let sub' = sub\<lparr>sub_AmountUsed := sub_AmountUsed sub + amount\<rparr>
         in case save_sub env sub' s1 of
              (Some e, s2) \<Rightarrow> (Inl e, s2)
            | (None, s2) \<Rightarrow> (Inr (result_of sub amount (sub_AmountUsed sub) (sub_AmountUsed sub')), s2))"

fun preConsume_candidates ::
    "env \<Rightarrow> string \<Rightarrow> int \<Rightarrow> int \<Rightarrow> int \<Rightarrow> UserSubscription list \<Rightarrow> store
      \<Rightarrow> ((error + SubscriptionPreConsumeResult) \<times> store) option" where
  "preConsume_candidates env requestId userId amount now [] s =
    Some (Inl (ErrSubscriptionQuotaInsufficient amount), s)"
| "preConsume_candidates env requestId userId amount now (candidate # rest) s =
    (case getSubscriptionPlanByIdTx env (sub_PlanId candidate) s of
       (Inl e, s1) \<Rightarrow> Some (Inl e, s1)
     | (Inr plan, s1) \<Rightarrow>
        (case maybeResetUserSubscriptionWithPlanTx env candidate plan now s1 of
           None \<Rightarrow> None
         | Some (Some e, sub, s2) \<Rightarrow> Some (Inl e, s2)
         | Some (None, sub, s2) \<Rightarrow>
             if 0 < sub_AmountTotal sub \<and> sub_AmountTotal sub - sub_AmountUsed sub < amount
             then preConsume_candidates env requestId userId amount now rest s2
             else Some (consume_from env requestId userId amount sub s2)))"

definition preConsume_body ::
    "env \<Rightarrow> string \<Rightarrow> int \<Rightarrow> int \<Rightarrow> int \<Rightarrow> store \<Rightarrow> ((error + SubscriptionPreConsumeResult) \<times> store) option" where
  "preConsume_body env requestId userId amount now s =
    (case stmt s of
       (False, s1) \<Rightarrow> Some (Inl ErrDB, s1)
     | (True, s1) \<Rightarrow>
        (case row pre_RequestId (preRecords (db s1)) requestId of
           Some existing \<Rightarrow>
             (if pre_Status existing = ''refunded'' then Some (Inl ErrSubscriptionAlreadyRefunded, s1)
              else case stmt s1 of
                (False, s2) \<Rightarrow> Some (Inl ErrDB, s2)
              | (True, s2) \<Rightarrow>
                 (case row sub_Id (subs (db s2)) (pre_UserSubscriptionId existing) of
                    None \<Rightarrow> Some (Inl ErrRecordNotFound, s2)
                  | Some sub \<Rightarrow>
                      Some (Inr (result_of sub (pre_PreConsumed existing) (sub_AmountUsed sub) (sub_AmountUsed sub)), s2)))
         | None \<Rightarrow>
             (case stmt s1 of
                (False, s2) \<Rightarrow> Some (Inl ErrNoActiveSubscription, s2)
              | (True, s2) \<Rightarrow>
                  let candidates = sort_by end_before (filter (active_for userId now) (subs (db s2)))
                  in if candidates = [] then Some (Inl ErrNoActiveSubscription, s2)
                     else preConsume_candidates env requestId userId amount now candidates s2)))"

definition PreConsumeUserSubscription ::
    "env \<Rightarrow> string \<Rightarrow> int \<Rightarrow> int \<Rightarrow> store \<Rightarrow> ((error + SubscriptionPreConsumeResult) \<times> store) option" where
  "PreConsumeUserSubscription env requestId userId amount s =
    (if userId \<le> 0 then Some (Inl ErrInvalidUserId, s)
     else if TrimSpace requestId = '''' then Some (Inl ErrRequestIdEmpty, s)
     else if amount \<le> 0 then Some (Inl ErrAmountNotPositive, s)
     else case GetDBTimestamp env s of
       (now, s1) \<Rightarrow> transaction_opt (preConsume_body env requestId userId amount now) s1)"

section \<open>Post-consume and refund\<close>

text \<open>The body of the delta transaction.\<close>

definition delta_body :: "env \<Rightarrow> int \<Rightarrow> int \<Rightarrow> store \<Rightarrow> (error + unit) \<times> store" where
  "delta_body env i delta s0 =
    (case stmt s0 of
       (False, s1) \<Rightarrow> (Inl ErrDB, s1)
     | (True, s1) \<Rightarrow>
        (case row sub_Id (subs (db s1)) i of
           None \<Rightarrow> (Inl ErrRecordNotFound, s1)
         | Some sub \<Rightarrow>
             let newUsed = max 0 (sub_AmountUsed sub + delta)
             in if 0 < sub_AmountTotal sub \<and> sub_AmountTotal sub < newUsed
                then (Inl (ErrSubscriptionUsedExceedsTotal newUsed (sub_AmountTotal sub)), s1)
                else case save_sub env (sub\<lparr>sub_AmountUsed := newUsed\<rparr>) s1 of
                       (Some e, s2) \<Rightarrow> (Inl e, s2)
                     | (None, s2) \<Rightarrow> (Inr (), s2)))"

definition PostConsumeUserSubscriptionDelta :: "env \<Rightarrow> int \<Rightarrow> int \<Rightarrow> store \<Rightarrow> error option \<times> store" where
  "PostConsumeUserSubscriptionDelta env userSubscriptionId delta s =
    (if userSubscriptionId \<le> 0 then (Some ErrInvalidSubscriptionId, s)
     else if delta = 0 then (None, s)
     else case transaction (delta_body env userSubscriptionId delta) s of
       (Inl e, s1) \<Rightarrow> (Some e, s1)
     | (Inr _, s1) \<Rightarrow> (None, s1))"

text \<open>
  \<open>RefundSubscriptionPreConsume\<close> opens a transaction for the record, but the delta is
  applied by \<open>PostConsumeUserSubscriptionDelta\<close> in a transaction of its own on another
  connection: that one is committed before the record is saved, and an error afterwards
  rolls back the record only.
\<close>

definition save_refunded :: "env \<Rightarrow> SubscriptionPreConsumeRecord \<Rightarrow> store \<Rightarrow> error option \<times> store" where
  "save_refunded env record s =
    (case stmt s of
       (False, s1) \<Rightarrow> (Some ErrDB, s1)
     | (True, s1) \<Rightarrow>
        (case stmt s1 of
           (False, s2) \<Rightarrow> (Some ErrDB, s2)
         | (True, s2) \<Rightarrow>
             (None, set_preRecords (save_row pre_RequestId
                (record\<lparr>pre_Status := ''refunded'', pre_UpdatedAt := GetTimestamp env\<rparr>)) s2)))"

definition RefundSubscriptionPreConsume :: "env \<Rightarrow> string \<Rightarrow> store \<Rightarrow> error option \<times> store" where
  "RefundSubscriptionPreConsume env requestId s =
    (if TrimSpace requestId = '''' then (Some ErrRequestIdEmpty, s)
     else case stmt s of
       (False, s0) \<Rightarrow> (Some ErrDB, s0)
     | (True, s0) \<Rightarrow>
        (case stmt s0 of
           (False, s1) \<Rightarrow> (Some ErrDB, s1)
         | (True, s1) \<Rightarrow>
            (case row pre_RequestId (preRecords (db s1)) requestId of
               None \<Rightarrow> (Some ErrRecordNotFound, s1)
             | Some record \<Rightarrow>
                 if pre_Status record = ''refunded'' then
                   (case stmt s1 of (True, s2) \<Rightarrow> (None, s2) | (False, s2) \<Rightarrow> (Some ErrDB, s2))
                 else if pre_PreConsumed record \<le> 0 then save_refunded env record s1
                 else case PostConsumeUserSubscriptionDelta env (pre_UserSubscriptionId record)
                             (- pre_PreConsumed record) s1 of
                        (Some e, s2) \<Rightarrow> (Some e, s2)
                      | (None, s2) \<Rightarrow> save_refunded env record s2)))"

section \<open>Reset times\<close>

lemma time_Date_fixed:
  assumes "1 \<le> m" "m \<le> 12"
  shows "time_Date (fixed_zone off) y m d clock = days_of_civil y m d * 86400 + clock - off"
proof -
  have "(m - 1) div 12 = 0" "(m - 1) mod 12 = m - 1" using assms by auto
  then show ?thesis by (simp add: time_Date_def fixed_zone_def Let_def)
qed

lemma time_Date_fixed_next_month:
  assumes "1 \<le> m" "m \<le> 12"
  shows "time_Date (fixed_zone off) y (m + 1) d clock =
    days_of_civil (y + m div 12) (m mod 12 + 1) d * 86400 + clock - off"
  using assms by (simp add: time_Date_def fixed_zone_def Let_def)

lemma local_fixed [simp]: "local_seconds (fixed_zone off) t = t + off"
  by (simp add: local_seconds_def fixed_zone_def)

lemma midnight_fixed: "midnight (fixed_zone off) t = (t + off) div 86400 * 86400 - off"
proof -
  obtain y m d where c: "civil_of_days ((t + off) div 86400) = (y, m, d)" by (metis prod_cases3)
  show ?thesis
    using days_of_civil_of_days [OF c] by (simp add: midnight_def time_civil_def c time_Date_fixed)
qed

lemma AddDate_midnight_fixed:
  assumes "(t + off) mod 86400 = 0"
  shows "AddDate (fixed_zone off) t 0 0 k = t + k * 86400"
proof -
  obtain y m d where c: "civil_of_days ((t + off) div 86400) = (y, m, d)" by (metis prod_cases3)
  have "(t + off) div 86400 * 86400 = t + off" using assms by (metis add.right_neutral div_mult_mod_eq)
  then show ?thesis
    using days_of_civil_of_days [OF c] assms
    by (simp add: AddDate_def time_civil_def c time_Date_fixed days_of_civil_add distrib_right)
qed

lemma month_first_fixed:
  assumes c: "civil_of_days ((t + off) div 86400) = (y, m, d)"
  shows "month_first (fixed_zone off) t = days_of_civil y m 1 * 86400 - off"
  using days_of_civil_of_days [OF c] by (simp add: month_first_def time_civil_def c time_Date_fixed)

lemma monthly_fixed_after: "t < AddDate (fixed_zone off) (month_first (fixed_zone off) t) 0 1 0"
proof -
  obtain y m d where c: "civil_of_days ((t + off) div 86400) = (y, m, d)" by (metis prod_cases3)
  note m = days_of_civil_of_days [OF c]
  have "AddDate (fixed_zone off) (month_first (fixed_zone off) t) 0 1 0
      = days_of_civil (y + m div 12) (m mod 12 + 1) 1 * 86400 - off"
    using m by (simp add: AddDate_def time_civil_def month_first_fixed [OF c] civil_of_first
        time_Date_fixed_next_month)
  moreover have "t + off < ((t + off) div 86400 + 1) * 86400"
    using div_bounds(2) [of 86400 "t + off"] by (simp add: algebra_simps)
  moreover have "(t + off) div 86400 + 1 \<le> days_of_civil (y + m div 12) (m mod 12 + 1) 1"
    using next_month_after [OF c] by simp
  ultimately show ?thesis by linarith
qed

lemma daily_fixed_after:
  assumes "1 \<le> k"
  shows "t < AddDate (fixed_zone off) (midnight (fixed_zone off) t) 0 0 k"
proof -
  have "AddDate (fixed_zone off) (midnight (fixed_zone off) t) 0 0 k = (t + off) div 86400 * 86400 - off + k * 86400"
    unfolding midnight_fixed by (rule AddDate_midnight_fixed) simp
  then show ?thesis using div_bounds(2) [of 86400 "t + off"] assms by simp
qed

lemma days_until_monday_pos: "1 \<le> days_until_monday loc t"
proof -
  have "0 \<le> Weekday loc t" "Weekday loc t < 7" by (simp_all add: Weekday_def)
  then show ?thesis by (simp add: days_until_monday_def Let_def)
qed

text \<open>A custom period of at most 9223372036 seconds fits in an int64 of nanoseconds.\<close>

definition reset_period_fits :: "SubscriptionPlan \<Rightarrow> bool" where
  "reset_period_fits plan \<longleftrightarrow>
    NormalizeResetPeriod (plan_QuotaResetPeriod plan) = ''custom'' \<longrightarrow>
    plan_QuotaResetCustomSeconds plan \<le> 9223372036"

lemma Add_Unix_seconds:
  assumes "0 \<le> k" "k \<le> 9223372036"
  shows "Add_Unix t (duration_mul k Second_ns) = t + k"
proof -
  have "in_int64 (k * Second_ns)" using assms by (simp add: in_int64_def Second_ns_def MinInt64_def MaxInt64_def)
  then show ?thesis by (simp add: Add_Unix_def duration_mul_def Second_ns_def)
qed

lemma NormalizeResetPeriod_cases:
  "NormalizeResetPeriod p \<in> {''daily'', ''weekly'', ''monthly'', ''custom'', ''never''}"
  by (simp add: NormalizeResetPeriod_def)

lemma calcNextResetTime_after:
  assumes "reset_period_fits plan"
  shows "calcNextResetTime (fixed_zone off) base plan endUnix = 0
    \<or> base < calcNextResetTime (fixed_zone off) base plan endUnix"
  using NormalizeResetPeriod_cases [of "plan_QuotaResetPeriod plan"] assms
    daily_fixed_after [of 1 base off] daily_fixed_after [OF days_until_monday_pos, of base off "fixed_zone off" base]
    monthly_fixed_after [of base off] Add_Unix_seconds [of "plan_QuotaResetCustomSeconds plan" base]
  by (auto simp: calcNextResetTime_def Let_def reset_period_fits_def)

section \<open>The reset loop\<close>

lemma reset_loop_ends:
  assumes "reset_period_fits plan" "base \<le> now"
  shows "\<exists>b n a. reset_loop (fixed_zone off) plan endUnix now base nxt adv = Some (b, n, a)
    \<and> b \<le> now \<and> (n \<le> 0 \<or> now < n) \<and> (a \<longleftrightarrow> adv \<or> 0 < nxt \<and> nxt \<le> now)
    \<and> (\<not> (0 < nxt \<and> nxt \<le> now) \<longrightarrow> b = base \<and> n = nxt)"
  using assms(2)
proof (induction "nat (now + 1 - nxt)" arbitrary: base nxt adv rule: less_induct)
  case less
  let ?c = "calcNextResetTime (fixed_zone off) nxt plan endUnix"
  show ?case
  proof (cases "0 < nxt \<and> nxt \<le> now")
    case True
    have "?c = 0 \<or> nxt < ?c" by (rule calcNextResetTime_after [OF assms(1)])
    then show ?thesis
    proof
      assume "?c = 0"
      then show ?thesis using True by (auto simp: reset_loop.simps [of _ _ _ _ base] reset_loop.simps [of _ _ _ _ nxt])
    next
      assume "nxt < ?c"
      then have "nat (now + 1 - ?c) < nat (now + 1 - nxt)" using True by simp
      then obtain b n a where "reset_loop (fixed_zone off) plan endUnix now nxt ?c True = Some (b, n, a)"
        "b \<le> now" "n \<le> 0 \<or> now < n" "a"
        using less.hyps [of ?c nxt True] True by blast
      then show ?thesis using True by (auto simp: reset_loop.simps [of _ _ _ _ base])
    qed
  next
    case False
    then show ?thesis using less.prems by (auto simp: reset_loop.simps)
  qed
qed

lemma reset_loop_stuck:
  assumes "reset_loop loc plan endUnix now base nxt adv = Some y"
  shows "\<not> (calcNextResetTime loc nxt plan endUnix = nxt \<and> 0 < nxt \<and> nxt \<le> now)"
  using assms
proof (rule reset_loop.raw_induct [rotated])
  fix f loc plan endUnix now base nxt adv y
  assume IH: "\<And>loc plan endUnix now base nxt adv y. f loc plan endUnix now base nxt adv = Some y \<Longrightarrow>
      \<not> (calcNextResetTime loc nxt plan endUnix = nxt \<and> 0 < nxt \<and> nxt \<le> now)"
    and eq: "(if 0 < nxt \<and> nxt \<le> now then f loc plan endUnix now nxt (calcNextResetTime loc nxt plan endUnix) True
      else Some (base, nxt, adv)) = Some y"
  show "\<not> (calcNextResetTime loc nxt plan endUnix = nxt \<and> 0 < nxt \<and> nxt \<le> now)"
    using eq IH [of loc plan endUnix now nxt nxt True y] by (auto split: if_splits)
qed

lemma custom_overflow_stands_still:
  assumes "NormalizeResetPeriod (plan_QuotaResetPeriod plan) = ''custom''"
    "plan_QuotaResetCustomSeconds plan = 18446744074" "t \<le> endUnix"
  shows "calcNextResetTime loc t plan endUnix = t"
  using assms by (simp add: calcNextResetTime_def Let_def duration_mul_def int64_def Second_ns_def Add_Unix_def)

section \<open>What the operations leave alone\<close>

definition beside_subs :: "store \<Rightarrow> tables \<times> (BatchUpdateType \<Rightarrow> (int \<times> int) list)" where
  "beside_subs s = ((db s)\<lparr>subs := [], preRecords := [], next_id := 0\<rparr>, batchUpdateStores s)"

lemma beside_subs_simps [simp]:
  "beside_subs (emit e s) = beside_subs s" "beside_subs (snd (stmt s)) = beside_subs s"
  "beside_subs (set_subs f s) = beside_subs s" "beside_subs (set_preRecords g s) = beside_subs s"
  "beside_subs (snd (fresh_id s)) = beside_subs s" "beside_subs (s\<lparr>faults := fs\<rparr>) = beside_subs s"
  by (simp_all add: beside_subs_def set_subs_def set_preRecords_def fresh_id_def)

lemma beside_subs_rollback: "beside_subs s1 = beside_subs s \<Longrightarrow> beside_subs (s1\<lparr>db := db s\<rparr>) = beside_subs s"
  by (simp add: beside_subs_def)

lemma tx_end_beside:
  assumes "beside_subs (snd res) = beside_subs s"
  shows "beside_subs (snd (tx_end (db s) res)) = beside_subs s"
  using assms by (auto simp: tx_end_eq beside_subs_def split: sum.splits)

lemma transaction_beside:
  assumes "\<And>s. beside_subs (snd (body s)) = beside_subs s"
  shows "beside_subs (snd (transaction body s)) = beside_subs s"
  using assms by (simp add: transaction_eq tx_end_beside)

lemma beside_subsD:
  assumes "beside_subs s' = beside_subs s"
  shows "users (db s') = users (db s)" "tokens (db s') = tokens (db s)" "batchUpdateStores s' = batchUpdateStores s"
    "plans (db s') = plans (db s)"
proof -
  have "(db s')\<lparr>subs := [], preRecords := [], next_id := 0\<rparr> = (db s)\<lparr>subs := [], preRecords := [], next_id := 0\<rparr>"
    using assms by (simp add: beside_subs_def)
  note eq = this
  show "users (db s') = users (db s)" using arg_cong [OF eq, of users] by simp
  show "tokens (db s') = tokens (db s)" using arg_cong [OF eq, of tokens] by simp
  show "plans (db s') = plans (db s)" using arg_cong [OF eq, of plans] by simp
  show "batchUpdateStores s' = batchUpdateStores s" using assms by (simp add: beside_subs_def)
qed

lemma getSubscriptionPlanByIdTx_db [simp]: "db (snd (getSubscriptionPlanByIdTx env i s)) = db s"
  "batchUpdateStores (snd (getSubscriptionPlanByIdTx env i s)) = batchUpdateStores s"
  by (simp_all add: getSubscriptionPlanByIdTx_def case_stmt split: option.splits)

lemma save_sub_eq:
  "save_sub env sub s =
    (if fst (stmt s) then
       (None, set_subs (save_row sub_Id (sub\<lparr>sub_UpdatedAt := GetTimestamp env\<rparr>)) (snd (stmt s)))
     else (Some ErrDB, snd (stmt s)))"
  by (simp add: save_sub_def case_stmt)

lemma beside_of_db: "db s' = db s \<Longrightarrow> batchUpdateStores s' = batchUpdateStores s \<Longrightarrow> beside_subs s' = beside_subs s"
  by (simp add: beside_subs_def)

lemma create_preRecord_eq:
  "create_preRecord env r s =
    (if fst (stmt s) \<and> row pre_RequestId (preRecords (db s)) (pre_RequestId r) = None
     then (True, set_preRecords (\<lambda>rs. rs @ [r\<lparr>pre_Id := next_id (db s), pre_CreatedAt := GetTimestamp env,
             pre_UpdatedAt := GetTimestamp env\<rparr>]) (snd (fresh_id (snd (stmt s)))))
     else (False, snd (stmt s)))"
  by (simp add: create_preRecord_def case_stmt fresh_id_def)

lemma duplicate_result_db [simp]:
  "db (snd (duplicate_result requestId sub s)) = db s"
  "batchUpdateStores (snd (duplicate_result requestId sub s)) = batchUpdateStores s"
  by (simp_all add: duplicate_result_def case_stmt split: option.splits)

section \<open>Quota is never oversold\<close>

definition sub_ok :: "UserSubscription \<Rightarrow> bool" where
  "sub_ok x \<longleftrightarrow> 0 \<le> sub_AmountUsed x \<and> (0 < sub_AmountTotal x \<longrightarrow> sub_AmountUsed x \<le> sub_AmountTotal x)"

definition subs_ok :: "store \<Rightarrow> bool" where
  "subs_ok s \<longleftrightarrow> (\<forall>x \<in> set (subs (db s)). sub_ok x)"

lemma subs_ok_same [simp]:
  "subs_ok (emit e s) = subs_ok s" "subs_ok (snd (stmt s)) = subs_ok s"
  "subs_ok (set_preRecords g s) = subs_ok s" "subs_ok (snd (fresh_id s)) = subs_ok s"
  by (simp_all add: subs_ok_def set_preRecords_def fresh_id_def)

lemma subs_ok_db: "db s' = db s \<Longrightarrow> subs_ok s' = subs_ok s"
  by (simp add: subs_ok_def)

lemma subs_ok_save: "subs_ok s \<Longrightarrow> sub_ok sub \<Longrightarrow> subs_ok (snd (save_sub env sub s))"
  using set_save_row [of sub_Id "sub\<lparr>sub_UpdatedAt := GetTimestamp env\<rparr>" "subs (db s)"]
  by (auto simp: save_sub_eq subs_ok_def set_subs_def sub_ok_def)

lemma tx_end_subs_ok: "subs_ok s \<Longrightarrow> subs_ok (snd res) \<Longrightarrow> subs_ok (snd (tx_end (db s) res))"
  by (auto simp: tx_end_eq subs_ok_def split: sum.splits)

lemma transaction_subs_ok:
  assumes "subs_ok s" "\<And>s. subs_ok s \<Longrightarrow> subs_ok (snd (body s))"
  shows "subs_ok (snd (transaction body s))"
  using assms by (simp add: transaction_eq tx_end_subs_ok)

lemma maybeReset_facts:
  assumes "maybeResetUserSubscriptionWithPlanTx env sub plan now s = Some (err, sub', s')"
  shows "beside_subs s' = beside_subs s" "preRecords (db s') = preRecords (db s)"
    "sub_Id sub' = sub_Id sub" "sub_AmountTotal sub' = sub_AmountTotal sub"
    "sub_AmountUsed sub' = sub_AmountUsed sub \<or> sub_AmountUsed sub' = 0"
    "subs_ok s \<Longrightarrow> sub_ok sub \<Longrightarrow> subs_ok s' \<and> sub_ok sub'"
  using assms subs_ok_save [of s _ env]
  by (auto simp: maybeResetUserSubscriptionWithPlanTx_def save_sub_eq Let_def set_subs_def beside_subs_def sub_ok_def
      split: if_splits option.splits bool.splits)

lemma duplicate_result_facts [simp]:
  "beside_subs (snd (duplicate_result requestId sub s)) = beside_subs s"
  "subs_ok (snd (duplicate_result requestId sub s)) = subs_ok s"
  by (simp_all add: beside_subs_def subs_ok_def)

lemma consume_from_facts:
  "beside_subs (snd (consume_from env requestId userId amount sub s)) = beside_subs s"
  "subs_ok s \<Longrightarrow> sub_ok sub \<Longrightarrow> 0 < amount \<Longrightarrow>
    \<not> (0 < sub_AmountTotal sub \<and> sub_AmountTotal sub - sub_AmountUsed sub < amount) \<Longrightarrow>
    subs_ok (snd (consume_from env requestId userId amount sub s))"
proof -
  let ?sub = "sub\<lparr>sub_AmountUsed := sub_AmountUsed sub + amount\<rparr>"
  let ?r = "\<lparr>pre_Id = 0, pre_RequestId = requestId, pre_UserId = userId, pre_UserSubscriptionId = sub_Id sub,
    pre_PreConsumed = amount, pre_Status = ''consumed'', pre_CreatedAt = 0, pre_UpdatedAt = 0\<rparr>"
  obtain ok s1 where c: "create_preRecord env ?r s = (ok, s1)" by fastforce
  have s1: "beside_subs s1 = beside_subs s" "subs_ok s1 = subs_ok s"
    using c by (auto simp: create_preRecord_eq split: if_splits)
  have eq: "consume_from env requestId userId amount sub s =
      (if ok then ((case fst (save_sub env ?sub s1) of Some e \<Rightarrow> Inl e
                    | None \<Rightarrow> Inr (result_of sub amount (sub_AmountUsed sub) (sub_AmountUsed ?sub))),
                   snd (save_sub env ?sub s1))
       else duplicate_result requestId sub s1)"
    by (cases "save_sub env ?sub s1") (simp add: consume_from_def c Let_def split: option.splits)
  show "beside_subs (snd (consume_from env requestId userId amount sub s)) = beside_subs s"
    using s1 by (auto simp: eq save_sub_eq)
  assume "subs_ok s" "sub_ok sub" "0 < amount"
    "\<not> (0 < sub_AmountTotal sub \<and> sub_AmountTotal sub - sub_AmountUsed sub < amount)"
  then have "sub_ok ?sub" "subs_ok s1" using s1 by (auto simp: sub_ok_def)
  then show "subs_ok (snd (consume_from env requestId userId amount sub s))"
    by (auto simp: eq subs_ok_save)
qed

lemma preConsume_candidates_facts:
  assumes "preConsume_candidates env requestId userId amount now cs s = Some (r, s')"
  shows "beside_subs s' = beside_subs s
    \<and> (subs_ok s \<longrightarrow> list_all sub_ok cs \<longrightarrow> 0 < amount \<longrightarrow> subs_ok s')"
  using assms
proof (induction cs arbitrary: s)
  case (Cons c cs)
  obtain p s1 where p: "getSubscriptionPlanByIdTx env (sub_PlanId c) s = (p, s1)" by fastforce
  have db1: "db s1 = db s" "batchUpdateStores s1 = batchUpdateStores s"
    using getSubscriptionPlanByIdTx_db [of env "sub_PlanId c" s] p by simp_all
  have s1: "beside_subs s1 = beside_subs s" "subs_ok s1 = subs_ok s"
    by (rule beside_of_db [OF db1], rule subs_ok_db [OF db1(1)])
  show ?case
  proof (cases p)
    case (Inl e)
    then show ?thesis using Cons.prems p s1 by simp
  next
    case (Inr plan)
    then obtain err sub s2 where m: "maybeResetUserSubscriptionWithPlanTx env c plan now s1 = Some (err, sub, s2)"
      using Cons.prems p by (cases "maybeResetUserSubscriptionWithPlanTx env c plan now s1") auto
    note mf = maybeReset_facts [OF m]
    consider (err) e where "err = Some e" "s' = s2"
      | (skip) "err = None" "preConsume_candidates env requestId userId amount now cs s2 = Some (r, s')"
      | (take) "err = None" "\<not> (0 < sub_AmountTotal sub \<and> sub_AmountTotal sub - sub_AmountUsed sub < amount)"
          "consume_from env requestId userId amount sub s2 = (r, s')"
      using Cons.prems p Inr m by (cases err) (auto split: if_splits)
    then show ?thesis
    proof cases
      case err
      then show ?thesis using mf(1,6) s1 by simp
    next
      case skip
      then show ?thesis using Cons.IH [OF skip(2)] mf(1,6) s1 by simp
    next
      case take
      then show ?thesis
        using consume_from_facts(1) [of env requestId userId amount sub s2]
          consume_from_facts(2) [of s2 sub amount env requestId userId] mf(1,6) s1 by simp
    qed
  qed
qed simp

lemma preConsume_body_facts:
  assumes "preConsume_body env requestId userId amount now s = Some (r, s')"
  shows "beside_subs s' = beside_subs s \<and> (subs_ok s \<longrightarrow> 0 < amount \<longrightarrow> subs_ok s')"
proof -
  let ?cs = "sort_by end_before (filter (active_for userId now) (subs (db s)))"
  have "subs_ok s \<longrightarrow> list_all sub_ok ?cs" by (auto simp: subs_ok_def list_all_iff)
  then show ?thesis
    using assms preConsume_candidates_facts [of env requestId userId amount now ?cs]
    by (auto simp: preConsume_body_def case_stmt Let_def split: option.splits if_splits)
qed

lemma GetDBTimestamp_beside [simp]: "beside_subs (snd (GetDBTimestamp env s)) = beside_subs s"
  "subs_ok (snd (GetDBTimestamp env s)) = subs_ok s"
  by (auto simp: GetDBTimestamp_def case_stmt)

lemma transaction_opt_facts:
  assumes "transaction_opt body s = Some (r, s')"
    and "\<And>s r s'. body s = Some (r, s') \<Longrightarrow> beside_subs s' = beside_subs s \<and> (subs_ok s \<longrightarrow> subs_ok s')"
  shows "beside_subs s' = beside_subs s \<and> (subs_ok s \<longrightarrow> subs_ok s')"
proof (cases "fst (stmt s)")
  case True
  then obtain q s1 where b: "body (snd (stmt s)) = Some (q, s1)" and e: "s' = snd (tx_end (db s) (q, s1))"
    using assms(1) by (auto simp: transaction_opt_eq)
  show ?thesis
    using assms(2) [OF b] tx_end_beside [of "(q, s1)" s] tx_end_subs_ok [of s "(q, s1)"] by (simp add: e)
qed (use assms(1) in \<open>auto simp: transaction_opt_eq\<close>)

lemma PreConsumeUserSubscription_facts:
  assumes "PreConsumeUserSubscription env requestId userId amount s = Some (r, s')"
  shows "beside_subs s' = beside_subs s \<and> (subs_ok s \<longrightarrow> subs_ok s')"
proof (cases "0 < userId \<and> TrimSpace requestId \<noteq> '''' \<and> 0 < amount")
  case True
  obtain now s1 where n: "GetDBTimestamp env s = (now, s1)" by fastforce
  have "beside_subs s1 = beside_subs s" "subs_ok s1 = subs_ok s"
    using GetDBTimestamp_beside [of env s] n by simp_all
  moreover have "transaction_opt (preConsume_body env requestId userId amount now) s1 = Some (r, s')"
    using assms True n by (simp add: PreConsumeUserSubscription_def)
  ultimately show ?thesis
    using transaction_opt_facts [of "preConsume_body env requestId userId amount now" s1 r s']
      preConsume_body_facts [of env requestId userId amount now] True by simp
qed (use assms in \<open>auto simp: PreConsumeUserSubscription_def split: if_splits\<close>)

section \<open>Deltas and refunds\<close>

lemma PostConsume_eq:
  "PostConsumeUserSubscriptionDelta env i delta s =
    (if i \<le> 0 then (Some ErrInvalidSubscriptionId, s)
     else if delta = 0 then (None, s)
     else (case fst (transaction (delta_body env i delta) s) of Inl e \<Rightarrow> Some e | Inr _ \<Rightarrow> None,
           snd (transaction (delta_body env i delta) s)))"
  by (simp add: PostConsumeUserSubscriptionDelta_def split: prod.splits sum.splits)

lemma delta_body_eq:
  "delta_body env i delta s =
    (case row sub_Id (subs (db s)) i of
       None \<Rightarrow> (if fst (stmt s) then Inl ErrRecordNotFound else Inl ErrDB, snd (stmt s))
     | Some sub \<Rightarrow>
         let newUsed = max 0 (sub_AmountUsed sub + delta); s1 = snd (stmt s);
             saved = save_sub env (sub\<lparr>sub_AmountUsed := newUsed\<rparr>) s1
         in if \<not> fst (stmt s) then (Inl ErrDB, s1)
            else if 0 < sub_AmountTotal sub \<and> sub_AmountTotal sub < newUsed
            then (Inl (ErrSubscriptionUsedExceedsTotal newUsed (sub_AmountTotal sub)), s1)
            else (case fst saved of Some e \<Rightarrow> Inl e | None \<Rightarrow> Inr (), snd saved))"
  by (simp add: delta_body_def case_stmt Let_def split: option.splits prod.splits)

lemma delta_body_facts:
  "beside_subs (snd (delta_body env i delta s)) = beside_subs s"
  "preRecords (db (snd (delta_body env i delta s))) = preRecords (db s)"
  "subs_ok s \<Longrightarrow> subs_ok (snd (delta_body env i delta s))"
proof -
  show "beside_subs (snd (delta_body env i delta s)) = beside_subs s"
    "preRecords (db (snd (delta_body env i delta s))) = preRecords (db s)"
    by (auto simp: delta_body_eq save_sub_eq Let_def set_subs_def beside_subs_def split: option.splits)
  assume ok: "subs_ok s"
  have "sub_ok (sub\<lparr>sub_AmountUsed := max 0 (sub_AmountUsed sub + delta)\<rparr>)"
    if "\<not> (0 < sub_AmountTotal sub \<and> sub_AmountTotal sub < max 0 (sub_AmountUsed sub + delta))" for sub
    using that by (auto simp: sub_ok_def)
  then show "subs_ok (snd (delta_body env i delta s))"
    using ok by (auto simp: delta_body_eq Let_def subs_ok_save split: option.splits)
qed

lemma PostConsume_facts:
  "beside_subs (snd (PostConsumeUserSubscriptionDelta env i delta s)) = beside_subs s"
  "subs_ok s \<Longrightarrow> subs_ok (snd (PostConsumeUserSubscriptionDelta env i delta s))"
  by (simp_all add: PostConsume_eq transaction_beside transaction_subs_ok delta_body_facts)

lemma save_refunded_facts:
  "beside_subs (snd (save_refunded env record s)) = beside_subs s"
  "subs (db (snd (save_refunded env record s))) = subs (db s)"
  by (simp_all add: save_refunded_def case_stmt set_preRecords_def beside_subs_def)

lemma Refund_facts:
  "beside_subs (snd (RefundSubscriptionPreConsume env requestId s)) = beside_subs s"
  "subs_ok s \<Longrightarrow> subs_ok (snd (RefundSubscriptionPreConsume env requestId s))"
proof -
  let ?s1 = "snd (stmt (snd (stmt s)))"
  have post: "beside_subs s2 = beside_subs s" "subs_ok s \<Longrightarrow> subs_ok s2"
    if "PostConsumeUserSubscriptionDelta env i delta ?s1 = (e, s2)" for i delta e s2
    using PostConsume_facts(1) [of env i delta ?s1] PostConsume_facts(2) [of ?s1 env i delta] that by simp_all
  have ok: "subs_ok (snd (save_refunded env r0 s2)) = subs_ok s2" for r0 s2
    using save_refunded_facts(2) [of env r0 s2] by (simp add: subs_ok_def)
  show "beside_subs (snd (RefundSubscriptionPreConsume env requestId s)) = beside_subs s"
    using post by (auto simp: RefundSubscriptionPreConsume_def case_stmt save_refunded_facts split: option.splits prod.splits)
  show "subs_ok (snd (RefundSubscriptionPreConsume env requestId s))" if "subs_ok s"
    using post that ok by (auto simp: RefundSubscriptionPreConsume_def case_stmt split: option.splits prod.splits)
qed

section \<open>What a successful pre-consumption did\<close>

definition sub_used :: "store \<Rightarrow> int \<Rightarrow> int" where
  "sub_used s i = (case row sub_Id (subs (db s)) i of None \<Rightarrow> 0 | Some x \<Rightarrow> sub_AmountUsed x)"

text \<open>
  The record of the request is there and not refunded, and the subscription it names holds
  the amount the result reports.
\<close>

definition charged :: "string \<Rightarrow> SubscriptionPreConsumeResult \<Rightarrow> store \<Rightarrow> bool" where
  "charged requestId r s \<longleftrightarrow>
    (\<exists>p x. row pre_RequestId (preRecords (db s)) requestId = Some p \<and> pre_Status p = ''consumed''
      \<and> pre_UserSubscriptionId p = res_UserSubscriptionId r \<and> pre_PreConsumed p = res_PreConsumed r
      \<and> row sub_Id (subs (db s)) (res_UserSubscriptionId r) = Some x
      \<and> sub_AmountUsed x = res_AmountUsedAfter r \<and> sub_AmountTotal x = res_AmountTotal r)"

lemma charged_db: "db s' = db s \<Longrightarrow> charged requestId r s' = charged requestId r s"
  by (simp add: charged_def)

lemma consume_from_ok:
  assumes "consume_from env requestId userId amount sub s = (Inr r, s')"
    "row pre_RequestId (preRecords (db s)) requestId = None"
  shows "charged requestId r s' \<and> r = result_of sub amount (sub_AmountUsed sub) (sub_AmountUsed sub + amount)"
  using assms
  by (auto simp: consume_from_def create_preRecord_eq duplicate_result_def save_sub_eq case_stmt fresh_id_def
      set_preRecords_def set_subs_def charged_def result_of_def row_save row_append Let_def
      split: if_splits option.splits prod.splits bool.splits)

lemma preConsume_candidates_ok:
  assumes "preConsume_candidates env requestId userId amount now cs s = Some (Inr r, s')"
    "row pre_RequestId (preRecords (db s)) requestId = None"
  shows "charged requestId r s' \<and> res_PreConsumed r = amount \<and> res_AmountUsedAfter r = res_AmountUsedBefore r + amount
    \<and> res_UserSubscriptionId r \<in> sub_Id ` set cs
    \<and> (0 < res_AmountTotal r \<longrightarrow> res_AmountUsedAfter r \<le> res_AmountTotal r)"
  using assms
proof (induction cs arbitrary: s)
  case (Cons c cs)
  obtain p s1 where p: "getSubscriptionPlanByIdTx env (sub_PlanId c) s = (p, s1)" by fastforce
  have db1: "db s1 = db s" using getSubscriptionPlanByIdTx_db [of env "sub_PlanId c" s] p by simp
  obtain plan where plan: "p = Inr plan" using Cons.prems p by (cases p) auto
  then obtain err sub s2 where m: "maybeResetUserSubscriptionWithPlanTx env c plan now s1 = Some (err, sub, s2)"
    using Cons.prems p by (cases "maybeResetUserSubscriptionWithPlanTx env c plan now s1") auto
  note mf = maybeReset_facts(2,3) [OF m]
  have none2: "row pre_RequestId (preRecords (db s2)) requestId = None" using mf db1 Cons.prems by simp
  consider (skip) "preConsume_candidates env requestId userId amount now cs s2 = Some (Inr r, s')"
    | (take) "\<not> (0 < sub_AmountTotal sub \<and> sub_AmountTotal sub - sub_AmountUsed sub < amount)"
        "consume_from env requestId userId amount sub s2 = (Inr r, s')"
    using Cons.prems p plan m by (cases err) (auto split: if_splits)
  then show ?case
  proof cases
    case skip
    then show ?thesis using Cons.IH [OF skip none2] by auto
  next
    case take
    then show ?thesis using consume_from_ok [OF take(2) none2] mf(2) by (auto simp: result_of_def)
  qed
qed simp

lemma preConsume_body_ok:
  assumes "preConsume_body env requestId userId amount now s = Some (Inr r, s')"
  shows "(\<exists>p x. row pre_RequestId (preRecords (db s)) requestId = Some p \<and> pre_Status p \<noteq> ''refunded''
       \<and> row sub_Id (subs (db s)) (pre_UserSubscriptionId p) = Some x \<and> db s' = db s
       \<and> r = result_of x (pre_PreConsumed p) (sub_AmountUsed x) (sub_AmountUsed x))
    \<or> row pre_RequestId (preRecords (db s)) requestId = None \<and> charged requestId r s' \<and> res_PreConsumed r = amount
       \<and> res_AmountUsedAfter r = res_AmountUsedBefore r + amount
       \<and> (\<exists>x \<in> set (subs (db s)). active_for userId now x \<and> sub_Id x = res_UserSubscriptionId r)
       \<and> (0 < res_AmountTotal r \<longrightarrow> res_AmountUsedAfter r \<le> res_AmountTotal r)"
proof (cases "row pre_RequestId (preRecords (db s)) requestId")
  case None
  let ?cs = "sort_by end_before (filter (active_for userId now) (subs (db s)))"
  have "preConsume_candidates env requestId userId amount now ?cs (snd (stmt (snd (stmt s)))) = Some (Inr r, s')"
    using assms None by (auto simp: preConsume_body_def case_stmt Let_def split: if_splits)
  note ok = preConsume_candidates_ok [OF this]
  show ?thesis using ok None by (auto simp: image_iff)
next
  case (Some p)
  then show ?thesis
    using assms by (auto simp: preConsume_body_def case_stmt split: if_splits option.splits)
qed

lemma PreConsume_charged:
  assumes "PreConsumeUserSubscription env requestId userId amount s = Some (Inr r, s')"
  shows "case row pre_RequestId (preRecords (db s)) requestId of
      None \<Rightarrow> charged requestId r s' \<and> res_PreConsumed r = amount \<and> 0 < amount
        \<and> res_AmountUsedAfter r = res_AmountUsedBefore r + amount
        \<and> (\<exists>x \<in> set (subs (db s)). sub_UserId x = userId \<and> sub_Status x = ''active''
              \<and> fst (GetDBTimestamp env s) < sub_EndTime x \<and> sub_Id x = res_UserSubscriptionId r)
        \<and> (0 < res_AmountTotal r \<longrightarrow> res_AmountUsedAfter r \<le> res_AmountTotal r)
    | Some p \<Rightarrow> db s' = db s \<and> pre_Status p \<noteq> ''refunded'' \<and> res_PreConsumed r = pre_PreConsumed p
        \<and> res_UserSubscriptionId r = pre_UserSubscriptionId p"
proof -
  obtain now s1 where n: "GetDBTimestamp env s = (now, s1)" by fastforce
  have db1: "db s1 = db s" using GetDBTimestamp_db [of env s] n by simp
  have pos: "0 < amount" and t: "transaction_opt (preConsume_body env requestId userId amount now) s1 = Some (Inr r, s')"
    using assms n by (auto simp: PreConsumeUserSubscription_def split: if_splits)
  obtain s2 where b: "preConsume_body env requestId userId amount now (snd (stmt s1)) = Some (Inr r, s2)"
    and db2: "db s' = db s2"
    using transaction_optD [OF t] by auto
  show ?thesis
    using preConsume_body_ok [OF b] pos charged_db [OF db2]
    by (auto simp: db1 db2 n active_for_def result_of_def dest: row_key split: option.splits)
qed


definition demo_plan :: SubscriptionPlan where
  "demo_plan = \<lparr>plan_Id = 3, plan_Title = ''pro'', plan_PriceAmount = Fin 10, plan_DurationUnit = ''month'',
     plan_DurationValue = 1, plan_CustomSeconds = 0, plan_Enabled = True, plan_AllowBalancePay = None,
     plan_AllowWalletOverflow = None, plan_MaxPurchasePerUser = 0, plan_UpgradeGroup = [], plan_DowngradeGroup = [],
     plan_TotalAmount = 1000, plan_QuotaResetPeriod = ''never'', plan_QuotaResetCustomSeconds = 0\<rparr>"

definition demo_sub :: "int \<Rightarrow> UserSubscription" where
  "demo_sub used = \<lparr>sub_Id = 5, sub_UserId = 1, sub_PlanId = 3, sub_AmountTotal = 1000, sub_AmountUsed = used,
     sub_StartTime = 1699000000, sub_EndTime = 1701600000, sub_Status = ''active'', sub_Source = ''order'',
     sub_LastResetTime = 0, sub_NextResetTime = 0, sub_UpgradeGroup = [], sub_PrevUserGroup = [],
     sub_DowngradeGroup = [], sub_AllowWalletOverflow = True, sub_CreatedAt = 0, sub_UpdatedAt = 0\<rparr>"

definition demo_record :: "int \<Rightarrow> SubscriptionPreConsumeRecord" where
  "demo_record amount = \<lparr>pre_Id = 9, pre_RequestId = ''req'', pre_UserId = 1, pre_UserSubscriptionId = 5,
     pre_PreConsumed = amount, pre_Status = ''consumed'', pre_CreatedAt = 0, pre_UpdatedAt = 0\<rparr>"

definition demo_sub_store :: "int \<Rightarrow> SubscriptionPreConsumeRecord list \<Rightarrow> bool list \<Rightarrow> store" where
  "demo_sub_store used rs fs =
     demo_store\<lparr>db := (db demo_store)\<lparr>plans := [demo_plan], subs := [demo_sub used], preRecords := rs, next_id := 10\<rparr>,
                faults := fs\<rparr>"

lemmas demo_sub_defs = demo_defs demo_plan_def demo_sub_def demo_record_def demo_sub_store_def

lemma TrimSpace_req [simp]: "TrimSpace ''req'' = ''req''"
  by code_simp

lemma TrimSpace_never [simp]: "TrimSpace ''never'' = ''never''"
  by code_simp


section \<open>Deltas, refunds and their failures\<close>

text \<open>A delta that succeeds moves the used amount by exactly the delta, not below zero.\<close>

lemma PostConsume_ok:
  assumes "PostConsumeUserSubscriptionDelta env i delta s = (None, s')" "delta \<noteq> 0"
  shows "\<exists>x. row sub_Id (subs (db s)) i = Some x
    \<and> row sub_Id (subs (db s')) i = Some (x\<lparr>sub_AmountUsed := max 0 (sub_AmountUsed x + delta),
                                         sub_UpdatedAt := GetTimestamp env\<rparr>)
    \<and> \<not> (0 < sub_AmountTotal x \<and> sub_AmountTotal x < max 0 (sub_AmountUsed x + delta))
    \<and> (\<forall>j. j \<noteq> i \<longrightarrow> row sub_Id (subs (db s')) j = row sub_Id (subs (db s)) j)
    \<and> preRecords (db s') = preRecords (db s)"
proof -
  obtain a where t: "transaction (delta_body env i delta) s = (Inr a, s')"
    using assms by (auto simp: PostConsumeUserSubscriptionDelta_def split: if_splits prod.splits sum.splits)
  obtain s1 where b: "delta_body env i delta (snd (stmt s)) = (Inr a, s1)" and d: "db s' = db s1"
    using transaction_okD [OF t] by blast
  show ?thesis
    using b unfolding d
    by (auto simp: delta_body_eq save_sub_eq set_subs_def row_save Let_def dest: row_key
        split: option.splits if_splits)
qed

lemma PostConsume_err:
  assumes "PostConsumeUserSubscriptionDelta env i delta s = (Some e, s')"
  shows "db s' = db s"
  using assms
  by (auto simp: PostConsumeUserSubscriptionDelta_def split: if_splits prod.splits sum.splits dest: transaction_errD)

text \<open>With the database up, a delta within the bounds succeeds.\<close>

lemma PostConsume_up:
  assumes "faults s = []" "0 < i" "row sub_Id (subs (db s)) i = Some x"
    "\<not> (0 < sub_AmountTotal x \<and> sub_AmountTotal x < max 0 (sub_AmountUsed x + delta))"
  shows "fst (PostConsumeUserSubscriptionDelta env i delta s) = None
    \<and> faults (snd (PostConsumeUserSubscriptionDelta env i delta s)) = []"
  using assms
  by (auto simp: PostConsume_eq transaction_eq tx_end_eq delta_body_eq save_sub_eq set_subs_def Let_def)

lemma Refund_up:
  assumes "faults s = []" "TrimSpace requestId \<noteq> ''''"
    "row pre_RequestId (preRecords (db s)) requestId = Some p" "pre_Status p \<noteq> ''refunded''"
    "0 < pre_PreConsumed p" "0 < pre_UserSubscriptionId p"
    "row sub_Id (subs (db s)) (pre_UserSubscriptionId p) = Some x" "sub_ok x"
  shows "\<exists>s'. RefundSubscriptionPreConsume env requestId s = (None, s') \<and> faults s' = []
    \<and> row pre_RequestId (preRecords (db s')) requestId = Some (p\<lparr>pre_Status := ''refunded'', pre_UpdatedAt := GetTimestamp env\<rparr>)
    \<and> row sub_Id (subs (db s')) (pre_UserSubscriptionId p) =
        Some (x\<lparr>sub_AmountUsed := max 0 (sub_AmountUsed x - pre_PreConsumed p), sub_UpdatedAt := GetTimestamp env\<rparr>)"
proof -
  let ?i = "pre_UserSubscriptionId p" and ?d = "- pre_PreConsumed p"
  obtain e s2 where post: "PostConsumeUserSubscriptionDelta env ?i ?d s = (e, s2)" by fastforce
  have fits: "\<not> (0 < sub_AmountTotal x \<and> sub_AmountTotal x < max 0 (sub_AmountUsed x + ?d))"
    using assms(5,8) by (auto simp: sub_ok_def)
  have "e = None" "faults s2 = []" using PostConsume_up [OF assms(1,6,7) fits, of env] post by simp_all
  note ok = PostConsume_ok [OF post [unfolded \<open>e = None\<close>]]
  have "pre_RequestId p = requestId" using assms(3) by (rule row_key)
  then show ?thesis
    using assms post \<open>e = None\<close> \<open>faults s2 = []\<close> ok
    by (auto simp: RefundSubscriptionPreConsume_def save_refunded_def set_preRecords_def row_save)
qed



text \<open>
  When the record cannot be saved after the delta was committed, the refund reports an
  error although it was applied, and the retry that billing makes applies it a second
  time: the subscription gets back twice what the request took.
\<close>

theorem refund_retry_refunds_twice:
  fixes env :: env
  assumes "faults s = [False, False, False, False, False, False, True]" "TrimSpace requestId \<noteq> ''''"
    "row pre_RequestId (preRecords (db s)) requestId = Some p" "pre_Status p = ''consumed''"
    "0 < pre_PreConsumed p" "0 < pre_UserSubscriptionId p"
    "row sub_Id (subs (db s)) (pre_UserSubscriptionId p) = Some x" "sub_ok x" "2 * pre_PreConsumed p \<le> sub_AmountUsed x"
  defines "once \<equiv> RefundSubscriptionPreConsume env requestId s"
  defines "retry \<equiv> RefundSubscriptionPreConsume env requestId (snd once)"
  shows "fst once = Some ErrDB \<and> fst retry = None
    \<and> sub_used (snd retry) (pre_UserSubscriptionId p) = sub_used s (pre_UserSubscriptionId p) - 2 * pre_PreConsumed p"
proof -
  let ?i = "pre_UserSubscriptionId p"
  have i: "sub_Id x = ?i" using assms(7) by (rule row_key)
  have fits: "\<not> (0 < sub_AmountTotal x \<and> sub_AmountTotal x < sub_AmountUsed x - pre_PreConsumed p)"
    using assms(5,8) by (auto simp: sub_ok_def)
  have first: "fst once = Some ErrDB" "faults (snd once) = []" "preRecords (db (snd once)) = preRecords (db s)"
    "row sub_Id (subs (db (snd once))) ?i =
       Some (x\<lparr>sub_AmountUsed := sub_AmountUsed x - pre_PreConsumed p, sub_UpdatedAt := GetTimestamp env\<rparr>)"
    using assms(1-9) i fits unfolding once_def
    by (simp_all add: RefundSubscriptionPreConsume_def PostConsume_eq transaction_eq tx_end_eq delta_body_eq save_sub_eq
        save_refunded_def set_subs_def stmt_def Let_def row_save sub_ok_def) (use fits in blast)
  have "pre_Status p \<noteq> ''refunded''" using assms(4) by simp
  moreover have "row pre_RequestId (preRecords (db (snd once))) requestId = Some p" using first(3) assms(3) by simp
  moreover have "sub_ok (x\<lparr>sub_AmountUsed := sub_AmountUsed x - pre_PreConsumed p, sub_UpdatedAt := GetTimestamp env\<rparr>)"
    using assms(5,8,9) by (auto simp: sub_ok_def)
  ultimately obtain s' where r: "retry = (None, s')"
    "row sub_Id (subs (db s')) ?i = Some (x\<lparr>sub_AmountUsed := max 0 (sub_AmountUsed x - pre_PreConsumed p - pre_PreConsumed p),
        sub_UpdatedAt := GetTimestamp env\<rparr>)"
    using Refund_up [OF first(2) assms(2) _ _ assms(5,6) first(4)] unfolding retry_def by auto
  then show ?thesis using first(1) assms(5,7,9) by (simp add: sub_used_def)
qed

theorem refund_retry_refunds_twice_witness:
  "let once = RefundSubscriptionPreConsume (demo_env False) ''req''
                (demo_sub_store 100 [demo_record 40] [False, False, False, False, False, False, True])
   in fst once = Some ErrDB
    \<and> sub_used (snd (RefundSubscriptionPreConsume (demo_env False) ''req'' (snd once))) 5 = 20"
  using refund_retry_refunds_twice [of "demo_sub_store 100 [demo_record 40] [False, False, False, False, False, False, True]"
      "''req''" "demo_record 40" "demo_sub 100" "demo_env False"]
  by (simp add: demo_sub_defs sub_ok_def sub_used_def Let_def)

section \<open>Resets return, except when the period overflows\<close>

lemma reset_loop_returns:
  assumes "reset_period_fits plan"
  shows "reset_loop (fixed_zone off) plan endUnix now base nxt adv \<noteq> None"
proof (cases "0 < nxt \<and> nxt \<le> now")
  case True
  then obtain q where "reset_loop (fixed_zone off) plan endUnix now nxt
      (calcNextResetTime (fixed_zone off) nxt plan endUnix) True = Some q"
    using reset_loop_ends [OF assms, of nxt now off endUnix "calcNextResetTime (fixed_zone off) nxt plan endUnix" True]
    by blast
  then show ?thesis using True by (subst reset_loop.simps) simp
next
  case False
  then show ?thesis by (subst reset_loop.simps) auto
qed

lemma maybeReset_returns:
  assumes "Local env = fixed_zone off" "reset_period_fits plan"
  shows "maybeResetUserSubscriptionWithPlanTx env sub plan now s \<noteq> None"
proof -
  let ?base = "if sub_LastResetTime sub \<le> 0 then sub_StartTime sub else sub_LastResetTime sub"
  have "reset_loop (Local env) plan (sub_EndTime sub) now ?base
      (calcNextResetTime (Local env) ?base plan (sub_EndTime sub)) False \<noteq> None"
    unfolding assms(1) by (rule reset_loop_returns [OF assms(2)])
  then obtain q where q: "reset_loop (Local env) plan (sub_EndTime sub) now ?base
      (calcNextResetTime (Local env) ?base plan (sub_EndTime sub)) False = Some q" by blast
  obtain b n a where "q = (b, n, a)" by (cases q)
  with q show ?thesis by (cases a) (simp_all add: maybeResetUserSubscriptionWithPlanTx_def Let_def split: prod.split)
qed

definition plans_fit :: "env \<Rightarrow> store \<Rightarrow> bool" where
  "plans_fit env s \<longleftrightarrow> (\<forall>i p. plan_cache env i = Some p \<longrightarrow> reset_period_fits p)
    \<and> (\<forall>p \<in> set (plans (db s)). reset_period_fits p)"

lemma plans_fit_plan:
  assumes "plans_fit env s" "getSubscriptionPlanByIdTx env i s = (Inr plan, s1)"
  shows "reset_period_fits plan"
  using assms
  by (auto simp: plans_fit_def getSubscriptionPlanByIdTx_def case_stmt NormalizeDefaults_def reset_period_fits_def
      split: if_splits option.splits dest!: row_mem)

lemma preConsume_candidates_returns:
  assumes "Local env = fixed_zone off" "plans_fit env s"
  shows "preConsume_candidates env requestId userId amount now cs s \<noteq> None"
  using assms(2)
proof (induction cs arbitrary: s)
  case (Cons c cs)
  obtain p s1 where p: "getSubscriptionPlanByIdTx env (sub_PlanId c) s = (p, s1)" by fastforce
  have db1: "db s1 = db s" using getSubscriptionPlanByIdTx_db [of env "sub_PlanId c" s] p by simp
  show ?case
  proof (cases p)
    case (Inr plan)
    then have "reset_period_fits plan" using plans_fit_plan [OF Cons.prems] p by blast
    then obtain err sub s2 where m: "maybeResetUserSubscriptionWithPlanTx env c plan now s1 = Some (err, sub, s2)"
      using maybeReset_returns [OF assms(1), of plan c now s1] by auto
    have "plans (db s2) = plans (db s)" using beside_subsD(4) [OF maybeReset_facts(1) [OF m]] db1 by simp
    then have "plans_fit env s2" using Cons.prems by (simp add: plans_fit_def)
    then show ?thesis using Cons.IH [of s2] p Inr m by (auto split: option.splits)
  qed (use p in simp)
qed simp



text \<open>
  A custom reset period of 18446744074 seconds, which the plan editor accepts, is 290
  milliseconds after the int64 product wraps: the next reset is the last one, and the
  loop that advances a due subscription of such a plan never ends.
\<close>

theorem reset_overflow_never_returns:
  assumes "TrimSpace (plan_QuotaResetPeriod plan) = ''custom''" "plan_QuotaResetCustomSeconds plan = 18446744074"
    "sub_NextResetTime sub \<le> now" "0 < sub_LastResetTime sub" "sub_LastResetTime sub \<le> now"
    "sub_LastResetTime sub \<le> sub_EndTime sub"
  shows "maybeResetUserSubscriptionWithPlanTx env sub plan now s = None"
proof -
  have custom: "NormalizeResetPeriod (plan_QuotaResetPeriod plan) = ''custom''"
    using assms(1) by (simp add: NormalizeResetPeriod_def)
  have still: "calcNextResetTime (Local env) (sub_LastResetTime sub) plan (sub_EndTime sub) = sub_LastResetTime sub"
    by (rule custom_overflow_stands_still [OF custom assms(2,6)])
  have "reset_loop (Local env) plan (sub_EndTime sub) now (sub_LastResetTime sub) (sub_LastResetTime sub) False = None"
    using reset_loop_stuck still assms(4,5) by (metis not_None_eq)
  then show ?thesis
    using assms custom still by (simp add: maybeResetUserSubscriptionWithPlanTx_def Let_def)
qed

theorem reset_overflow_never_returns_witness:
  "maybeResetUserSubscriptionWithPlanTx (demo_env False)
      (demo_sub 0\<lparr>sub_LastResetTime := 1699000000, sub_NextResetTime := 1699000000\<rparr>)
      (demo_plan\<lparr>plan_QuotaResetPeriod := ''custom'', plan_QuotaResetCustomSeconds := 18446744074\<rparr>) 1700000000 demo_store = None"
proof -
  have "TrimSpace ''custom'' = ''custom''" by code_simp
  then show ?thesis
    using reset_overflow_never_returns [of "demo_plan\<lparr>plan_QuotaResetPeriod := ''custom'', plan_QuotaResetCustomSeconds := 18446744074\<rparr>"
        "demo_sub 0\<lparr>sub_LastResetTime := 1699000000, sub_NextResetTime := 1699000000\<rparr>" 1700000000]
    by (simp add: demo_sub_def demo_plan_def)
qed

text \<open>
  C11. Quota is never oversold: if every subscription uses no more than its total and
  no less than zero, so it does after a pre-consumption, a delta and a refund, whatever
  statements fail.
\<close>

theorem subscription_quota_invariant:
  assumes "subs_ok s"
  shows "(\<forall>r s'. PreConsumeUserSubscription env requestId userId amount s = Some (r, s') \<longrightarrow> subs_ok s')
    \<and> subs_ok (snd (PostConsumeUserSubscriptionDelta env i delta s))
    \<and> subs_ok (snd (RefundSubscriptionPreConsume env requestId s))"
  using assms PreConsumeUserSubscription_facts PostConsume_facts(2) Refund_facts(2) by blast

theorem subscription_quota_invariant_witness:
  "subs_ok (snd (PostConsumeUserSubscriptionDelta (demo_env False) 5 5000 (demo_sub_store 100 [] [])))"
  using subscription_quota_invariant [of "demo_sub_store 100 [] []" "demo_env False" "''req''" 1 40 5 5000]
  by (simp add: subs_ok_def demo_sub_defs sub_ok_def)

end
