(* ===== verification/Subscription_Admin.thy ===== *)
theory Subscription_Admin
  imports Subscription
begin

text \<open>
  The remaining operations of src/model/subscription.go: binding by an administrator,
  cancellation and deletion with group downgrade, manual resets, the
  periodic reset and expiry jobs, record cleanup and the plan information of a subscription.
\<close>

section \<open>Operations\<close>

text \<open>\<open>UpdateUserGroupCache\<close> writes the cached group (src/model/user_cache.go).\<close>

definition UpdateUserGroupCache :: "env \<Rightarrow> int \<Rightarrow> string \<Rightarrow> store \<Rightarrow> store" where
  "UpdateUserGroupCache env userId g s =
    (if RedisEnabled env then emit (CacheSetUserGroup userId g) s else s)"

definition AdminBindSubscription :: "env \<Rightarrow> int \<Rightarrow> int \<Rightarrow> store \<Rightarrow> (error + string) \<times> store" where
  "AdminBindSubscription env userId planId s =
    (if userId \<le> 0 \<or> planId \<le> 0 then (Inl ErrInvalidUserOrPlanId, s)
     else case getSubscriptionPlanByIdTx env planId s of
       (Inl e, s1) \<Rightarrow> (Inl e, s1)
     | (Inr plan, s1) \<Rightarrow>
        (case transaction (CreateUserSubscriptionFromPlanTx env userId plan ''admin'') s1 of
           (Inl e, s2) \<Rightarrow> (Inl e, s2)
         | (Inr _, s2) \<Rightarrow>
             if TrimSpace (plan_UpgradeGroup plan) \<noteq> ''''
             then (Inr (plan_UpgradeGroup plan), UpdateUserGroupCache env userId (plan_UpgradeGroup plan) s2)
             else (Inr '''', s2)))"

definition find_sub :: "int \<Rightarrow> store \<Rightarrow> (error + UserSubscription) \<times> store" where
  "find_sub i s =
    (case stmt s of
       (True, s1) \<Rightarrow>
         (case row sub_Id (subs (db s1)) i of None \<Rightarrow> (Inl ErrRecordNotFound, s1) | Some x \<Rightarrow> (Inr x, s1))
     | (False, s1) \<Rightarrow> (Inl ErrDB, s1))"

definition invalidate_body :: "env \<Rightarrow> int \<Rightarrow> store \<Rightarrow> (error + int \<times> string) \<times> store" where
  "invalidate_body env i s =
    (let now = GetTimestamp env
     in case find_sub i s of
       (Inl e, s1) \<Rightarrow> (Inl e, s1)
     | (Inr sub, s1) \<Rightarrow>
        (case stmt s1 of
           (False, s2) \<Rightarrow> (Inl ErrDB, s2)
         | (True, s2) \<Rightarrow>
             (case downgradeUserGroupForSubscriptionTx sub now
                     (set_subs (upd_row sub_Id i (\<lambda>x. x\<lparr>sub_Status := ''cancelled'', sub_EndTime := now,
                        sub_UpdatedAt := now\<rparr>)) s2) of
                (Inl e, s3) \<Rightarrow> (Inl e, s3)
              | (Inr target, s3) \<Rightarrow> (Inr (sub_UserId sub, target), s3))))"

definition delete_body :: "env \<Rightarrow> int \<Rightarrow> store \<Rightarrow> (error + int \<times> string) \<times> store" where
  "delete_body env i s =
    (case find_sub i s of
       (Inl e, s1) \<Rightarrow> (Inl e, s1)
     | (Inr sub, s1) \<Rightarrow>
        (case downgradeUserGroupForSubscriptionTx sub (GetTimestamp env) s1 of
           (Inl e, s2) \<Rightarrow> (Inl e, s2)
         | (Inr target, s2) \<Rightarrow>
            (case stmt s2 of
               (False, s3) \<Rightarrow> (Inl ErrDB, s3)
             | (True, s3) \<Rightarrow>
                 (Inr (sub_UserId sub, target), set_subs (filter (\<lambda>x. sub_Id x \<noteq> i)) s3))))"

text \<open>After the transaction: refresh the cached group; the message names the new group.\<close>

definition report_downgrade :: "env \<Rightarrow> (error + int \<times> string) \<times> store \<Rightarrow> (error + string) \<times> store" where
  "report_downgrade env res =
    (case res of
       (Inl e, s) \<Rightarrow> (Inl e, s)
     | (Inr (userId, target), s) \<Rightarrow>
         (Inr target, if target \<noteq> '''' \<and> 0 < userId then UpdateUserGroupCache env userId target s else s))"

definition AdminInvalidateUserSubscription :: "env \<Rightarrow> int \<Rightarrow> store \<Rightarrow> (error + string) \<times> store" where
  "AdminInvalidateUserSubscription env i s =
    (if i \<le> 0 then (Inl ErrInvalidSubscriptionId, s)
     else report_downgrade env (transaction (invalidate_body env i) s))"

definition AdminDeleteUserSubscription :: "env \<Rightarrow> int \<Rightarrow> store \<Rightarrow> (error + string) \<times> store" where
  "AdminDeleteUserSubscription env i s =
    (if i \<le> 0 then (Inl ErrInvalidSubscriptionId, s)
     else report_downgrade env (transaction (delete_body env i) s))"

definition resetUserSubscriptionTx ::
    "env \<Rightarrow> UserSubscription \<Rightarrow> SubscriptionPlan \<Rightarrow> int \<Rightarrow> bool \<Rightarrow> store \<Rightarrow> error option \<times> store" where
  "resetUserSubscriptionTx env sub plan now advanceResetTime s =
    (let sub1 = sub\<lparr>sub_AmountUsed := 0\<rparr>;
         sub2 = (if advanceResetTime then
                   let nextReset = calcNextResetTime (Local env) now plan (sub_EndTime sub)
                   in sub1\<lparr>sub_NextResetTime := nextReset,
                           sub_LastResetTime := (if 0 < nextReset then now else 0)\<rparr>
                 else sub1)
     in save_sub env sub2 s)"

fun reset_each ::
    "env \<Rightarrow> SubscriptionPlan \<Rightarrow> int \<Rightarrow> bool \<Rightarrow> UserSubscription list \<Rightarrow> store \<Rightarrow> error option \<times> store" where
  "reset_each env plan now advanceResetTime [] s = (None, s)"
| "reset_each env plan now advanceResetTime (x # xs) s =
    (case resetUserSubscriptionTx env x plan now advanceResetTime s of
       (Some e, s1) \<Rightarrow> (Some e, s1)
     | (None, s1) \<Rightarrow> reset_each env plan now advanceResetTime xs s1)"

record SubscriptionResetResult =
  rr_PlanId :: int
  rr_MatchedCount :: int
  rr_ResetCount :: int
  rr_UserCount :: int
  rr_AdvanceResetTime :: bool
  rr_PlanTitle :: string
  rr_AffectedUserIds :: "int list"

text \<open>The loop of \<open>buildSubscriptionResetResult\<close>: user ids in order, each once.\<close>

fun distinct_users :: "UserSubscription list \<Rightarrow> int list \<Rightarrow> int list" where
  "distinct_users [] seen = []"
| "distinct_users (x # xs) seen =
    (if sub_UserId x \<in> set seen then distinct_users xs seen
     else sub_UserId x # distinct_users xs (sub_UserId x # seen))"

definition buildSubscriptionResetResult ::
    "SubscriptionPlan \<Rightarrow> UserSubscription list \<Rightarrow> bool \<Rightarrow> SubscriptionResetResult" where
  "buildSubscriptionResetResult plan xs advanceResetTime =
    (let userIds = distinct_users xs []
     in \<lparr>rr_PlanId = plan_Id plan, rr_MatchedCount = int (length xs), rr_ResetCount = int (length xs),
         rr_UserCount = int (length userIds), rr_AdvanceResetTime = advanceResetTime,
         rr_PlanTitle = plan_Title plan, rr_AffectedUserIds = userIds\<rparr>)"

definition adminResetUserSubscriptionsByPlanTx ::
    "env \<Rightarrow> int \<Rightarrow> SubscriptionPlan \<Rightarrow> int \<Rightarrow> bool \<Rightarrow> store \<Rightarrow> (error + SubscriptionResetResult) \<times> store" where
  "adminResetUserSubscriptionsByPlanTx env userId plan now advanceResetTime s =
    (case stmt s of
       (False, s1) \<Rightarrow> (Inl ErrDB, s1)
     | (True, s1) \<Rightarrow>
         let xs = sort_by end_before
                    (filter (\<lambda>x. active_for userId now x \<and> sub_PlanId x = plan_Id plan) (subs (db s1)))
         in if xs = [] then (Inl ErrNoSubscriptionOfPlan, s1)
            else case reset_each env plan now advanceResetTime xs s1 of
                   (Some e, s2) \<Rightarrow> (Inl e, s2)
                 | (None, s2) \<Rightarrow> (Inr (buildSubscriptionResetResult plan xs advanceResetTime), s2))"

text \<open>\<open>ORDER BY user_id ASC, end_time ASC, id ASC\<close>.\<close>

definition user_end_before :: "UserSubscription \<Rightarrow> UserSubscription \<Rightarrow> bool" where
  "user_end_before x y \<longleftrightarrow> sub_UserId x < sub_UserId y \<or> sub_UserId x = sub_UserId y \<and> end_before x y"

definition adminResetPlanSubscriptionsTx ::
    "env \<Rightarrow> SubscriptionPlan \<Rightarrow> int \<Rightarrow> bool \<Rightarrow> store \<Rightarrow> (error + SubscriptionResetResult) \<times> store" where
  "adminResetPlanSubscriptionsTx env plan now advanceResetTime s =
    (case stmt s of
       (False, s1) \<Rightarrow> (Inl ErrDB, s1)
     | (True, s1) \<Rightarrow>
         let xs = sort_by user_end_before
                    (filter (\<lambda>x. sub_PlanId x = plan_Id plan \<and> sub_Status x = ''active'' \<and> now < sub_EndTime x)
                      (subs (db s1)))
         in case reset_each env plan now advanceResetTime xs s1 of
              (Some e, s2) \<Rightarrow> (Inl e, s2)
            | (None, s2) \<Rightarrow> (Inr (buildSubscriptionResetResult plan xs advanceResetTime), s2))"

definition AdminResetUserSubscriptionsByPlan ::
    "env \<Rightarrow> int \<Rightarrow> int \<Rightarrow> bool \<Rightarrow> store \<Rightarrow> (error + SubscriptionResetResult) \<times> store" where
  "AdminResetUserSubscriptionsByPlan env userId planId advanceResetTime s =
    (if userId \<le> 0 \<or> planId \<le> 0 then (Inl ErrInvalidUserOrPlanId, s)
     else case GetDBTimestamp env s of
       (now, s1) \<Rightarrow> transaction (\<lambda>t.
         (case getSubscriptionPlanByIdTx env planId t of
            (Inl e, t1) \<Rightarrow> (Inl e, t1)
          | (Inr plan, t1) \<Rightarrow> adminResetUserSubscriptionsByPlanTx env userId plan now advanceResetTime t1)) s1)"

definition AdminResetPlanSubscriptions ::
    "env \<Rightarrow> int \<Rightarrow> bool \<Rightarrow> store \<Rightarrow> (error + SubscriptionResetResult) \<times> store" where
  "AdminResetPlanSubscriptions env planId advanceResetTime s =
    (if planId \<le> 0 then (Inl ErrInvalidPlanId, s)
     else case GetDBTimestamp env s of
       (now, s1) \<Rightarrow> transaction (\<lambda>t.
         (case getSubscriptionPlanByIdTx env planId t of
            (Inl e, t1) \<Rightarrow> (Inl e, t1)
          | (Inr plan, t1) \<Rightarrow> adminResetPlanSubscriptionsTx env plan now advanceResetTime t1)) s1)"

section \<open>Expiry\<close>

definition due :: "int \<Rightarrow> UserSubscription \<Rightarrow> bool" where
  "due now x \<longleftrightarrow> sub_Status x = ''active'' \<and> 0 < sub_EndTime x \<and> sub_EndTime x \<le> now"

text \<open>
  The group after expiry: the target of the most recently ended expired subscription
  that defines a transition, unless nothing changes.
\<close>

definition expiry_target :: "UserSubscription \<Rightarrow> string \<Rightarrow> string" where
  "expiry_target x currentGroup =
    (let target = TrimSpace (sub_DowngradeGroup x); up = TrimSpace (sub_UpgradeGroup x);
         prev = TrimSpace (sub_PrevUserGroup x)
     in if target \<noteq> '''' then (if target = currentGroup then '''' else target)
        else if up = '''' \<or> prev = '''' \<or> currentGroup \<noteq> up \<or> prev = currentGroup then ''''
        else prev)"

definition latest_end :: "UserSubscription list \<Rightarrow> UserSubscription option" where
  "latest_end xs = (case sort_by (\<lambda>x y. end_before y x) xs of [] \<Rightarrow> None | x # _ \<Rightarrow> Some x)"

text \<open>
  The group change: none while another upgraded subscription is active, else the target of
  the most recently ended expired subscription that defines one.
\<close>

definition expire_group :: "int \<Rightarrow> int \<Rightarrow> store \<Rightarrow> (error + string) \<times> store" where
  "expire_group now userId s =
    (if fst (stmt s) \<and> (\<exists>x \<in> set (subs (db s)). active_for userId now x \<and> sub_UpgradeGroup x \<noteq> '''')
     then (Inr '''', snd (stmt s))
     else case stmt (snd (stmt s)) of
       (False, s4) \<Rightarrow> (Inr '''', s4)
     | (True, s4) \<Rightarrow>
        (case latest_end (filter (\<lambda>x. sub_UserId x = userId \<and> sub_Status x = ''expired''
                 \<and> (sub_DowngradeGroup x \<noteq> '''' \<or> sub_UpgradeGroup x \<noteq> '''')) (subs (db s4))) of
           None \<Rightarrow> (Inr '''', s4)
         | Some lastExpired \<Rightarrow>
            (case getUserGroupByIdTx userId s4 of
               (Inl e, s5) \<Rightarrow> (Inl e, s5)
             | (Inr currentGroup, s5) \<Rightarrow>
                 let target = expiry_target lastExpired currentGroup
                 in if target = '''' then (Inr '''', s5)
                    else case set_user_group userId target s5 of
                           (Some e, s6) \<Rightarrow> (Inl e, s6)
                         | (None, s6) \<Rightarrow> (Inr target, s6))))"

text \<open>The transaction for one user: expire its due subscriptions, then change its group.\<close>

definition expire_user_body :: "env \<Rightarrow> int \<Rightarrow> int \<Rightarrow> store \<Rightarrow> (error + string) \<times> store" where
  "expire_user_body env now userId s =
    (case stmt s of
       (False, s1) \<Rightarrow> (Inl ErrDB, s1)
     | (True, s1) \<Rightarrow>
         expire_group now userId (set_subs (map (\<lambda>x. if sub_UserId x = userId \<and> due now x
           then x\<lparr>sub_Status := ''expired'', sub_UpdatedAt := GetTimestamp env\<rparr> else x)) s1))"

text \<open>
  The rows the UPDATE of one user changes; it runs only when the transaction begins and the
  statement succeeds.  The count is taken inside the transaction, so a later failure keeps it.
\<close>

definition expired_rows :: "int \<Rightarrow> int \<Rightarrow> store \<Rightarrow> int" where
  "expired_rows now userId s =
    (if fst (stmt s) \<and> fst (stmt (snd (stmt s)))
     then int (length (filter (\<lambda>x. sub_UserId x = userId \<and> due now x) (subs (db s)))) else 0)"

fun expire_users :: "env \<Rightarrow> int \<Rightarrow> int list \<Rightarrow> int \<Rightarrow> store \<Rightarrow> (int \<times> error option) \<times> store" where
  "expire_users env now [] n s = ((n, None), s)"
| "expire_users env now (u # us) n s =
    (let n' = n + expired_rows now u s
     in case transaction (expire_user_body env now u) s of
          (Inl e, s1) \<Rightarrow> ((n', Some e), s1)
        | (Inr cacheGroup, s1) \<Rightarrow>
            expire_users env now us n'
              (if cacheGroup \<noteq> '''' then UpdateUserGroupCache env u cacheGroup s1 else s1))"

definition ExpireDueSubscriptions :: "env \<Rightarrow> int \<Rightarrow> store \<Rightarrow> (int \<times> error option) \<times> store" where
  "ExpireDueSubscriptions env limit s =
    (let limit = (if limit \<le> 0 then 200 else limit)
     in case GetDBTimestamp env s of
       (now, s1) \<Rightarrow>
        (case stmt s1 of
           (False, s2) \<Rightarrow> ((0, Some ErrDB), s2)
         | (True, s2) \<Rightarrow>
             let xs = take (nat limit) (sort_by end_before (filter (due now) (subs (db s2))));
                 userIds = map_order env (remdups (filter (\<lambda>u. 0 < u) (map sub_UserId xs)))
             in if xs = [] then ((0, None), s2) else expire_users env now userIds 0 s2))"

section \<open>Periodic reset and cleanup\<close>

definition reset_due_body ::
    "env \<Rightarrow> SubscriptionPlan \<Rightarrow> int \<Rightarrow> int \<Rightarrow> store \<Rightarrow> ((error + bool) \<times> store) option" where
  "reset_due_body env plan now i s =
    (case stmt s of
       (False, s1) \<Rightarrow> Some (Inr False, s1)
     | (True, s1) \<Rightarrow>
        (case find (\<lambda>x. sub_Id x = i \<and> 0 < sub_NextResetTime x \<and> sub_NextResetTime x \<le> now) (subs (db s1)) of
           None \<Rightarrow> Some (Inr False, s1)
         | Some locked \<Rightarrow>
            (case maybeResetUserSubscriptionWithPlanTx env locked plan now s1 of
               None \<Rightarrow> None
             | Some (Some e, _, s2) \<Rightarrow> Some (Inl e, s2)
             | Some (None, _, s2) \<Rightarrow> Some (Inr True, s2))))"

text \<open>
  The count is raised inside the transaction: a failing commit returns it as it was raised.
\<close>

fun reset_due_each ::
    "env \<Rightarrow> int \<Rightarrow> UserSubscription list \<Rightarrow> int \<Rightarrow> store \<Rightarrow> ((int \<times> error option) \<times> store) option" where
  "reset_due_each env now [] n s = Some ((n, None), s)"
| "reset_due_each env now (x # xs) n s =
    (case getSubscriptionPlanByIdTx env (sub_PlanId x) s of
       (Inl e, s1) \<Rightarrow> reset_due_each env now xs n s1
     | (Inr plan, s1) \<Rightarrow>
        (case stmt s1 of
           (False, s2) \<Rightarrow> Some ((n, Some ErrDB), s2)
         | (True, s2) \<Rightarrow>
            (case reset_due_body env plan now (sub_Id x) s2 of
               None \<Rightarrow> None
             | Some res \<Rightarrow>
                 let n' = (if fst res = Inr True then n + 1 else n)
                 in case tx_end (db s1) res of
                      (Inl e, s3) \<Rightarrow> Some ((n', Some e), s3)
                    | (Inr _, s3) \<Rightarrow> reset_due_each env now xs n' s3)))"

definition next_reset_before :: "UserSubscription \<Rightarrow> UserSubscription \<Rightarrow> bool" where
  "next_reset_before x y \<longleftrightarrow> sub_NextResetTime x < sub_NextResetTime y"

definition ResetDueSubscriptions :: "env \<Rightarrow> int \<Rightarrow> store \<Rightarrow> ((int \<times> error option) \<times> store) option" where
  "ResetDueSubscriptions env limit s =
    (let limit = (if limit \<le> 0 then 200 else limit)
     in case GetDBTimestamp env s of
       (now, s1) \<Rightarrow>
        (case stmt s1 of
           (False, s2) \<Rightarrow> Some ((0, Some ErrDB), s2)
         | (True, s2) \<Rightarrow>
             reset_due_each env now
               (take (nat limit) (sort_by next_reset_before
                 (filter (\<lambda>x. 0 < sub_NextResetTime x \<and> sub_NextResetTime x \<le> now \<and> sub_Status x = ''active'')
                   (subs (db s2))))) 0 s2))"

definition CleanupSubscriptionPreConsumeRecords :: "env \<Rightarrow> int \<Rightarrow> store \<Rightarrow> (int \<times> error option) \<times> store" where
  "CleanupSubscriptionPreConsumeRecords env olderThanSeconds s =
    (let older = (if olderThanSeconds \<le> 0 then 7 * 24 * 3600 else olderThanSeconds)
     in case GetDBTimestamp env s of
       (now, s1) \<Rightarrow>
        (case stmt s1 of
           (False, s2) \<Rightarrow> ((0, Some ErrDB), s2)
         | (True, s2) \<Rightarrow>
             ((int (length (filter (\<lambda>r. pre_UpdatedAt r < now - older) (preRecords (db s2)))), None),
              set_preRecords (filter (\<lambda>r. \<not> pre_UpdatedAt r < now - older)) s2)))"

definition GetSubscriptionPlanInfoByUserSubscriptionId ::
    "env \<Rightarrow> int \<Rightarrow> store \<Rightarrow> (error + int \<times> string) \<times> store" where
  "GetSubscriptionPlanInfoByUserSubscriptionId env i s =
    (if i \<le> 0 then (Inl ErrInvalidSubscriptionId, s)
     else case plan_info_cache env i of
       Some info \<Rightarrow> (Inr info, s)
     | None \<Rightarrow>
        (case find_sub i s of
           (Inl e, s1) \<Rightarrow> (Inl e, s1)
         | (Inr sub, s1) \<Rightarrow>
            (case getSubscriptionPlanByIdTx env (sub_PlanId sub) s1 of
               (Inl e, s2) \<Rightarrow> (Inl e, s2)
             | (Inr plan, s2) \<Rightarrow>
                 (Inr (sub_PlanId sub, plan_Title plan),
                  emit (CacheSetPlanInfo i (sub_PlanId sub) (plan_Title plan)) s2))))"

section \<open>Group changes leave subscriptions alone\<close>

lemma subs_set_users [simp]: "subs (db (set_users f s)) = subs (db s)"
  by (simp add: set_users_def)

lemma getUserGroupByIdTx_db [simp]: "db (snd (getUserGroupByIdTx u s)) = db s"
  by (simp add: getUserGroupByIdTx_def case_stmt)

lemma set_user_group_subs [simp]: "subs (db (snd (set_user_group u g s))) = subs (db s)"
  by (simp add: set_user_group_def case_stmt)

lemma getUserGroupByIdTx_eq:
  "getUserGroupByIdTx u s =
    (if u \<le> 0 then (Inl ErrInvalidUserId, s)
     else (if fst (stmt s) then Inr (case row user_Id (users (db s)) u of None \<Rightarrow> '''' | Some x \<Rightarrow> user_Group x)
           else Inl ErrDB, snd (stmt s)))"
  by (simp add: getUserGroupByIdTx_def case_stmt)

lemma set_user_group_eq:
  "set_user_group u g s =
    (if fst (stmt s) then (None, set_users (upd_row user_Id u (\<lambda>x. x\<lparr>user_Group := g\<rparr>)) (snd (stmt s)))
     else (Some ErrDB, snd (stmt s)))"
  by (simp add: set_user_group_def case_stmt)

lemma downgrade_subs [simp]: "subs (db (snd (downgradeUserGroupForSubscriptionTx x now s))) = subs (db s)"
proof -
  obtain g s1 where g: "getUserGroupByIdTx (sub_UserId x) s = (g, s1)" by fastforce
  have "db s1 = db s" using getUserGroupByIdTx_db [of "sub_UserId x" s] g by simp
  then show ?thesis
    by (simp add: downgradeUserGroupForSubscriptionTx_def g Let_def case_prod_beta set_user_group_eq split: sum.split)
qed

lemma upgrade_buyer_subs [simp]: "subs (db (snd (upgrade_buyer u g s))) = subs (db s)"
proof -
  obtain r s1 where r: "getUserGroupByIdTx u s = (r, s1)" by fastforce
  have "db s1 = db s" using getUserGroupByIdTx_db [of u s] r by simp
  then show ?thesis by (simp add: upgrade_buyer_def r set_user_group_eq split: sum.split)
qed

lemma UpdateUserGroupCache_db [simp]: "db (UpdateUserGroupCache env u g s) = db s"
  by (simp add: UpdateUserGroupCache_def)

section \<open>Creation\<close>

text \<open>The record a creation inserts: unused, of the plan and the user.\<close>

lemma Create_ok:
  assumes "CreateUserSubscriptionFromPlanTx env userId plan source s = (Inr x, s')"
  shows "subs (db s') = subs (db s) @ [x] \<and> sub_AmountUsed x = 0 \<and> sub_AmountTotal x = plan_TotalAmount plan
    \<and> sub_UserId x = userId \<and> sub_PlanId x = plan_Id plan \<and> sub_Status x = ''active''
    \<and> (0 < plan_MaxPurchasePerUser plan \<longrightarrow> count_purchases userId (plan_Id plan) s < plan_MaxPurchasePerUser plan)"
proof -
  obtain e s1 where c: "check_purchase_limit userId plan s = (e, s1)" by fastforce
  obtain now s2 where n: "GetDBTimestamp env s1 = (now, s2)" by fastforce
  obtain r s3 where u: "upgrade_buyer userId (TrimSpace (plan_UpgradeGroup plan)) s2 = (r, s3)" by fastforce
  have s1: "subs (db s1) = subs (db s)"
    "e = None \<Longrightarrow> 0 < plan_MaxPurchasePerUser plan \<Longrightarrow> count_purchases userId (plan_Id plan) s < plan_MaxPurchasePerUser plan"
    using c by (auto simp: check_purchase_limit_def case_stmt count_purchases_def split: if_splits)
  have "subs (db s3) = subs (db s)"
    using GetDBTimestamp_db [of env s1] upgrade_buyer_subs [of userId "TrimSpace (plan_UpgradeGroup plan)" s2] n u s1
    by simp
  then show ?thesis
    using assms c n u s1(2)
    by (auto simp: CreateUserSubscriptionFromPlanTx_def insert_sub_def case_stmt fresh_id_def set_subs_def Let_def
        split: if_splits option.splits sum.splits)
qed



section \<open>Every operation keeps the quota invariant\<close>

lemma transaction_keeps:
  assumes "subs_ok s" "\<And>a s1. body (snd (stmt s)) = (Inr a, s1) \<Longrightarrow> subs_ok s1"
  shows "subs_ok (snd (transaction body s))"
proof (cases "transaction body s")
  case (Pair r s')
  show ?thesis
  proof (cases r)
    case (Inl e)
    then show ?thesis using Pair assms(1) transaction_errD by (fastforce simp: subs_ok_def)
  next
    case (Inr a)
    then obtain s1 where "body (snd (stmt s)) = (Inr a, s1)" "db s' = db s1"
      using Pair transaction_okD [of body s a s'] by blast
    then show ?thesis using assms(2) Pair by (simp add: subs_ok_def)
  qed
qed

lemma subs_ok_subset: "subs_ok s \<Longrightarrow> set (subs (db s')) \<subseteq> set (subs (db s)) \<Longrightarrow> subs_ok s'"
  by (auto simp: subs_ok_def)

lemma find_sub_eq:
  "find_sub i s =
    ((if fst (stmt s) then case row sub_Id (subs (db s)) i of None \<Rightarrow> Inl ErrRecordNotFound | Some x \<Rightarrow> Inr x
      else Inl ErrDB), snd (stmt s))"
  by (simp add: find_sub_def case_stmt split: option.splits)

lemma report_downgrade_db [simp]: "db (snd (report_downgrade env res)) = db (snd res)"
  by (auto simp: report_downgrade_def split: prod.splits sum.splits)

lemma invalidate_body_subs:
  assumes "invalidate_body env i s = (Inr r, s')"
  shows "subs (db s') = upd_row sub_Id i (\<lambda>x. x\<lparr>sub_Status := ''cancelled'', sub_EndTime := GetTimestamp env,
    sub_UpdatedAt := GetTimestamp env\<rparr>) (subs (db s))"
proof -
  obtain x where f: "find_sub i s = (Inr x, snd (stmt s))" "fst (stmt (snd (stmt s)))"
    using assms by (auto simp: invalidate_body_def find_sub_eq case_stmt Let_def split: if_splits option.splits sum.splits)
  let ?t = "set_subs (upd_row sub_Id i (\<lambda>x. x\<lparr>sub_Status := ''cancelled'', sub_EndTime := GetTimestamp env,
    sub_UpdatedAt := GetTimestamp env\<rparr>)) (snd (stmt (snd (stmt s))))"
  have "s' = snd (downgradeUserGroupForSubscriptionTx x (GetTimestamp env) ?t)"
    using assms f by (auto simp: invalidate_body_def case_stmt Let_def split: prod.splits sum.splits)
  then show ?thesis by (simp add: set_subs_def)
qed

lemma delete_body_subs:
  assumes "delete_body env i s = (Inr r, s')"
  shows "subs (db s') = filter (\<lambda>x. sub_Id x \<noteq> i) (subs (db s))"
proof -
  obtain x where f: "find_sub i s = (Inr x, snd (stmt s))"
    using assms by (auto simp: delete_body_def find_sub_eq split: if_splits option.splits sum.splits)
  obtain d t where d: "downgradeUserGroupForSubscriptionTx x (GetTimestamp env) (snd (stmt s)) = (d, t)" by fastforce
  have "subs (db t) = subs (db s)" using downgrade_subs [of x "GetTimestamp env" "snd (stmt s)"] d by simp
  then show ?thesis
    using assms f d by (auto simp: delete_body_def case_stmt set_subs_def split: sum.splits if_splits)
qed

lemma reset_each_ok: "subs_ok s \<Longrightarrow> subs_ok (snd (reset_each env plan now adv xs s))"
proof (induction xs arbitrary: s)
  case (Cons x xs)
  obtain e s1 where r: "resetUserSubscriptionTx env x plan now adv s = (e, s1)" by fastforce
  obtain x' where "resetUserSubscriptionTx env x plan now adv s = save_sub env x' s" "sub_AmountUsed x' = 0"
    by (simp add: resetUserSubscriptionTx_def Let_def)
  moreover have "sub_ok x'" using calculation(2) by (simp add: sub_ok_def)
  ultimately have "subs_ok s1" using subs_ok_save [OF Cons.prems, of x' env] r by (metis snd_conv)
  then show ?case using Cons.IH r by (cases e) simp_all
qed simp

lemma expire_group_subs [simp]: "subs (db (snd (expire_group now u s))) = subs (db s)"
proof -
  define s3 where "s3 = snd (stmt s)"
  define s4 where "s4 = snd (stmt s3)"
  have d: "db s3 = db s" "db s4 = db s" by (simp_all add: s3_def s4_def)
  obtain g s5 where g: "getUserGroupByIdTx u s4 = (g, s5)" by fastforce
  have d5: "db s5 = db s" using getUserGroupByIdTx_db [of u s4] g d by simp
  have d6: "subs (db s6) = subs (db s)" if "set_user_group u t s5 = (e, s6)" for t e s6
    using set_user_group_subs [of u t s5] that d5 by simp
  show ?thesis
    unfolding expire_group_def case_stmt Let_def s3_def [symmetric] s4_def [symmetric]
    unfolding g
    by (auto simp: d d5 d6 split: option.split sum.split prod.split)
qed

lemma expire_user_body_ok:
  assumes "subs_ok s"
  shows "subs_ok (snd (expire_user_body env now u s))"
proof -
  define f where "f = (\<lambda>x. if sub_UserId x = u \<and> due now x
      then x\<lparr>sub_Status := ''expired'', sub_UpdatedAt := GetTimestamp env\<rparr> else x)"
  have "sub_ok (f x) = sub_ok x" for x by (simp add: f_def sub_ok_def)
  moreover have "set (subs (db (snd (expire_user_body env now u s)))) \<subseteq> set (subs (db s)) \<union> f ` set (subs (db s))"
    unfolding expire_user_body_def case_stmt f_def [symmetric] by (simp add: set_subs_def)
  ultimately show ?thesis using assms unfolding subs_ok_def by blast
qed

lemma expire_users_ok: "subs_ok s \<Longrightarrow> subs_ok (snd (expire_users env now us n s))"
proof (induction us arbitrary: s n)
  case (Cons u us)
  obtain r s1 where t: "transaction (expire_user_body env now u) s = (r, s1)" by fastforce
  have s1: "subs_ok s1"
    using transaction_subs_ok [of s "expire_user_body env now u"] expire_user_body_ok Cons.prems t by simp
  have "subs_ok (UpdateUserGroupCache env u g s1)" for g using s1 by (simp add: subs_ok_def)
  then show ?case using Cons.IH t s1 by (cases r) (simp_all add: Let_def)
qed simp

lemma reset_due_body_ok:
  assumes ok: "subs_ok s" and run: "reset_due_body env plan now i s = Some (r, s')"
  shows "subs_ok s'"
proof -
  define s1 where "s1 = snd (stmt s)"
  have s1: "db s1 = db s" "subs_ok s1" using ok by (simp_all add: s1_def)
  let ?f = "find (\<lambda>x. sub_Id x = i \<and> 0 < sub_NextResetTime x \<and> sub_NextResetTime x \<le> now) (subs (db s1))"
  consider "s' = s1" | x err sub where "?f = Some x"
      "maybeResetUserSubscriptionWithPlanTx env x plan now s1 = Some (err, sub, s')"
    using run unfolding reset_due_body_def case_stmt s1_def [symmetric]
    by (auto split: if_splits option.splits)
  then show ?thesis
  proof cases
    case 2
    have "x \<in> set (subs (db s1))" using 2(1) by (auto simp: find_Some_iff)
    then have "sub_ok x" using s1(2) by (simp add: subs_ok_def)
    then show ?thesis using maybeReset_facts(6) [OF 2(2) s1(2)] by simp
  qed (use s1 in simp)
qed

lemma reset_due_each_ok: "subs_ok s \<Longrightarrow> reset_due_each env now xs n s = Some (r, s') \<Longrightarrow> subs_ok s'"
proof (induction xs arbitrary: s n)
  case (Cons x xs)
  obtain p s1 where p: "getSubscriptionPlanByIdTx env (sub_PlanId x) s = (p, s1)" by fastforce
  have s1: "subs_ok s1"
    using getSubscriptionPlanByIdTx_db(1) [of env "sub_PlanId x" s] p Cons.prems(1) by (simp add: subs_ok_def)
  show ?case
  proof (cases p)
    case (Inl e)
    then show ?thesis using Cons p s1 by simp
  next
    case (Inr plan)
    show ?thesis
    proof (cases "fst (stmt s1)")
      case True
      then obtain q t where b: "reset_due_body env plan now (sub_Id x) (snd (stmt s1)) = Some (q, t)"
        using Cons.prems(2) p Inr
        by (cases "reset_due_body env plan now (sub_Id x) (snd (stmt s1))") (auto simp: case_stmt)
      have "subs_ok t" using reset_due_body_ok [OF _ b] s1 by simp
      obtain e s3 where e: "tx_end (db s1) (q, t) = (e, s3)" by fastforce
      have "subs_ok s3" using tx_end_subs_ok [of s1 "(q, t)"] \<open>subs_ok t\<close> s1 e by simp
      then show ?thesis
        using Cons.IH [of s3] Cons.prems(2) p Inr True b e by (cases e) (simp_all add: case_stmt Let_def)
    qed (use Cons.prems p Inr s1 in \<open>auto simp: case_stmt\<close>)
  qed
qed simp

lemma admin_reset_ok:
  "subs_ok s \<Longrightarrow> subs_ok (snd (adminResetUserSubscriptionsByPlanTx env u plan now adv s))"
  "subs_ok s \<Longrightarrow> subs_ok (snd (adminResetPlanSubscriptionsTx env plan now adv s))"
proof -
  assume ok: "subs_ok s"
  have r: "subs_ok s2" if "reset_each env plan now adv xs (snd (stmt s)) = (e, s2)" for xs e s2
    using reset_each_ok [of "snd (stmt s)" env plan now adv xs] that ok by simp
  show "subs_ok (snd (adminResetUserSubscriptionsByPlanTx env u plan now adv s))"
    using ok r by (auto simp: adminResetUserSubscriptionsByPlanTx_def case_stmt Let_def split: prod.split option.split)
  show "subs_ok (snd (adminResetPlanSubscriptionsTx env plan now adv s))"
    using ok r by (auto simp: adminResetPlanSubscriptionsTx_def case_stmt Let_def split: prod.split option.split)
qed

lemma with_plan_ok:
  assumes "subs_ok s" "\<And>plan s. subs_ok s \<Longrightarrow> subs_ok (snd (f plan s))"
  shows "subs_ok (snd (case getSubscriptionPlanByIdTx env i s of (Inl e, t1) \<Rightarrow> (Inl e, t1) | (Inr plan, t1) \<Rightarrow> f plan t1))"
proof -
  obtain p s1 where p: "getSubscriptionPlanByIdTx env i s = (p, s1)" by fastforce
  have "subs_ok s1" using getSubscriptionPlanByIdTx_db(1) [of env i s] p assms(1) by (simp add: subs_ok_def)
  then show ?thesis using p assms(2) by (cases p) simp_all
qed

text \<open>The administrative operations and the jobs, one lemma each.\<close>

lemma AdminBind_ok: "subs_ok s \<Longrightarrow> subs_ok (snd (AdminBindSubscription env u p s))"
proof -
  assume ok: "subs_ok s"
  have create: "subs_ok (snd (transaction (CreateUserSubscriptionFromPlanTx env u plan ''admin'') t))" if "subs_ok t" for plan t
  proof (rule transaction_keeps [OF that])
    fix x t1
    assume "CreateUserSubscriptionFromPlanTx env u plan ''admin'' (snd (stmt t)) = (Inr x, t1)"
    from Create_ok [OF this] that show "subs_ok t1" by (auto simp: subs_ok_def sub_ok_def)
  qed
  have step: "subs_ok (snd (case transaction (CreateUserSubscriptionFromPlanTx env u plan ''admin'') t of
      (Inl e, s2) \<Rightarrow> (Inl e, s2)
    | (Inr _, s2) \<Rightarrow> if TrimSpace (plan_UpgradeGroup plan) \<noteq> ''''
        then (Inr (plan_UpgradeGroup plan), UpdateUserGroupCache env u (plan_UpgradeGroup plan) s2) else (Inr '''', s2)))"
    if "subs_ok t" for plan t
    using create [OF that, of plan]
    by (cases "transaction (CreateUserSubscriptionFromPlanTx env u plan ''admin'') t") (auto simp: subs_ok_def split: sum.split)
  show ?thesis
    unfolding AdminBindSubscription_def
    by (cases "u \<le> 0 \<or> p \<le> 0"; simp only: if_True if_False snd_conv ok) (rule with_plan_ok [OF ok step])
qed

lemma AdminInvalidate_ok: "subs_ok s \<Longrightarrow> subs_ok (snd (AdminInvalidateUserSubscription env i s))"
proof -
  assume ok: "subs_ok s"
  have "subs_ok (snd (transaction (invalidate_body env i) s))"
    by (rule transaction_keeps [OF ok])
      (use ok in \<open>auto simp: subs_ok_def sub_ok_def upd_row_def dest!: invalidate_body_subs\<close>)
  then show ?thesis using ok by (auto simp: AdminInvalidateUserSubscription_def subs_ok_def)
qed

lemma AdminDelete_ok: "subs_ok s \<Longrightarrow> subs_ok (snd (AdminDeleteUserSubscription env i s))"
proof -
  assume ok: "subs_ok s"
  have "subs_ok (snd (transaction (delete_body env i) s))"
    by (rule transaction_keeps [OF ok]) (use ok in \<open>auto simp: subs_ok_def dest!: delete_body_subs\<close>)
  then show ?thesis using ok by (auto simp: AdminDeleteUserSubscription_def subs_ok_def)
qed

lemma AdminResets_ok:
  assumes "subs_ok s"
  shows "subs_ok (snd (AdminResetUserSubscriptionsByPlan env u p adv s))"
    "subs_ok (snd (AdminResetPlanSubscriptions env p adv s))"
proof -
  obtain now s1 where n: "GetDBTimestamp env s = (now, s1)" by fastforce
  have s1: "subs_ok s1" using GetDBTimestamp_beside(2) [of env s] n assms by simp
  show "subs_ok (snd (AdminResetUserSubscriptionsByPlan env u p adv s))"
    unfolding AdminResetUserSubscriptionsByPlan_def n
    by (cases "u \<le> 0 \<or> p \<le> 0"; simp only: if_True if_False snd_conv assms prod.case)
      (rule transaction_subs_ok [OF s1], rule with_plan_ok, assumption, rule admin_reset_ok)
  show "subs_ok (snd (AdminResetPlanSubscriptions env p adv s))"
    unfolding AdminResetPlanSubscriptions_def n
    by (cases "p \<le> 0"; simp only: if_True if_False snd_conv assms prod.case)
      (rule transaction_subs_ok [OF s1], rule with_plan_ok, assumption, rule admin_reset_ok)
qed

lemma ExpireDue_ok:
  assumes "subs_ok s"
  shows "subs_ok (snd (ExpireDueSubscriptions env limit s))"
proof -
  obtain now s1 where n: "GetDBTimestamp env s = (now, s1)" by fastforce
  have "subs_ok (snd (stmt s1))" using GetDBTimestamp_beside(2) [of env s] n assms by simp
  then show ?thesis by (simp add: ExpireDueSubscriptions_def n case_stmt Let_def expire_users_ok)
qed

lemma ResetDue_ok:
  assumes "subs_ok s" "ResetDueSubscriptions env limit s = Some (r, s')"
  shows "subs_ok s'"
proof -
  obtain now s1 where n: "GetDBTimestamp env s = (now, s1)" by fastforce
  have s2: "subs_ok (snd (stmt s1))" using GetDBTimestamp_beside(2) [of env s] n assms(1) by simp
  consider "s' = snd (stmt s1)" | xs where "reset_due_each env now xs 0 (snd (stmt s1)) = Some (r, s')"
    using assms(2) unfolding ResetDueSubscriptions_def n case_stmt Let_def prod.case by (auto split: if_splits)
  then show ?thesis
  proof cases
    case 2
    then show ?thesis by (rule reset_due_each_ok [OF s2])
  qed (use s2 in simp)
qed



section \<open>Groups\<close>

definition group_of :: "store \<Rightarrow> int \<Rightarrow> string" where
  "group_of s u = (case row user_Id (users (db s)) u of None \<Rightarrow> '''' | Some x \<Rightarrow> user_Group x)"

lemma row_set_group:
  "row user_Id (upd_row user_Id u (\<lambda>x. x\<lparr>user_Group := g\<rparr>) us) j =
    (if j = u then map_option (\<lambda>x. x\<lparr>user_Group := g\<rparr>) (row user_Id us j) else row user_Id us j)"
  by (rule row_upd_row) simp

lemma group_of_set_users [simp]:
  "row user_Id (users (db s)) u \<noteq> None \<Longrightarrow>
    group_of (set_users (upd_row user_Id u (\<lambda>x. x\<lparr>user_Group := g\<rparr>)) s) u = g"
  by (auto simp: group_of_def set_users_def row_set_group)

lemma Create_up:
  assumes up: "faults s = []" and u: "row user_Id (users (db s)) u = Some usr" "0 < u"
    and plan: "TrimSpace (plan_UpgradeGroup plan) = plan_UpgradeGroup plan" "plan_UpgradeGroup plan \<noteq> ''''"
      "user_Group usr \<noteq> plan_UpgradeGroup plan"
    and run: "CreateUserSubscriptionFromPlanTx env u plan source s = (Inr x, s1)"
  shows "faults s1 = [] \<and> group_of s1 u = plan_UpgradeGroup plan \<and> sub_PrevUserGroup x = user_Group usr
    \<and> sub_UpgradeGroup x = plan_UpgradeGroup plan \<and> sub_DowngradeGroup x = TrimSpace (plan_DowngradeGroup plan)
    \<and> sub_Id x = next_id (db s) \<and> sub_UserId x = u \<and> subs (db s1) = subs (db s) @ [x]
    \<and> row user_Id (users (db s1)) u = Some (usr\<lparr>user_Group := plan_UpgradeGroup plan\<rparr>)"
  using run up u plan
  by (auto simp: CreateUserSubscriptionFromPlanTx_def check_purchase_limit_def GetDBTimestamp_def upgrade_buyer_def
      getUserGroupByIdTx_eq set_user_group_eq insert_sub_def fresh_id_def set_subs_def set_users_def group_of_def
      row_set_group Let_def split: if_splits sum.splits)


definition demo_vip_plan :: SubscriptionPlan where
  "demo_vip_plan = demo_plan\<lparr>plan_UpgradeGroup := ''vip'', plan_DurationUnit := ''hour''\<rparr>"

lemma TrimSpace_demo [simp]: "TrimSpace ''vip'' = ''vip''" "TrimSpace ''default'' = ''default''" "TrimSpace [] = []"
  by code_simp+


end
