(* ===== verification/Payments.thy ===== *)
theory Payments
  imports Token_Auth Subscription_Admin
begin

text \<open>
  Top-up orders and subscription orders (src/model/topup.go and the order functions of
  src/model/subscription.go): creating an order, completing it from the callback of each payment
  provider, by reconciliation or by hand, closing it, listing orders, and buying
  a subscription with the wallet.

  \<open>payment_env\<close> holds what is not code of the repository: the products of the decimal library
  (\<open>NewFromInt(a).Mul(NewFromFloat(unit)).IntPart()\<close> and its variants), the rounded float64 product, and what the
  database stores when a float64 is added to an integer column.
\<close>

record payment_env =
  dec_int_mul :: "int \<Rightarrow> rat \<Rightarrow> int"
  dec_float_mul :: "float64 \<Rightarrow> rat \<Rightarrow> int"
  dec_float_mul_ceil :: "float64 \<Rightarrow> rat \<Rightarrow> int"
  float_mul :: "float64 \<Rightarrow> rat \<Rightarrow> float64"
  column_add :: "int \<Rightarrow> float64 \<Rightarrow> int"

section \<open>Pages\<close>

record PageInfo =
  pi_Page :: int
  pi_PageSize :: int

definition GetStartIdx :: "PageInfo \<Rightarrow> int" where
  "GetStartIdx p = (pi_Page p - 1) * pi_PageSize p"

definition GetPageSize :: "PageInfo \<Rightarrow> int" where
  "GetPageSize p = pi_PageSize p"

definition maxPageNumber :: int where
  "maxPageNumber = 1000000"

text \<open>The value \<open>strconv.Atoi\<close> returns beside its error: 0, or the nearest bound when out of range.\<close>

definition Atoi_value :: "string \<Rightarrow> int" where
  "Atoi_value s =
    (let (neg, body) = (case s of [] \<Rightarrow> (False, [])
                         | c # cs \<Rightarrow> if c = CHR ''-'' then (True, cs)
                                     else if c = CHR ''+'' then (False, cs) else (False, s))
     in case parse_nat body of
          None \<Rightarrow> 0
        | Some n \<Rightarrow> (let v = (if neg then - int n else int n) in max (- (2 ^ 63)) (min (2 ^ 63 - 1) v)))"

definition page_size_query :: "(string \<Rightarrow> string) \<Rightarrow> int \<Rightarrow> int" where
  "page_size_query q ItemsPerPage =
    (let size = (case Atoi (q ''page_size'') of None \<Rightarrow> 0 | Some n \<Rightarrow> n);
         size = (if 0 < size then size
                 else if 0 < Atoi_value (q ''ps'') then Atoi_value (q ''ps'')
                 else if 0 < Atoi_value (q ''size'') then Atoi_value (q ''size'')
                 else ItemsPerPage)
     in if 100 < size then 100 else size)"

definition GetPageQuery :: "(string \<Rightarrow> string) \<Rightarrow> int \<Rightarrow> PageInfo" where
  "GetPageQuery q ItemsPerPage =
    (let p = (case Atoi (q ''p'') of None \<Rightarrow> 0 | Some n \<Rightarrow> n);
         p = (if p < 1 then 1 else p);
         p = (if maxPageNumber < p then maxPageNumber else p)
     in \<lparr>pi_Page = p, pi_PageSize = page_size_query q ItemsPerPage\<rparr>)"

definition newest_by :: "('r \<Rightarrow> int) \<Rightarrow> 'r list \<Rightarrow> 'r list" where
  "newest_by key rs = sort_by (\<lambda>a b. key b < key a) rs"

text \<open>
  Count and one page, newest first, in a transaction of their own; \<open>e\<close> is what a failing query is
  reported as.
\<close>

definition paged_query ::
    "error \<Rightarrow> (tables \<Rightarrow> 'r list) \<Rightarrow> ('r \<Rightarrow> int) \<Rightarrow> int \<Rightarrow> int \<Rightarrow> store \<Rightarrow> (error + 'r list \<times> int) \<times> store" where
  "paged_query e rows key startIdx num s =
    (case stmt s of
       (False, s1) \<Rightarrow> (Inl e, s1)
     | (True, s1) \<Rightarrow>
        (case stmt s1 of
           (False, s2) \<Rightarrow> (Inl e, s2)
         | (True, s2) \<Rightarrow>
            (case stmt s2 of
               (False, s3) \<Rightarrow> (Inl ErrDB, s3)
             | (True, s3) \<Rightarrow>
                 (Inr (page startIdx num (newest_by key (rows (db s2))), int (length (rows (db s1)))), s3))))"

text \<open>The same with the \<open>Begin\<close> before it.\<close>

definition paged_tx ::
    "error \<Rightarrow> (tables \<Rightarrow> 'r list) \<Rightarrow> ('r \<Rightarrow> int) \<Rightarrow> int \<Rightarrow> int \<Rightarrow> store \<Rightarrow> (error + 'r list \<times> int) \<times> store" where
  "paged_tx e rows key startIdx num s =
    (case stmt s of
       (False, s1) \<Rightarrow> (Inl ErrDB, s1)
     | (True, s1) \<Rightarrow> paged_query e rows key startIdx num s1)"

section \<open>Top-up orders\<close>

definition set_topups :: "(TopUp list \<Rightarrow> TopUp list) \<Rightarrow> store \<Rightarrow> store" where
  "set_topups f s = s\<lparr>db := (db s)\<lparr>topups := f (topups (db s))\<rparr>\<rparr>"

text \<open>\<open>Insert\<close>: the trade number has a unique index.\<close>

definition TopUp_Insert :: "TopUp \<Rightarrow> store \<Rightarrow> error option \<times> store" where
  "TopUp_Insert topUp s =
    (case stmt s of
       (False, s1) \<Rightarrow> (Some ErrDB, s1)
     | (True, s1) \<Rightarrow>
         if row top_TradeNo (topups (db s1)) (top_TradeNo topUp) \<noteq> None then (Some ErrDB, s1)
         else case fresh_id s1 of
                (i, s2) \<Rightarrow> (None, set_topups (\<lambda>ts. ts @ [topUp\<lparr>top_Id := i\<rparr>]) s2))"

definition TopUp_Update :: "TopUp \<Rightarrow> store \<Rightarrow> error option \<times> store" where
  "TopUp_Update topUp s =
    (case stmt s of
       (False, s1) \<Rightarrow> (Some ErrDB, s1)
     | (True, s1) \<Rightarrow> (None, set_topups (save_row top_Id topUp) s1))"

definition GetTopUpById :: "int \<Rightarrow> store \<Rightarrow> TopUp option \<times> store" where
  "GetTopUpById i s =
    (case stmt s of (False, s1) \<Rightarrow> (None, s1) | (True, s1) \<Rightarrow> (row top_Id (topups (db s1)) i, s1))"

definition GetTopUpByTradeNo :: "string \<Rightarrow> store \<Rightarrow> TopUp option \<times> store" where
  "GetTopUpByTradeNo tradeNo s =
    (case stmt s of (False, s1) \<Rightarrow> (None, s1) | (True, s1) \<Rightarrow> (row top_TradeNo (topups (db s1)) tradeNo, s1))"

definition pending_epay :: "int \<Rightarrow> int \<Rightarrow> int \<Rightarrow> string \<Rightarrow> string \<Rightarrow> int \<Rightarrow> bool" where
  "pending_epay now minAgeSeconds maxAgeSeconds status provider createTime \<longleftrightarrow>
    status = ''pending'' \<and> provider = ''epay''
    \<and> (0 < minAgeSeconds \<longrightarrow> createTime \<le> now - minAgeSeconds)
    \<and> (0 < maxAgeSeconds \<longrightarrow> now - maxAgeSeconds \<le> createTime)"

definition GetPendingEpayTopUps :: "env \<Rightarrow> int \<Rightarrow> int \<Rightarrow> int \<Rightarrow> store \<Rightarrow> (error + TopUp list) \<times> store" where
  "GetPendingEpayTopUps env limit minAgeSeconds maxAgeSeconds s =
    (let limit' = (if limit \<le> 0 \<or> 1000 < limit then 100 else limit)
     in case stmt s of
          (False, s1) \<Rightarrow> (Inl ErrDB, s1)
        | (True, s1) \<Rightarrow>
            (Inr (take (nat limit') (sort_by (\<lambda>a b. top_Id a < top_Id b)
              (filter (\<lambda>t. pending_epay (GetTimestamp env) minAgeSeconds maxAgeSeconds
                  (top_Status t) (top_PaymentProvider t) (top_CreateTime t)) (topups (db s1))))), s1))"

definition addUserQuota :: "int \<Rightarrow> int \<Rightarrow> store \<Rightarrow> error option \<times> store" where
  "addUserQuota userID quota s = update_user userID (\<lambda>u. u\<lparr>user_Quota := user_Quota u + quota\<rparr>) s"

text \<open>Save the completed order, then credit its owner.\<close>

definition save_and_credit ::
    "TopUp \<Rightarrow> (store \<Rightarrow> error option \<times> store) \<Rightarrow> store \<Rightarrow> (error + TopUp) \<times> store" where
  "save_and_credit topUp credit s =
    (case TopUp_Update topUp s of
       (Some e, s1) \<Rightarrow> (Inl e, s1)
     | (None, s1) \<Rightarrow>
        (case credit s1 of
           (Some e, s2) \<Rightarrow> (Inl e, s2)
         | (None, s2) \<Rightarrow> (Inr topUp, s2)))"

definition completed :: "env \<Rightarrow> TopUp \<Rightarrow> TopUp" where
  "completed env topUp = topUp\<lparr>top_CompleteTime := GetTimestamp env, top_Status := ''success''\<rparr>"

definition epay_body :: "payment_env \<Rightarrow> env \<Rightarrow> string \<Rightarrow> string \<Rightarrow> store \<Rightarrow> (error + TopUp option) \<times> store" where
  "epay_body pe env tradeNo actualPaymentMethod s =
    (case GetTopUpByTradeNo tradeNo s of
       (None, s1) \<Rightarrow> (Inl ErrTopUpNotFound, s1)
     | (Some topUp, s1) \<Rightarrow>
         if top_PaymentProvider topUp \<noteq> ''epay'' then (Inl ErrPaymentMethodMismatch, s1)
         else if top_Status topUp = ''success'' then (Inr None, s1)
         else if top_Status topUp \<noteq> ''pending'' then (Inl ErrTopUpStatusInvalid, s1)
         else
           let topUp' = (completed env topUp)\<lparr>top_PaymentMethod :=
                 if actualPaymentMethod \<noteq> '''' then actualPaymentMethod else top_PaymentMethod topUp\<rparr>;
               quotaToAdd = dec_int_mul pe (top_Amount topUp) (env_QuotaPerUnit env)
           in case save_and_credit topUp' (addUserQuota (top_UserId topUp) quotaToAdd) s1 of
                (Inl e, s2) \<Rightarrow> (Inl e, s2)
              | (Inr t, s2) \<Rightarrow> (Inr (Some t), s2))"

definition CompleteEpayTopUp :: "payment_env \<Rightarrow> env \<Rightarrow> string \<Rightarrow> string \<Rightarrow> store \<Rightarrow> error option \<times> store" where
  "CompleteEpayTopUp pe env tradeNo actualPaymentMethod s =
    (case transaction (epay_body pe env tradeNo actualPaymentMethod) s of
       (Inl e, s1) \<Rightarrow> (Some e, s1)
     | (Inr None, s1) \<Rightarrow> (None, s1)
     | (Inr (Some t), s1) \<Rightarrow> (None, emit (RecordLog (top_UserId t)) s1))"

definition close_body :: "string \<Rightarrow> string \<Rightarrow> string \<Rightarrow> store \<Rightarrow> (error + unit) \<times> store" where
  "close_body tradeNo expectedPaymentProvider targetStatus s =
    (case GetTopUpByTradeNo tradeNo s of
       (None, s1) \<Rightarrow> (Inl ErrTopUpNotFound, s1)
     | (Some topUp, s1) \<Rightarrow>
         if expectedPaymentProvider \<noteq> '''' \<and> top_PaymentProvider topUp \<noteq> expectedPaymentProvider
         then (Inl ErrPaymentMethodMismatch, s1)
         else if top_Status topUp \<noteq> ''pending'' then (Inl ErrTopUpStatusInvalid, s1)
         else case TopUp_Update (topUp\<lparr>top_Status := targetStatus\<rparr>) s1 of
           (Some e, s2) \<Rightarrow> (Inl e, s2)
         | (None, s2) \<Rightarrow> (Inr (), s2))"

definition UpdatePendingTopUpStatus :: "string \<Rightarrow> string \<Rightarrow> string \<Rightarrow> store \<Rightarrow> (error + unit) \<times> store" where
  "UpdatePendingTopUpStatus tradeNo expectedPaymentProvider targetStatus s =
    (if tradeNo = '''' then (Inl ErrTradeNoEmpty, s)
     else transaction (close_body tradeNo expectedPaymentProvider targetStatus) s)"

text \<open>Any error inside is reported as the same failure; the cause is only logged.\<close>

definition topup_result :: "(error + TopUp) \<times> store \<Rightarrow> error option \<times> store" where
  "topup_result res =
    (case res of
       (Inl e, s1) \<Rightarrow> (Some (ErrTopUpFailed e), s1)
     | (Inr t, s1) \<Rightarrow> (None, emit (RecordLog (top_UserId t)) s1))"

definition stripe_body :: "payment_env \<Rightarrow> env \<Rightarrow> string \<Rightarrow> string \<Rightarrow> store \<Rightarrow> (error + TopUp) \<times> store" where
  "stripe_body pe env customerId referenceId s =
    (case GetTopUpByTradeNo referenceId s of
       (None, s1) \<Rightarrow> (Inl ErrTopUpNotFound, s1)
     | (Some topUp, s1) \<Rightarrow>
         if top_PaymentProvider topUp \<noteq> ''stripe'' then (Inl ErrPaymentMethodMismatch, s1)
         else if top_Status topUp \<noteq> ''pending'' then (Inl ErrTopUpStatusInvalid, s1)
         else
           let quota = float_mul pe (top_Money topUp) (env_QuotaPerUnit env)
           in save_and_credit (completed env topUp)
                (update_user (top_UserId topUp)
                  (\<lambda>u. u\<lparr>user_StripeCustomer := customerId, user_Quota := column_add pe (user_Quota u) quota\<rparr>)) s1)"

definition Recharge :: "payment_env \<Rightarrow> env \<Rightarrow> string \<Rightarrow> string \<Rightarrow> store \<Rightarrow> error option \<times> store" where
  "Recharge pe env referenceId customerId s =
    (if referenceId = '''' then (Some ErrTradeNoEmpty, s)
     else topup_result (transaction (stripe_body pe env customerId referenceId) s))"

definition manual_quota :: "payment_env \<Rightarrow> env \<Rightarrow> TopUp \<Rightarrow> int" where
  "manual_quota pe env topUp =
    (if top_PaymentProvider topUp = ''stripe'' then dec_float_mul pe (top_Money topUp) (env_QuotaPerUnit env)
     else dec_int_mul pe (top_Amount topUp) (env_QuotaPerUnit env))"

definition manual_body :: "payment_env \<Rightarrow> env \<Rightarrow> string \<Rightarrow> store \<Rightarrow> (error + int) \<times> store" where
  "manual_body pe env tradeNo s =
    (case GetTopUpByTradeNo tradeNo s of
       (None, s1) \<Rightarrow> (Inl ErrTopUpNotFound, s1)
     | (Some topUp, s1) \<Rightarrow>
         if top_Status topUp = ''success'' then (Inr 0, s1)
         else if top_Status topUp \<noteq> ''pending'' then (Inl ErrTopUpStatusInvalid, s1)
         else
           let quotaToAdd = manual_quota pe env topUp
           in if quotaToAdd \<le> 0 then (Inl ErrTopUpQuotaInvalid, s1)
              else case save_and_credit (completed env topUp) (addUserQuota (top_UserId topUp) quotaToAdd) s1 of
                (Inl e, s2) \<Rightarrow> (Inl e, s2)
              | (Inr t, s2) \<Rightarrow> (Inr (top_UserId t), s2))"

text \<open>An order that was already successful is logged for the user 0.\<close>

definition ManualCompleteTopUp :: "payment_env \<Rightarrow> env \<Rightarrow> string \<Rightarrow> store \<Rightarrow> error option \<times> store" where
  "ManualCompleteTopUp pe env tradeNo s =
    (if tradeNo = '''' then (Some ErrTradeNoEmpty, s)
     else case transaction (manual_body pe env tradeNo) s of
       (Inl e, s1) \<Rightarrow> (Some e, s1)
     | (Inr userId, s1) \<Rightarrow> (None, emit (RecordLog userId) s1))"

text \<open>The credit of a Creem order; the mail address is filled in when the user has none.\<close>

definition creem_update :: "string \<Rightarrow> TopUp \<Rightarrow> store \<Rightarrow> (error + (User \<Rightarrow> User)) \<times> store" where
  "creem_update customerEmail topUp s =
    (let add = (\<lambda>u. u\<lparr>user_Quota := user_Quota u + top_Amount topUp\<rparr>)
     in if customerEmail = '''' then (Inr add, s)
        else case find_user (top_UserId topUp) s of
          (Inl e, s1) \<Rightarrow> (Inl e, s1)
        | (Inr user, s1) \<Rightarrow>
            (Inr (if user_Email user = '''' then (\<lambda>u. (add u)\<lparr>user_Email := customerEmail\<rparr>) else add), s1))"

definition creem_body :: "env \<Rightarrow> string \<Rightarrow> string \<Rightarrow> store \<Rightarrow> (error + TopUp) \<times> store" where
  "creem_body env customerEmail referenceId s =
    (case GetTopUpByTradeNo referenceId s of
       (None, s1) \<Rightarrow> (Inl ErrTopUpNotFound, s1)
     | (Some topUp, s1) \<Rightarrow>
         if top_PaymentProvider topUp \<noteq> ''creem'' then (Inl ErrPaymentMethodMismatch, s1)
         else if top_Status topUp \<noteq> ''pending'' then (Inl ErrTopUpStatusInvalid, s1)
         else case TopUp_Update (completed env topUp) s1 of
           (Some e, s2) \<Rightarrow> (Inl e, s2)
         | (None, s2) \<Rightarrow>
            (case creem_update customerEmail topUp s2 of
               (Inl e, s3) \<Rightarrow> (Inl e, s3)
             | (Inr f, s3) \<Rightarrow>
                (case update_user (top_UserId topUp) f s3 of
                   (Some e, s4) \<Rightarrow> (Inl e, s4)
                 | (None, s4) \<Rightarrow> (Inr topUp, s4))))"

definition RechargeCreem :: "env \<Rightarrow> string \<Rightarrow> string \<Rightarrow> store \<Rightarrow> error option \<times> store" where
  "RechargeCreem env referenceId customerEmail s =
    (if referenceId = '''' then (Some ErrTradeNoEmpty, s)
     else topup_result (transaction (creem_body env customerEmail referenceId) s))"

text \<open>Waffo and Waffo Pancake differ in the provider they accept.\<close>

definition waffo_body ::
    "payment_env \<Rightarrow> env \<Rightarrow> string \<Rightarrow> string \<Rightarrow> store \<Rightarrow> (error + TopUp option) \<times> store" where
  "waffo_body pe env provider tradeNo s =
    (case GetTopUpByTradeNo tradeNo s of
       (None, s1) \<Rightarrow> (Inl ErrTopUpNotFound, s1)
     | (Some topUp, s1) \<Rightarrow>
         if top_PaymentProvider topUp \<noteq> provider then (Inl ErrPaymentMethodMismatch, s1)
         else if top_Status topUp = ''success'' then (Inr None, s1)
         else if top_Status topUp \<noteq> ''pending'' then (Inl ErrTopUpStatusInvalid, s1)
         else
           let quotaToAdd = dec_int_mul pe (top_Amount topUp) (env_QuotaPerUnit env)
           in if quotaToAdd \<le> 0 then (Inl ErrTopUpQuotaInvalid, s1)
              else case save_and_credit (completed env topUp) (addUserQuota (top_UserId topUp) quotaToAdd) s1 of
                (Inl e, s2) \<Rightarrow> (Inl e, s2)
              | (Inr t, s2) \<Rightarrow> (Inr (Some t), s2))"

definition waffo_result :: "(error + TopUp option) \<times> store \<Rightarrow> error option \<times> store" where
  "waffo_result res =
    (case res of
       (Inl e, s1) \<Rightarrow> (Some (ErrTopUpFailed e), s1)
     | (Inr None, s1) \<Rightarrow> (None, s1)
     | (Inr (Some t), s1) \<Rightarrow> (None, emit (RecordLog (top_UserId t)) s1))"

definition RechargeWaffo :: "payment_env \<Rightarrow> env \<Rightarrow> string \<Rightarrow> store \<Rightarrow> error option \<times> store" where
  "RechargeWaffo pe env tradeNo s =
    (if tradeNo = '''' then (Some ErrTradeNoEmpty, s)
     else waffo_result (transaction (waffo_body pe env ''waffo'' tradeNo) s))"

definition RechargeWaffoPancake :: "payment_env \<Rightarrow> env \<Rightarrow> string \<Rightarrow> store \<Rightarrow> error option \<times> store" where
  "RechargeWaffoPancake pe env tradeNo s =
    (if tradeNo = '''' then (Some ErrTradeNoEmpty, s)
     else waffo_result (transaction (waffo_body pe env ''waffo_pancake'' tradeNo) s))"

subsection \<open>Listing\<close>

definition topUpQueryWindowSeconds :: int where
  "topUpQueryWindowSeconds = 30 * 24 * 60 * 60"

definition topUpQueryCutoff :: "env \<Rightarrow> int" where
  "topUpQueryCutoff env = GetTimestamp env - topUpQueryWindowSeconds"

definition recent_of :: "env \<Rightarrow> int \<Rightarrow> TopUp \<Rightarrow> bool" where
  "recent_of env userId t \<longleftrightarrow> top_UserId t = userId \<and> topUpQueryCutoff env \<le> top_CreateTime t"

definition GetUserTopUps :: "env \<Rightarrow> int \<Rightarrow> PageInfo \<Rightarrow> store \<Rightarrow> (error + TopUp list \<times> int) \<times> store" where
  "GetUserTopUps env userId p s =
    paged_tx ErrDB (\<lambda>t. filter (recent_of env userId) (topups t)) top_Id (GetStartIdx p) (GetPageSize p) s"

definition GetAllTopUps :: "PageInfo \<Rightarrow> store \<Rightarrow> (error + TopUp list \<times> int) \<times> store" where
  "GetAllTopUps p s = paged_tx ErrDB topups top_Id (GetStartIdx p) (GetPageSize p) s"

text \<open>A search by trade number; an empty text filters nothing, a bad one is refused.\<close>

definition search_topups ::
    "(string \<Rightarrow> string \<Rightarrow> bool) \<Rightarrow> (TopUp \<Rightarrow> bool) \<Rightarrow> string \<Rightarrow> PageInfo \<Rightarrow> store \<Rightarrow> (error + TopUp list \<times> int) \<times> store" where
  "search_topups like P keyword p s =
    (case stmt s of
       (False, s1) \<Rightarrow> (Inl ErrDB, s1)
     | (True, s1) \<Rightarrow>
        (case (if keyword = '''' then Inr (\<lambda>_. True)
               else case sanitizeLikePattern keyword of Inl e \<Rightarrow> Inl e | Inr pat \<Rightarrow> Inr (\<lambda>t. like (top_TradeNo t) pat)) of
           Inl e \<Rightarrow> (Inl e, s1)
         | Inr Q \<Rightarrow>
             paged_query ErrSearchTopUps (\<lambda>t. filter (\<lambda>x. P x \<and> Q x) (topups t)) top_Id (GetStartIdx p) (GetPageSize p) s1))"

definition SearchUserTopUps ::
    "(string \<Rightarrow> string \<Rightarrow> bool) \<Rightarrow> env \<Rightarrow> int \<Rightarrow> string \<Rightarrow> PageInfo \<Rightarrow> store \<Rightarrow> (error + TopUp list \<times> int) \<times> store" where
  "SearchUserTopUps like env userId keyword p s = search_topups like (recent_of env userId) keyword p s"

definition SearchAllTopUps ::
    "(string \<Rightarrow> string \<Rightarrow> bool) \<Rightarrow> string \<Rightarrow> PageInfo \<Rightarrow> store \<Rightarrow> (error + TopUp list \<times> int) \<times> store" where
  "SearchAllTopUps like keyword p s = search_topups like (\<lambda>_. True) keyword p s"

section \<open>Subscription orders\<close>

definition set_orders :: "(SubscriptionOrder list \<Rightarrow> SubscriptionOrder list) \<Rightarrow> store \<Rightarrow> store" where
  "set_orders f s = s\<lparr>db := (db s)\<lparr>orders := f (orders (db s))\<rparr>\<rparr>"

definition create_order :: "SubscriptionOrder \<Rightarrow> store \<Rightarrow> error option \<times> store" where
  "create_order order s =
    (case stmt s of
       (False, s1) \<Rightarrow> (Some ErrDB, s1)
     | (True, s1) \<Rightarrow>
         if row ord_TradeNo (orders (db s1)) (ord_TradeNo order) \<noteq> None then (Some ErrDB, s1)
         else case fresh_id s1 of
                (i, s2) \<Rightarrow> (None, set_orders (\<lambda>os. os @ [order\<lparr>ord_Id := i\<rparr>]) s2))"

definition Order_Insert :: "env \<Rightarrow> SubscriptionOrder \<Rightarrow> store \<Rightarrow> error option \<times> store" where
  "Order_Insert env order s =
    create_order (if ord_CreateTime order = 0 then order\<lparr>ord_CreateTime := GetTimestamp env\<rparr> else order) s"

definition Order_Update :: "SubscriptionOrder \<Rightarrow> store \<Rightarrow> error option \<times> store" where
  "Order_Update order s =
    (case stmt s of
       (False, s1) \<Rightarrow> (Some ErrDB, s1)
     | (True, s1) \<Rightarrow> (None, set_orders (save_row ord_Id order) s1))"

definition find_order :: "string \<Rightarrow> store \<Rightarrow> SubscriptionOrder option \<times> store" where
  "find_order tradeNo s =
    (case stmt s of (False, s1) \<Rightarrow> (None, s1) | (True, s1) \<Rightarrow> (row ord_TradeNo (orders (db s1)) tradeNo, s1))"

definition GetSubscriptionOrderByTradeNo :: "string \<Rightarrow> store \<Rightarrow> SubscriptionOrder option \<times> store" where
  "GetSubscriptionOrderByTradeNo tradeNo s = (if tradeNo = '''' then (None, s) else find_order tradeNo s)"

definition GetPendingEpaySubscriptionOrders ::
    "env \<Rightarrow> int \<Rightarrow> int \<Rightarrow> int \<Rightarrow> store \<Rightarrow> (error + SubscriptionOrder list) \<times> store" where
  "GetPendingEpaySubscriptionOrders env limit minAgeSeconds maxAgeSeconds s =
    (let limit' = (if limit \<le> 0 \<or> 1000 < limit then 100 else limit)
     in case stmt s of
          (False, s1) \<Rightarrow> (Inl ErrDB, s1)
        | (True, s1) \<Rightarrow>
            (Inr (take (nat limit') (sort_by (\<lambda>a b. ord_Id a < ord_Id b)
              (filter (\<lambda>t. pending_epay (GetTimestamp env) minAgeSeconds maxAgeSeconds
                  (ord_Status t) (ord_PaymentProvider t) (ord_CreateTime t)) (orders (db s1))))), s1))"

definition upsertSubscriptionTopUpTx :: "env \<Rightarrow> SubscriptionOrder \<Rightarrow> store \<Rightarrow> error option \<times> store" where
  "upsertSubscriptionTopUpTx env order s =
    (case stmt s of
       (False, s1) \<Rightarrow> (Some ErrDB, s1)
     | (True, s1) \<Rightarrow>
        (case row top_TradeNo (topups (db s1)) (ord_TradeNo order) of
           None \<Rightarrow>
             TopUp_Insert \<lparr>top_Id = 0, top_UserId = ord_UserId order, top_Amount = 0, top_Money = ord_Money order,
               top_TradeNo = ord_TradeNo order, top_PaymentMethod = ord_PaymentMethod order, top_PaymentProvider = '''',
               top_CreateTime = ord_CreateTime order, top_CompleteTime = GetTimestamp env, top_Status = ''success''\<rparr> s1
         | Some topup \<Rightarrow>
             if top_PaymentMethod topup \<noteq> '''' \<and> top_PaymentMethod topup \<noteq> ord_PaymentMethod order
             then (Some ErrPaymentMethodMismatch, s1)
             else TopUp_Update (topup\<lparr>top_Money := ord_Money order, top_PaymentMethod := ord_PaymentMethod order,
               top_CreateTime := (if top_CreateTime topup = 0 then ord_CreateTime order else top_CreateTime topup),
               top_CompleteTime := GetTimestamp env, top_Status := ''success''\<rparr>) s1))"

definition finished_order :: "env \<Rightarrow> string \<Rightarrow> string \<Rightarrow> SubscriptionOrder \<Rightarrow> SubscriptionOrder" where
  "finished_order env providerPayload actualPaymentMethod order =
    order\<lparr>ord_Status := ''success'', ord_CompleteTime := GetTimestamp env,
      ord_ProviderPayload := (if providerPayload \<noteq> '''' then providerPayload else ord_ProviderPayload order),
      ord_PaymentMethod := (if actualPaymentMethod \<noteq> '''' then actualPaymentMethod else ord_PaymentMethod order)\<rparr>"

definition order_body ::
    "env \<Rightarrow> string \<Rightarrow> string \<Rightarrow> string \<Rightarrow> string \<Rightarrow> store \<Rightarrow> (error + (int \<times> string) option) \<times> store" where
  "order_body env tradeNo providerPayload expectedPaymentProvider actualPaymentMethod s =
    (case find_order tradeNo s of
       (None, s1) \<Rightarrow> (Inl ErrSubscriptionOrderNotFound, s1)
     | (Some order, s1) \<Rightarrow>
         if expectedPaymentProvider \<noteq> '''' \<and> ord_PaymentProvider order \<noteq> expectedPaymentProvider
         then (Inl ErrPaymentMethodMismatch, s1)
         else if ord_Status order = ''success'' then (Inr None, s1)
         else if ord_Status order \<noteq> ''pending'' then (Inl ErrSubscriptionOrderStatusInvalid, s1)
         else case getSubscriptionPlanByIdTx env (ord_PlanId order) s1 of
           (Inl e, s2) \<Rightarrow> (Inl e, s2)
         | (Inr plan, s2) \<Rightarrow>
            (case CreateUserSubscriptionFromPlanTx env (ord_UserId order) plan ''order'' s2 of
               (Inl e, s3) \<Rightarrow> (Inl e, s3)
             | (Inr _, s3) \<Rightarrow>
                (case upsertSubscriptionTopUpTx env order s3 of
                   (Some e, s4) \<Rightarrow> (Inl e, s4)
                 | (None, s4) \<Rightarrow>
                    (case Order_Update (finished_order env providerPayload actualPaymentMethod order) s4 of
                       (Some e, s5) \<Rightarrow> (Inl e, s5)
                     | (None, s5) \<Rightarrow> (Inr (Some (ord_UserId order, TrimSpace (plan_UpgradeGroup plan))), s5)))))"

definition CompleteSubscriptionOrder ::
    "env \<Rightarrow> string \<Rightarrow> string \<Rightarrow> string \<Rightarrow> string \<Rightarrow> store \<Rightarrow> error option \<times> store" where
  "CompleteSubscriptionOrder env tradeNo providerPayload expectedPaymentProvider actualPaymentMethod s =
    (if tradeNo = '''' then (Some ErrTradeNoEmpty, s)
     else case transaction (order_body env tradeNo providerPayload expectedPaymentProvider actualPaymentMethod) s of
       (Inl e, s1) \<Rightarrow> (Some e, s1)
     | (Inr None, s1) \<Rightarrow> (None, s1)
     | (Inr (Some (userId, upgradeGroup)), s1) \<Rightarrow>
         (None,
          let s2 = (if upgradeGroup \<noteq> '''' \<and> 0 < userId then UpdateUserGroupCache env userId upgradeGroup s1 else s1)
          in if 0 < userId then emit (RecordLog userId) s2 else s2))"

definition ExpireSubscriptionOrder :: "env \<Rightarrow> string \<Rightarrow> string \<Rightarrow> store \<Rightarrow> (error + unit) \<times> store" where
  "ExpireSubscriptionOrder env tradeNo expectedPaymentProvider s =
    (if tradeNo = '''' then (Inl ErrTradeNoEmpty, s)
     else transaction (\<lambda>s0.
       (case find_order tradeNo s0 of
          (None, s1) \<Rightarrow> (Inl ErrSubscriptionOrderNotFound, s1)
        | (Some order, s1) \<Rightarrow>
            if expectedPaymentProvider \<noteq> '''' \<and> ord_PaymentProvider order \<noteq> expectedPaymentProvider
            then (Inl ErrPaymentMethodMismatch, s1)
            else if ord_Status order \<noteq> ''pending'' then (Inr (), s1)
            else case Order_Update (order\<lparr>ord_Status := ''expired'', ord_CompleteTime := GetTimestamp env\<rparr>) s1 of
              (Some e, s2) \<Rightarrow> (Inl e, s2)
            | (None, s2) \<Rightarrow> (Inr (), s2))) s)"

section \<open>Buying with the wallet\<close>

fun float_neg :: "float64 \<Rightarrow> bool" where
  "float_neg (Fin r) \<longleftrightarrow> r < 0"
| "float_neg NegInf \<longleftrightarrow> True"
| "float_neg PosInf \<longleftrightarrow> False"
| "float_neg NaN \<longleftrightarrow> False"

definition calcSubscriptionBalanceQuota :: "payment_env \<Rightarrow> env \<Rightarrow> float64 \<Rightarrow> error + int" where
  "calcSubscriptionBalanceQuota pe env priceAmount =
    (if float_le priceAmount 0 then Inr 0
     else if env_QuotaPerUnit env \<le> 0 then Inl ErrQuotaUnitConfig
     else Inr (dec_float_mul_ceil pe priceAmount (env_QuotaPerUnit env)))"

definition charge_wallet :: "int \<Rightarrow> int \<Rightarrow> store \<Rightarrow> error option \<times> store" where
  "charge_wallet userId requiredQuota s =
    (if requiredQuota \<le> 0 then (None, s)
     else case stmt s of
       (False, s1) \<Rightarrow> (Some ErrDB, s1)
     | (True, s1) \<Rightarrow>
         (None, set_users (upd_row user_Id userId (\<lambda>u. u\<lparr>user_Quota := user_Quota u - requiredQuota\<rparr>)) s1))"

definition balance_order :: "env \<Rightarrow> string \<Rightarrow> int \<Rightarrow> SubscriptionPlan \<Rightarrow> int \<Rightarrow> SubscriptionOrder" where
  "balance_order env tradeNo userId plan requiredQuota =
    \<lparr>ord_Id = 0, ord_UserId = userId, ord_PlanId = plan_Id plan, ord_Money = plan_PriceAmount plan,
     ord_TradeNo = tradeNo, ord_PaymentMethod = ''balance'', ord_PaymentProvider = ''balance'', ord_Status = ''success'',
     ord_CreateTime = GetTimestamp env, ord_CompleteTime = GetTimestamp env,
     ord_ProviderPayload = ''charged_quota='' @ Itoa requiredQuota\<rparr>"

text \<open>The random trade number is an argument.\<close>

definition purchase_body ::
    "payment_env \<Rightarrow> env \<Rightarrow> string \<Rightarrow> int \<Rightarrow> int \<Rightarrow> store \<Rightarrow> (error + int \<times> string) \<times> store" where
  "purchase_body pe env tradeNo userId planId s =
    (case getSubscriptionPlanByIdTx env planId s of
       (Inl e, s1) \<Rightarrow> (Inl e, s1)
     | (Inr plan, s1) \<Rightarrow>
         if \<not> plan_Enabled plan then (Inl ErrPlanDisabled, s1)
         else if float_neg (plan_PriceAmount plan) then (Inl ErrPlanPriceNegative, s1)
         else if plan_AllowBalancePay plan = Some False then (Inl ErrBalancePayNotAllowed, s1)
         else case calcSubscriptionBalanceQuota pe env (plan_PriceAmount plan) of
           Inl e \<Rightarrow> (Inl e, s1)
         | Inr requiredQuota \<Rightarrow>
            (case find_user userId s1 of
               (Inl e, s2) \<Rightarrow> (Inl e, s2)
             | (Inr user, s2) \<Rightarrow>
                 if 0 < requiredQuota \<and> user_Quota user < requiredQuota then (Inl ErrBalanceInsufficient, s2)
                 else case charge_wallet userId requiredQuota s2 of
                   (Some e, s3) \<Rightarrow> (Inl e, s3)
                 | (None, s3) \<Rightarrow>
                    (case CreateUserSubscriptionFromPlanTx env userId plan ''balance'' s3 of
                       (Inl e, s4) \<Rightarrow> (Inl e, s4)
                     | (Inr _, s4) \<Rightarrow>
                        (case create_order (balance_order env tradeNo userId plan requiredQuota) s4 of
                           (Some e, s5) \<Rightarrow> (Inl e, s5)
                         | (None, s5) \<Rightarrow> (Inr (requiredQuota, TrimSpace (plan_UpgradeGroup plan)), s5)))))"

definition PurchaseSubscriptionWithBalance ::
    "payment_env \<Rightarrow> env \<Rightarrow> string \<Rightarrow> int \<Rightarrow> int \<Rightarrow> store \<Rightarrow> error option \<times> store" where
  "PurchaseSubscriptionWithBalance pe env tradeNo userId planId s =
    (if userId \<le> 0 \<or> planId \<le> 0 then (Some ErrInvalidUserOrPlanId, s)
     else case transaction (purchase_body pe env tradeNo userId planId) s of
       (Inl e, s1) \<Rightarrow> (Some e, s1)
     | (Inr (chargedQuota, upgradeGroup), s1) \<Rightarrow>
         (None,
          let s2 = (if 0 < chargedQuota \<and> RedisEnabled env then emit (CacheIncrUserQuota userId (- chargedQuota)) s1 else s1);
              s3 = (if upgradeGroup \<noteq> '''' then UpdateUserGroupCache env userId upgradeGroup s2 else s2)
          in emit (RecordLog userId) s3))"

section \<open>Completing an order\<close>

definition quota_of :: "store \<Rightarrow> int \<Rightarrow> int" where
  "quota_of s u = (case row user_Id (users (db s)) u of None \<Rightarrow> 0 | Some x \<Rightarrow> user_Quota x)"

definition paid :: "string \<Rightarrow> store \<Rightarrow> bool" where
  "paid tradeNo s \<longleftrightarrow>
    (case row top_TradeNo (topups (db s)) tradeNo of None \<Rightarrow> False | Some t \<Rightarrow> top_Status t = ''success'')"

definition topups_ok :: "store \<Rightarrow> bool" where
  "topups_ok s \<longleftrightarrow> distinct (map top_Id (topups (db s))) \<and> distinct (map top_TradeNo (topups (db s)))
     \<and> (\<forall>t \<in> set (topups (db s)). top_Id t < next_id (db s))"

text \<open>
  The pending order with the trade number has become successful, its owner has been given
  the credit, and nothing else in the two tables has changed.
\<close>

definition credits_order :: "(TopUp \<Rightarrow> int \<Rightarrow> int) \<Rightarrow> string \<Rightarrow> store \<Rightarrow> store \<Rightarrow> bool" where
  "credits_order credit tradeNo s s' \<longleftrightarrow>
    (\<exists>t t' f. row top_TradeNo (topups (db s)) tradeNo = Some t \<and> top_Status t = ''pending''
       \<and> top_Status t' = ''success'' \<and> top_Id t' = top_Id t \<and> top_TradeNo t' = tradeNo
       \<and> topups (db s') = save_row top_Id t' (topups (db s)) \<and> next_id (db s') = next_id (db s)
       \<and> row user_Id (users (db s)) (top_UserId t) \<noteq> None
       \<and> users (db s') = upd_row user_Id (top_UserId t) f (users (db s))
       \<and> (\<forall>u. user_Id (f u) = user_Id u \<and> user_Quota (f u) = credit t (user_Quota u)))"

lemma save_existing:
  "row key1 ts (key1 t) \<noteq> None \<Longrightarrow> save_row key1 t ts = upd_row key1 (key1 t) (\<lambda>_. t) ts"
  by (auto simp: save_row_def)

lemma row_upd_other:
  assumes "distinct (map key1 ts)" "row key2 ts k = Some t" "key1 t' = key1 t" "key2 t' = k"
  shows "row key2 (upd_row key1 (key1 t) (\<lambda>_. t') ts) j = (if j = k then Some t' else row key2 ts j)"
  using assms
proof (induction ts)
  case (Cons x ts)
  show ?case
  proof (cases "key2 x = k")
    case True
    then have x: "x = t" using Cons.prems(2) by simp
    then have "upd_row key1 (key1 t) (\<lambda>_. t') ts = ts"
      using Cons.prems(1) by (induction ts) auto
    then show ?thesis using x True Cons.prems(4) by auto
  next
    case False
    then have "row key2 ts k = Some t" using Cons.prems(2) by simp
    moreover then have "key1 x \<noteq> key1 t" using Cons.prems(1) row_mem [of key2 ts k t] by auto
    ultimately show ?thesis using Cons.IH Cons.prems False by auto
  qed
qed simp

lemma row_save_other:
  assumes "distinct (map key1 ts)" "row key2 ts k = Some t" "key1 t' = key1 t" "key2 t' = k"
  shows "row key2 (save_row key1 t' ts) j = (if j = k then Some t' else row key2 ts j)"
proof -
  have "row key1 ts (key1 t) \<noteq> None" using row_mem [OF assms(2)] by (auto simp: row_None_iff)
  then have "save_row key1 t' ts = upd_row key1 (key1 t) (\<lambda>_. t') ts" using assms(3) by (auto simp: save_row_def)
  then show ?thesis using row_upd_other [OF assms] by simp
qed

lemma map_save_other:
  assumes "distinct (map key1 ts)" "row key2 ts k = Some t" "key1 t' = key1 t" "key2 t' = k"
  shows "map key2 (save_row key1 t' ts) = map key2 ts" "map key1 (save_row key1 t' ts) = map key1 ts"
proof -
  have "row key1 ts (key1 t) \<noteq> None" using row_mem [OF assms(2)] by (auto simp: row_None_iff)
  then have s: "save_row key1 t' ts = upd_row key1 (key1 t) (\<lambda>_. t') ts" using assms(3) by (auto simp: save_row_def)
  have "key2 x = k" if "x \<in> set ts" "key1 x = key1 t" for x
    using that assms(1) row_mem [OF assms(2)] row_key [OF assms(2)] by (metis distinct_map inj_onD)
  then show "map key2 (save_row key1 t' ts) = map key2 ts" unfolding s upd_row_def using assms(4) by auto
  show "map key1 (save_row key1 t' ts) = map key1 ts" unfolding s upd_row_def using assms(3) by auto
qed

lemma credits_orderD:
  assumes "credits_order credit tradeNo s s'" "topups_ok s"
  shows "topups_ok s'" "\<not> paid tradeNo s" "paid tradeNo s'" "k \<noteq> tradeNo \<Longrightarrow> paid k s' = paid k s"
    "\<exists>t. row top_TradeNo (topups (db s)) tradeNo = Some t \<and> (\<forall>u. quota_of s' u
      = (if u = top_UserId t then credit t (quota_of s u) else quota_of s u))"
proof -
  obtain t t' f where t: "row top_TradeNo (topups (db s)) tradeNo = Some t" "top_Status t = ''pending''"
    and t': "top_Status t' = ''success''" "top_Id t' = top_Id t" "top_TradeNo t' = tradeNo"
    and s': "topups (db s') = save_row top_Id t' (topups (db s))" "next_id (db s') = next_id (db s)"
      "row user_Id (users (db s)) (top_UserId t) \<noteq> None" "users (db s') = upd_row user_Id (top_UserId t) f (users (db s))"
    and f: "\<And>u. user_Id (f u) = user_Id u" "\<And>u. user_Quota (f u) = credit t (user_Quota u)"
    using assms(1) unfolding credits_order_def by blast
  have d: "distinct (map top_Id (topups (db s)))" "distinct (map top_TradeNo (topups (db s)))"
    "\<forall>t \<in> set (topups (db s)). top_Id t < next_id (db s)" using assms(2) by (auto simp: topups_ok_def)
  note r = row_save_other [OF d(1) t(1) t'(2,3)] and m = map_save_other [OF d(1) t(1) t'(2,3)]
  have "\<forall>x \<in> set (save_row top_Id t' (topups (db s))). top_Id x < next_id (db s)"
    using d(3) t'(2) row_mem [OF t(1)] set_save_row [of top_Id t' "topups (db s)"] by fastforce
  then show "topups_ok s'" unfolding topups_ok_def s'(1,2) m using d by simp
  show "\<not> paid tradeNo s" "paid tradeNo s'" "k \<noteq> tradeNo \<Longrightarrow> paid k s' = paid k s"
    using t t' s'(1) r by (simp_all add: paid_def)
  have "row user_Id (users (db s')) u = (if u = top_UserId t then map_option f (row user_Id (users (db s)) u)
      else row user_Id (users (db s)) u)" for u
    unfolding s'(4) by (rule row_upd_row) (simp add: f)
  then show "\<exists>t. row top_TradeNo (topups (db s)) tradeNo = Some t \<and> (\<forall>u. quota_of s' u
      = (if u = top_UserId t then credit t (quota_of s u) else quota_of s u))"
    using t(1) s'(3) f(2) by (auto simp: quota_of_def split: option.splits)
qed

text \<open>
  What a caller relies on when it completes an order: an error leaves every table as it was; success
  means that the order was completed now, with its credit, or had been completed before, and then nothing
  has changed.
\<close>

locale order_completion =
  fixes complete :: "string \<Rightarrow> store \<Rightarrow> error option \<times> store"
    and credit :: "TopUp \<Rightarrow> int \<Rightarrow> int"
  assumes complete_err: "complete tradeNo s = (Some e, s') \<Longrightarrow> db s' = db s"
    and complete_ok: "complete tradeNo s = (None, s') \<Longrightarrow>
      db s' = db s \<and> paid tradeNo s \<or> credits_order credit tradeNo s s'"
begin

lemma complete_cases:
  "db (snd (complete tradeNo s)) = db s \<or> credits_order credit tradeNo s (snd (complete tradeNo s))"
proof (cases "complete tradeNo s")
  case (Pair r s')
  then show ?thesis
  proof (cases r)
    case None
    then show ?thesis using complete_ok [of tradeNo s s'] Pair by auto
  next
    case (Some e)
    then show ?thesis using complete_err [of tradeNo s e s'] Pair by simp
  qed
qed

lemma complete_paid:
  assumes "complete tradeNo s = (None, s')" "topups_ok s"
  shows "paid tradeNo s'"
  using complete_ok [OF assms(1)]
proof
  assume "db s' = db s \<and> paid tradeNo s"
  then show ?thesis by (simp add: paid_def)
next
  assume "credits_order credit tradeNo s s'"
  then show ?thesis using assms(2) by (rule credits_orderD(3))
qed

lemma complete_again:
  assumes "paid tradeNo s" "topups_ok s"
  shows "db (snd (complete tradeNo s)) = db s"
  using complete_cases [of tradeNo s]
proof
  assume "credits_order credit tradeNo s (snd (complete tradeNo s))"
  then have "\<not> paid tradeNo s" using assms(2) by (rule credits_orderD(2))
  then show ?thesis using assms(1) by simp
qed

end

lemma TopUp_Update_eq:
  "TopUp_Update t s = (if fst (stmt s) then (None, set_topups (save_row top_Id t) (snd (stmt s))) else (Some ErrDB, snd (stmt s)))"
  by (simp add: TopUp_Update_def case_stmt)

lemma save_and_credit_ok:
  assumes "save_and_credit t' (update_user u f) s = (Inr r, s')"
  shows "topups (db s') = save_row top_Id t' (topups (db s)) \<and> next_id (db s') = next_id (db s)
     \<and> row user_Id (users (db s)) u \<noteq> None \<and> users (db s') = upd_row user_Id u f (users (db s))"
proof (cases "fst (stmt s)")
  case True
  let ?s = "set_topups (save_row top_Id t') (snd (stmt s))"
  have d: "db ?s = (db s)\<lparr>topups := save_row top_Id t' (topups (db s))\<rparr>" by (simp add: set_topups_def)
  have "(case update_user u f ?s of (Some e, s2) \<Rightarrow> (Inl e, s2) | (None, s2) \<Rightarrow> (Inr t', s2)) = (Inr r, s')"
    using assms True by (simp add: save_and_credit_def TopUp_Update_eq)
  then show ?thesis by (auto simp: update_user_eq d split: if_splits)
qed (use assms in \<open>simp add: save_and_credit_def TopUp_Update_eq\<close>)

lemma GetTopUpByTradeNo_eq:
  "GetTopUpByTradeNo tradeNo s = (if fst (stmt s) then row top_TradeNo (topups (db s)) tradeNo else None, snd (stmt s))"
  by (simp add: GetTopUpByTradeNo_def case_stmt)

lemma credits_order_db: "db s1 = db s \<Longrightarrow> db s2 = db s' \<Longrightarrow> credits_order c k s1 s2 = credits_order c k s s'"
  by (simp add: credits_order_def)

lemma paid_db: "db s = db s' \<Longrightarrow> paid k s = paid k s'"
  by (simp add: paid_def)

lemma credits_orderI:
  assumes "row top_TradeNo (topups (db s)) tradeNo = Some t" "top_Status t = ''pending''"
    and "top_Status t' = ''success''" "top_Id t' = top_Id t" "top_TradeNo t' = top_TradeNo t"
    and "save_and_credit t' (update_user (top_UserId t) f) sr = (Inr r, s1)" "db sr = db s"
    and "\<And>u. user_Id (f u) = user_Id u \<and> user_Quota (f u) = credit t (user_Quota u)"
  shows "credits_order credit tradeNo s s1"
  unfolding credits_order_def
  using save_and_credit_ok [OF assms(6)] assms(1-5,7,8) row_key [OF assms(1)]
  by (intro exI [of _ t] exI [of _ t'] exI [of _ f]) simp

lemma addUserQuota_update:
  "addUserQuota u q = update_user u (\<lambda>x. x\<lparr>user_Quota := user_Quota x + q\<rparr>)"
  by (rule ext) (simp add: addUserQuota_def)

lemma credits_order_addI:
  assumes "row top_TradeNo (topups (db s)) tradeNo = Some t" "top_Status t = ''pending''"
    and "top_Status t' = ''success''" "top_Id t' = top_Id t" "top_TradeNo t' = top_TradeNo t"
    and c: "(case save_and_credit t' (addUserQuota (top_UserId t) (amount t)) sr of
        (Inl e, s2) \<Rightarrow> (Inl e, s2) | (Inr x, s2) \<Rightarrow> (Inr (g x), s2)) = (Inr r, s1)"
    and "db sr = db s"
  shows "credits_order (\<lambda>t q. q + amount t) tradeNo s s1"
proof -
  obtain x s2 where x: "save_and_credit t' (addUserQuota (top_UserId t) (amount t)) sr = (x, s2)" by fastforce
  then obtain z where "x = Inr z" "s2 = s1" using c by (cases x) auto
  then have "save_and_credit t' (update_user (top_UserId t) (\<lambda>x. x\<lparr>user_Quota := user_Quota x + amount t\<rparr>)) sr = (Inr z, s1)"
    using x by (simp add: addUserQuota_update)
  then show ?thesis by (rule credits_orderI [OF assms(1-5) _ assms(7)]) simp
qed

lemma completed_sel [simp]:
  "top_Status (completed env t) = ''success''" "top_Id (completed env t) = top_Id t"
  "top_TradeNo (completed env t) = top_TradeNo t" "top_UserId (completed env t) = top_UserId t"
  by (simp_all add: completed_def)

text \<open>
  A completion runs in one transaction; this lifts what its body does to the whole call.
\<close>

definition body_ok :: "(TopUp \<Rightarrow> int \<Rightarrow> int) \<Rightarrow> (string \<Rightarrow> store \<Rightarrow> (error + 'a) \<times> store) \<Rightarrow> bool" where
  "body_ok credit body \<longleftrightarrow> (\<forall>k s r s1. body k s = (Inr r, s1) \<longrightarrow>
     db s1 = db s \<and> paid k s \<or> credits_order credit k s s1)"

lemma completion_ok:
  assumes "body_ok credit body" "transaction (body k) s = (Inr r, s1)" "db s' = db s1"
  shows "db s' = db s \<and> paid k s \<or> credits_order credit k s s'"
proof -
  obtain s2 where b: "body k (snd (stmt s)) = (Inr r, s2)" "db s1 = db s2" using transaction_okD [OF assms(2)] by blast
  then have e: "db s' = db s2" using assms(3) by simp
  have "db s2 = db (snd (stmt s)) \<and> paid k (snd (stmt s)) \<or> credits_order credit k (snd (stmt s)) s2"
    using assms(1) b(1) unfolding body_ok_def by blast
  then show ?thesis using credits_order_db [OF stmt_db e [symmetric], of credit k s] e paid_db [OF stmt_db, of k s] by auto
qed

lemma body_okI:
  assumes "\<And>k s r s1 t. fst (stmt s) \<Longrightarrow> row top_TradeNo (topups (db s)) k = Some t \<Longrightarrow> body k s = (Inr r, s1) \<Longrightarrow>
      db s1 = db s \<and> top_Status t = ''success'' \<or> credits_order credit k s s1"
    and "\<And>k s. \<not> fst (stmt s) \<or> row top_TradeNo (topups (db s)) k = None \<Longrightarrow> \<exists>e s1. body k s = (Inl e, s1)"
  shows "body_ok credit body"
  unfolding body_ok_def
proof (intro allI impI)
  fix k s r s1 assume b: "body k s = (Inr r, s1)"
  then obtain t where "fst (stmt s)" "row top_TradeNo (topups (db s)) k = Some t" using assms(2) [of s k] by fastforce
  then show "db s1 = db s \<and> paid k s \<or> credits_order credit k s s1"
    using assms(1) [OF _ _ b] by (auto simp: paid_def)
qed

lemma epay_body_ok: "body_ok (\<lambda>t q. q + dec_int_mul pe (top_Amount t) (env_QuotaPerUnit env)) (\<lambda>k. epay_body pe env k pm)"
proof (rule body_okI)
  fix k s r s1 t
  assume up: "fst (stmt s)" and t: "row top_TradeNo (topups (db s)) k = Some t" and b: "epay_body pe env k pm s = (Inr r, s1)"
  show "db s1 = db s \<and> top_Status t = ''success''
      \<or> credits_order (\<lambda>t q. q + dec_int_mul pe (top_Amount t) (env_QuotaPerUnit env)) k s s1"
  proof (cases "top_Status t = ''pending'' \<and> top_PaymentProvider t = ''epay''")
    case True
    have "credits_order (\<lambda>t q. q + dec_int_mul pe (top_Amount t) (env_QuotaPerUnit env)) k s s1"
      by (rule credits_order_addI [OF t, where sr = "snd (stmt s)" and g = Some and r = r and t' =
            "(completed env t)\<lparr>top_PaymentMethod := if pm \<noteq> '''' then pm else top_PaymentMethod t\<rparr>"])
        (use b up t True in \<open>simp_all add: epay_body_def GetTopUpByTradeNo_eq Let_def\<close>)
    then show ?thesis ..
  qed (use b up t in \<open>auto simp: epay_body_def GetTopUpByTradeNo_eq split: if_splits\<close>)
qed (auto simp: epay_body_def GetTopUpByTradeNo_eq)

interpretation epay: order_completion "\<lambda>k. CompleteEpayTopUp pe env k pm"
  "\<lambda>t q. q + dec_int_mul pe (top_Amount t) (env_QuotaPerUnit env)" for pe env pm
proof
  fix k s e s' assume "CompleteEpayTopUp pe env k pm s = (Some e, s')"
  then have "transaction (epay_body pe env k pm) s = (Inl e, s')"
    by (auto simp: CompleteEpayTopUp_def split: prod.splits sum.splits option.splits)
  then show "db s' = db s" by (rule transaction_errD)
next
  fix k s s' assume "CompleteEpayTopUp pe env k pm s = (None, s')"
  then obtain r s1 where t: "transaction (epay_body pe env k pm) s = (Inr r, s1)" "db s' = db s1"
    by (auto simp: CompleteEpayTopUp_def split: prod.splits sum.splits option.splits)
  show "db s' = db s \<and> paid k s \<or> credits_order (\<lambda>t q. q + dec_int_mul pe (top_Amount t) (env_QuotaPerUnit env)) k s s'"
    by (rule completion_ok [OF epay_body_ok t])
qed

lemma waffo_body_ok: "body_ok (\<lambda>t q. q + dec_int_mul pe (top_Amount t) (env_QuotaPerUnit env)) (waffo_body pe env provider)"
proof (rule body_okI)
  fix k s r s1 t
  assume up: "fst (stmt s)" and t: "row top_TradeNo (topups (db s)) k = Some t" and b: "waffo_body pe env provider k s = (Inr r, s1)"
  show "db s1 = db s \<and> top_Status t = ''success''
      \<or> credits_order (\<lambda>t q. q + dec_int_mul pe (top_Amount t) (env_QuotaPerUnit env)) k s s1"
  proof (cases "top_Status t = ''pending'' \<and> top_PaymentProvider t = provider \<and> 0 < dec_int_mul pe (top_Amount t) (env_QuotaPerUnit env)")
    case True
    have "credits_order (\<lambda>t q. q + dec_int_mul pe (top_Amount t) (env_QuotaPerUnit env)) k s s1"
      by (rule credits_order_addI [OF t, where sr = "snd (stmt s)" and g = Some and r = r and t' = "completed env t"])
        (use b up t True in \<open>simp_all add: waffo_body_def GetTopUpByTradeNo_eq Let_def\<close>)
    then show ?thesis ..
  qed (use b up t in \<open>auto simp: waffo_body_def GetTopUpByTradeNo_eq Let_def split: if_splits\<close>)
qed (auto simp: waffo_body_def GetTopUpByTradeNo_eq)

lemma waffo_result_cases:
  assumes "waffo_result (transaction body s) = (e, s')"
  obtains x where "e = Some (ErrTopUpFailed x)" "transaction body s = (Inl x, s')"
  | r s1 where "e = None" "transaction body s = (Inr r, s1)" "db s' = db s1"
  using assms by (auto simp: waffo_result_def split: prod.splits sum.splits option.splits)

interpretation waffo: order_completion "RechargeWaffo pe env"
  "\<lambda>t q. q + dec_int_mul pe (top_Amount t) (env_QuotaPerUnit env)" for pe env
proof
  fix k s e s' assume "RechargeWaffo pe env k s = (Some e, s')"
  then show "db s' = db s"
    by (auto simp: RechargeWaffo_def split: if_splits elim: waffo_result_cases dest: transaction_errD)
next
  fix k s s' assume "RechargeWaffo pe env k s = (None, s')"
  then obtain r s1 where t: "transaction (waffo_body pe env ''waffo'' k) s = (Inr r, s1)" "db s' = db s1"
    by (auto simp: RechargeWaffo_def split: if_splits elim: waffo_result_cases)
  show "db s' = db s \<and> paid k s \<or> credits_order (\<lambda>t q. q + dec_int_mul pe (top_Amount t) (env_QuotaPerUnit env)) k s s'"
    by (rule completion_ok [OF waffo_body_ok t])
qed

interpretation pancake: order_completion "RechargeWaffoPancake pe env"
  "\<lambda>t q. q + dec_int_mul pe (top_Amount t) (env_QuotaPerUnit env)" for pe env
proof
  fix k s e s' assume "RechargeWaffoPancake pe env k s = (Some e, s')"
  then show "db s' = db s"
    by (auto simp: RechargeWaffoPancake_def split: if_splits elim: waffo_result_cases dest: transaction_errD)
next
  fix k s s' assume "RechargeWaffoPancake pe env k s = (None, s')"
  then obtain r s1 where t: "transaction (waffo_body pe env ''waffo_pancake'' k) s = (Inr r, s1)" "db s' = db s1"
    by (auto simp: RechargeWaffoPancake_def split: if_splits elim: waffo_result_cases)
  show "db s' = db s \<and> paid k s \<or> credits_order (\<lambda>t q. q + dec_int_mul pe (top_Amount t) (env_QuotaPerUnit env)) k s s'"
    by (rule completion_ok [OF waffo_body_ok t])
qed

lemma topup_result_cases:
  assumes "topup_result (transaction body s) = (e, s')"
  obtains x where "e = Some (ErrTopUpFailed x)" "transaction body s = (Inl x, s')"
  | r s1 where "e = None" "transaction body s = (Inr r, s1)" "db s' = db s1"
  using assms by (auto simp: topup_result_def split: prod.splits sum.splits)

lemma stripe_body_ok:
  "body_ok (\<lambda>t q. column_add pe q (float_mul pe (top_Money t) (env_QuotaPerUnit env))) (stripe_body pe env customer)"
proof (rule body_okI)
  fix k s r s1 t
  assume up: "fst (stmt s)" and t: "row top_TradeNo (topups (db s)) k = Some t" and b: "stripe_body pe env customer k s = (Inr r, s1)"
  show "db s1 = db s \<and> top_Status t = ''success''
      \<or> credits_order (\<lambda>t q. column_add pe q (float_mul pe (top_Money t) (env_QuotaPerUnit env))) k s s1"
  proof (cases "top_Status t = ''pending'' \<and> top_PaymentProvider t = ''stripe''")
    case True
    have "credits_order (\<lambda>t q. column_add pe q (float_mul pe (top_Money t) (env_QuotaPerUnit env))) k s s1"
      by (rule credits_orderI [OF t, where sr = "snd (stmt s)" and r = r and t' = "completed env t" and
            f = "\<lambda>u. u\<lparr>user_StripeCustomer := customer, user_Quota := column_add pe (user_Quota u) (float_mul pe (top_Money t) (env_QuotaPerUnit env))\<rparr>"])
        (use b up t True in \<open>simp_all add: stripe_body_def GetTopUpByTradeNo_eq Let_def\<close>)
    then show ?thesis ..
  qed (use b up t in \<open>auto simp: stripe_body_def GetTopUpByTradeNo_eq Let_def split: if_splits\<close>)
qed (auto simp: stripe_body_def GetTopUpByTradeNo_eq)

interpretation stripe: order_completion "\<lambda>k. Recharge pe env k customer"
  "\<lambda>t q. column_add pe q (float_mul pe (top_Money t) (env_QuotaPerUnit env))" for pe env customer
proof
  fix k s e s' assume "Recharge pe env k customer s = (Some e, s')"
  then show "db s' = db s"
    by (auto simp: Recharge_def split: if_splits elim: topup_result_cases dest: transaction_errD)
next
  fix k s s' assume "Recharge pe env k customer s = (None, s')"
  then obtain r s1 where t: "transaction (stripe_body pe env customer k) s = (Inr r, s1)" "db s' = db s1"
    by (auto simp: Recharge_def split: if_splits elim: topup_result_cases)
  show "db s' = db s \<and> paid k s \<or> credits_order (\<lambda>t q. column_add pe q (float_mul pe (top_Money t) (env_QuotaPerUnit env))) k s s'"
    by (rule completion_ok [OF stripe_body_ok t])
qed

lemma manual_body_ok: "body_ok (\<lambda>t q. q + manual_quota pe env t) (manual_body pe env)"
proof (rule body_okI)
  fix k s r s1 t
  assume up: "fst (stmt s)" and t: "row top_TradeNo (topups (db s)) k = Some t" and b: "manual_body pe env k s = (Inr r, s1)"
  show "db s1 = db s \<and> top_Status t = ''success'' \<or> credits_order (\<lambda>t q. q + manual_quota pe env t) k s s1"
  proof (cases "top_Status t = ''pending'' \<and> 0 < manual_quota pe env t")
    case True
    have "credits_order (\<lambda>t q. q + manual_quota pe env t) k s s1"
      by (rule credits_order_addI [OF t, where sr = "snd (stmt s)" and g = top_UserId and r = r and t' = "completed env t"])
        (use b up t True in \<open>simp_all add: manual_body_def GetTopUpByTradeNo_eq Let_def\<close>)
    then show ?thesis ..
  qed (use b up t in \<open>auto simp: manual_body_def GetTopUpByTradeNo_eq Let_def split: if_splits\<close>)
qed (auto simp: manual_body_def GetTopUpByTradeNo_eq)

interpretation manual: order_completion "ManualCompleteTopUp pe env" "\<lambda>t q. q + manual_quota pe env t" for pe env
proof
  fix k s e s' assume "ManualCompleteTopUp pe env k s = (Some e, s')"
  then show "db s' = db s"
    by (auto simp: ManualCompleteTopUp_def split: if_splits prod.splits sum.splits dest: transaction_errD)
next
  fix k s s' assume "ManualCompleteTopUp pe env k s = (None, s')"
  then obtain r s1 where t: "transaction (manual_body pe env k) s = (Inr r, s1)" "db s' = db s1"
    by (auto simp: ManualCompleteTopUp_def split: if_splits prod.splits sum.splits)
  show "db s' = db s \<and> paid k s \<or> credits_order (\<lambda>t q. q + manual_quota pe env t) k s s'"
    by (rule completion_ok [OF manual_body_ok t])
qed

lemma creem_update_ok:
  assumes "creem_update email t s = (Inr f, s1)"
  shows "db s1 = db s" "user_Id (f u) = user_Id u" "user_Quota (f u) = user_Quota u + top_Amount t"
  using assms by (auto simp: creem_update_def Let_def find_user_def case_stmt split: if_splits option.splits prod.splits sum.splits)

lemma creem_body_ok: "body_ok (\<lambda>t q. q + top_Amount t) (creem_body env email)"
proof (rule body_okI)
  fix k s r s1 t
  assume up: "fst (stmt s)" and t: "row top_TradeNo (topups (db s)) k = Some t" and b: "creem_body env email k s = (Inr r, s1)"
  let ?s = "snd (stmt s)" and ?s2 = "set_topups (save_row top_Id (completed env t)) (snd (stmt (snd (stmt s))))"
  have pend: "top_Status t = ''pending''" and up2: "fst (stmt ?s)"
    and c: "(case creem_update email t ?s2 of (Inl e, s3) \<Rightarrow> (Inl e, s3) | (Inr f, s3) \<Rightarrow>
        (case update_user (top_UserId t) f s3 of (Some e, s4) \<Rightarrow> (Inl e, s4) | (None, s4) \<Rightarrow> (Inr t, s4))) = (Inr r, s1)"
    using b up t by (auto simp: creem_body_def GetTopUpByTradeNo_eq TopUp_Update_eq split: if_splits)
  obtain f s3 where f: "creem_update email t ?s2 = (Inr f, s3)"
    using c by (cases "creem_update email t ?s2"; cases "fst (creem_update email t ?s2)") auto
  have d: "db s3 = (db s)\<lparr>topups := save_row top_Id (completed env t) (topups (db s))\<rparr>"
    using creem_update_ok(1) [OF f] by (simp add: set_topups_def)
  have "(case update_user (top_UserId t) f s3 of (Some e, s4) \<Rightarrow> (Inl e, s4) | (None, s4) \<Rightarrow> (Inr t, s4)) = (Inr r, s1)"
    using c f by simp
  then have u: "row user_Id (users (db s)) (top_UserId t) \<noteq> None"
      "db s1 = (db s3)\<lparr>users := upd_row user_Id (top_UserId t) f (users (db s))\<rparr>"
    using d by (auto simp: update_user_eq split: if_splits)
  have "credits_order (\<lambda>t q. q + top_Amount t) k s s1"
    unfolding credits_order_def
    using t pend u row_key [OF t] creem_update_ok(2,3) [OF f] d
    by (intro exI [of _ t] exI [of _ "completed env t"] exI [of _ f]) simp
  then show "db s1 = db s \<and> top_Status t = ''success'' \<or> credits_order (\<lambda>t q. q + top_Amount t) k s s1" ..
qed (auto simp: creem_body_def GetTopUpByTradeNo_eq)

interpretation creem: order_completion "\<lambda>k. RechargeCreem env k email" "\<lambda>t q. q + top_Amount t" for env email
proof
  fix k s e s' assume "RechargeCreem env k email s = (Some e, s')"
  then show "db s' = db s"
    by (auto simp: RechargeCreem_def split: if_splits elim: topup_result_cases dest: transaction_errD)
next
  fix k s s' assume "RechargeCreem env k email s = (None, s')"
  then obtain r s1 where t: "transaction (creem_body env email k) s = (Inr r, s1)" "db s' = db s1"
    by (auto simp: RechargeCreem_def split: if_splits elim: topup_result_cases)
  show "db s' = db s \<and> paid k s \<or> credits_order (\<lambda>t q. q + top_Amount t) k s s'"
    by (rule completion_ok [OF creem_body_ok t])
qed

section \<open>Every order is credited at most once\<close>

datatype payment_op =
    OpEpay string string
  | OpStripe string string
  | OpCreem string string
  | OpWaffo string
  | OpPancake string
  | OpManual string
  | OpClose string string string
  | OpInsert TopUp

fun run_op :: "payment_env \<Rightarrow> env \<Rightarrow> payment_op \<Rightarrow> store \<Rightarrow> store" where
  "run_op pe env (OpEpay k pm) s = snd (CompleteEpayTopUp pe env k pm s)"
| "run_op pe env (OpStripe k customer) s = snd (Recharge pe env k customer s)"
| "run_op pe env (OpCreem k email) s = snd (RechargeCreem env k email s)"
| "run_op pe env (OpWaffo k) s = snd (RechargeWaffo pe env k s)"
| "run_op pe env (OpPancake k) s = snd (RechargeWaffoPancake pe env k s)"
| "run_op pe env (OpManual k) s = snd (ManualCompleteTopUp pe env k s)"
| "run_op pe env (OpClose k provider status) s = snd (UpdatePendingTopUpStatus k provider status s)"
| "run_op pe env (OpInsert t) s = snd (TopUp_Insert t s)"

definition run_ops :: "payment_env \<Rightarrow> env \<Rightarrow> payment_op list \<Rightarrow> store \<Rightarrow> store" where
  "run_ops pe env ops s = fold (run_op pe env) ops s"

fun op_trade :: "payment_op \<Rightarrow> string option" where
  "op_trade (OpEpay k pm) = Some k"
| "op_trade (OpStripe k customer) = Some k"
| "op_trade (OpCreem k email) = Some k"
| "op_trade (OpWaffo k) = Some k"
| "op_trade (OpPancake k) = Some k"
| "op_trade (OpManual k) = Some k"
| "op_trade (OpClose k provider status) = None"
| "op_trade (OpInsert t) = None"

fun op_amount :: "(float64 \<Rightarrow> int) \<Rightarrow> payment_env \<Rightarrow> env \<Rightarrow> payment_op \<Rightarrow> TopUp \<Rightarrow> int" where
  "op_amount money pe env (OpStripe k customer) t = money (float_mul pe (top_Money t) (env_QuotaPerUnit env))"
| "op_amount money pe env (OpCreem k email) t = top_Amount t"
| "op_amount money pe env (OpManual k) t = manual_quota pe env t"
| "op_amount money pe env op t = dec_int_mul pe (top_Amount t) (env_QuotaPerUnit env)"

text \<open>The credits of a run: trade number, user and amount of each order a completion made successful.\<close>

fun credit_log ::
    "(float64 \<Rightarrow> int) \<Rightarrow> payment_env \<Rightarrow> env \<Rightarrow> payment_op list \<Rightarrow> store \<Rightarrow> (string \<times> int \<times> int) list" where
  "credit_log money pe env [] s = []"
| "credit_log money pe env (op # ops) s =
    (case op_trade op of
       None \<Rightarrow> []
     | Some k \<Rightarrow>
        (case row top_TradeNo (topups (db s)) k of
           None \<Rightarrow> []
         | Some t \<Rightarrow> if \<not> paid k s \<and> paid k (run_op pe env op s) then [(k, top_UserId t, op_amount money pe env op t)] else []))
    @ credit_log money pe env ops (run_op pe env op s)"

definition credited :: "(string \<times> int \<times> int) list \<Rightarrow> int \<Rightarrow> int" where
  "credited cs u = sum_list (map (\<lambda>(k, i, a). if i = u then a else 0) cs)"

lemma credited_append [simp]: "credited (xs @ ys) u = credited xs u + credited ys u"
  by (simp add: credited_def)

lemma credited_Nil [simp]: "credited [] u = 0"
  by (simp add: credited_def)

lemma credited_Cons [simp]: "credited ((k, i, a) # cs) u = (if i = u then a else 0) + credited cs u"
  by (simp add: credited_def)

lemma completion_step:
  assumes "op_trade op = Some k" "\<And>q x. column_add pe q x = q + money x"
  shows "db (run_op pe env op s) = db s \<or> credits_order (\<lambda>t q. q + op_amount money pe env op t) k s (run_op pe env op s)"
  using assms epay.complete_cases [where tradeNo = k and s = s and pe = pe and env = env]
    stripe.complete_cases [where tradeNo = k and s = s and pe = pe and env = env]
    creem.complete_cases [where tradeNo = k and s = s and env = env]
    waffo.complete_cases [where tradeNo = k and s = s and pe = pe and env = env]
    pancake.complete_cases [where tradeNo = k and s = s and pe = pe and env = env]
    manual.complete_cases [where tradeNo = k and s = s and pe = pe and env = env]
  by (cases op) simp_all

lemma TopUp_Insert_keeps:
  assumes "topups_ok s"
  shows "topups_ok (snd (TopUp_Insert t s))" "users (db (snd (TopUp_Insert t s))) = users (db s)"
    "paid k s \<Longrightarrow> paid k (snd (TopUp_Insert t s))"
proof -
  show "topups_ok (snd (TopUp_Insert t s))" "users (db (snd (TopUp_Insert t s))) = users (db s)"
    using assms by (auto simp: TopUp_Insert_def case_stmt fresh_id_def set_topups_def topups_ok_def row_None_iff)
  assume "paid k s"
  then show "paid k (snd (TopUp_Insert t s))"
    by (auto simp: TopUp_Insert_def case_stmt fresh_id_def set_topups_def paid_def row_append split: option.splits)
qed

lemma close_body_ok:
  assumes "close_body k p st s = (Inr r, s1)"
  obtains t where "row top_TradeNo (topups (db s)) k = Some t" "top_Status t = ''pending''"
    "db s1 = (db s)\<lparr>topups := save_row top_Id (t\<lparr>top_Status := st\<rparr>) (topups (db s))\<rparr>"
  using assms
  by (auto simp: close_body_def GetTopUpByTradeNo_eq TopUp_Update_eq set_topups_def split: if_splits option.splits)

lemma Close_keeps:
  assumes "topups_ok s"
  shows "topups_ok (snd (UpdatePendingTopUpStatus k p st s)) \<and> users (db (snd (UpdatePendingTopUpStatus k p st s))) = users (db s)
    \<and> (paid j s \<longrightarrow> paid j (snd (UpdatePendingTopUpStatus k p st s)))"
proof (cases "UpdatePendingTopUpStatus k p st s")
  case (Pair r s')
  have same: "topups_ok s' \<and> users (db s') = users (db s) \<and> (paid j s \<longrightarrow> paid j s')" if "db s' = db s"
    using assms that by (simp add: topups_ok_def paid_def)
  show ?thesis
  proof (cases r)
    case (Inl e)
    then have "db s' = db s" using Pair by (auto simp: UpdatePendingTopUpStatus_def split: if_splits dest: transaction_errD)
    then show ?thesis using same Pair by simp
  next
    case (Inr x)
    then have "transaction (close_body k p st) s = (Inr x, s')" using Pair by (auto simp: UpdatePendingTopUpStatus_def split: if_splits)
    then obtain s1 where "close_body k p st (snd (stmt s)) = (Inr x, s1)" "db s' = db s1" by (rule transaction_okD)
    then obtain t where t: "row top_TradeNo (topups (db s)) k = Some t" "top_Status t = ''pending''"
      "db s' = (db s)\<lparr>topups := save_row top_Id (t\<lparr>top_Status := st\<rparr>) (topups (db s))\<rparr>"
      by (elim close_body_ok) simp
    have d: "distinct (map top_Id (topups (db s)))" using assms by (simp add: topups_ok_def)
    have t': "top_Id (t\<lparr>top_Status := st\<rparr>) = top_Id t" "top_TradeNo (t\<lparr>top_Status := st\<rparr>) = k"
      using row_key [OF t(1)] by simp_all
    note r = row_save_other [OF d t(1) t'] and m = map_save_other [OF d t(1) t']
    have "\<forall>y \<in> set (save_row top_Id (t\<lparr>top_Status := st\<rparr>) (topups (db s))). top_Id y < next_id (db s)"
      using assms row_mem [OF t(1)] set_save_row [of top_Id "t\<lparr>top_Status := st\<rparr>" "topups (db s)"]
      by (fastforce simp: topups_ok_def)
    then have "topups_ok s'" using assms t(3) m by (simp add: topups_ok_def)
    moreover have "paid j s \<longrightarrow> paid j s'" using t r by (auto simp: paid_def)
    ultimately show ?thesis using t(3) Pair by simp
  qed
qed

lemma op_keeps:
  assumes "topups_ok s" "\<And>q x. column_add pe q x = q + money x"
  shows "topups_ok (run_op pe env op s) \<and> (paid j s \<longrightarrow> paid j (run_op pe env op s))"
proof (cases "op_trade op")
  case None
  then show ?thesis using TopUp_Insert_keeps [OF assms(1)] Close_keeps [OF assms(1)] by (cases op) auto
next
  case (Some k)
  show ?thesis
    using completion_step [OF Some assms(2), where s = s and env = env]
  proof
    assume "db (run_op pe env op s) = db s"
    then show ?thesis using assms(1) by (simp add: topups_ok_def paid_def)
  next
    assume c: "credits_order (\<lambda>t q. q + op_amount money pe env op t) k s (run_op pe env op s)"
    show ?thesis
      using credits_orderD(1) [OF c assms(1)] credits_orderD(2,3) [OF c assms(1)] credits_orderD(4) [OF c assms(1), of j]
      by (cases "j = k") auto
  qed
qed

lemma op_quota:
  assumes "topups_ok s" "\<And>q x. column_add pe q x = q + money x"
  shows "quota_of (run_op pe env op s) u = quota_of s u + credited (credit_log money pe env [op] s) u"
proof (cases "op_trade op")
  case None
  then have "users (db (run_op pe env op s)) = users (db s)"
    using TopUp_Insert_keeps(2) [OF assms(1)] Close_keeps [OF assms(1)] by (cases op) auto
  then show ?thesis using None by (simp add: quota_of_def)
next
  case (Some k)
  show ?thesis
    using completion_step [OF Some assms(2), where s = s and env = env]
  proof
    assume "db (run_op pe env op s) = db s"
    then show ?thesis using Some by (simp add: quota_of_def paid_def split: option.splits)
  next
    assume c: "credits_order (\<lambda>t q. q + op_amount money pe env op t) k s (run_op pe env op s)"
    show ?thesis using credits_orderD(2,3,5) [OF c assms(1)] Some by auto
  qed
qed

lemma credit_log_paid:
  assumes "topups_ok s" "\<And>q x. column_add pe q x = q + money x" "paid k s"
  shows "k \<notin> fst ` set (credit_log money pe env ops s)"
  using assms
proof (induction ops arbitrary: s)
  case (Cons op ops)
  have "k \<notin> fst ` set (credit_log money pe env ops (run_op pe env op s))"
    using Cons.IH op_keeps [OF Cons.prems(1,2), where op = op and env = env] Cons.prems(2,3) by blast
  then show ?case using Cons.prems(3) by (auto split: option.splits if_splits)
qed simp

lemma credit_log_Cons:
  "credit_log money pe env (op # ops) s = credit_log money pe env [op] s @ credit_log money pe env ops (run_op pe env op s)"
  by simp

text \<open>
  C7. Whatever sequence of callbacks, reconciliations, manual completions and closings arrives, in whatever order, repeated as often
  as one likes and with any statement failing, every order is credited at most once, and a user's quota has grown by exactly the
  credits of the orders of that user that became successful.
\<close>

theorem topups_credited_once:
  assumes "topups_ok s" "\<And>q x. column_add pe q x = q + money x"
  shows "distinct (map fst (credit_log money pe env ops s))
    \<and> quota_of (run_ops pe env ops s) u = quota_of s u + credited (credit_log money pe env ops s) u"
  using assms
proof (induction ops arbitrary: s)
  case (Cons op ops)
  let ?s = "run_op pe env op s"
  have log: "credit_log money pe env (op # ops) s = credit_log money pe env [op] s @ credit_log money pe env ops ?s"
    by (rule credit_log_Cons)
  have ok: "topups_ok ?s" using op_keeps [OF Cons.prems, where op = op] by blast
  have "k \<notin> fst ` set (credit_log money pe env ops ?s)" if "k \<in> fst ` set (credit_log money pe env [op] s)" for k
  proof -
    have "paid k ?s" using that by (auto split: option.splits if_splits)
    then show ?thesis by (rule credit_log_paid [OF ok Cons.prems(2)])
  qed
  moreover have "distinct (map fst (credit_log money pe env [op] s))" by (auto split: option.splits)
  ultimately have "distinct (map fst (credit_log money pe env (op # ops) s))"
    unfolding log using Cons.IH [OF ok Cons.prems(2)] by auto
  moreover have "quota_of (run_ops pe env (op # ops) s) u = quota_of s u + credited (credit_log money pe env (op # ops) s) u"
    unfolding log
    using Cons.IH [OF ok Cons.prems(2)] op_quota [OF Cons.prems, where op = op and u = u] by (simp add: run_ops_def del: credit_log.simps)
  ultimately show ?case ..
qed (simp add: run_ops_def)

definition demo_pay :: payment_env where
  "demo_pay = \<lparr>dec_int_mul = (\<lambda>a unit. trunc_rat (of_int a * unit)),
     dec_float_mul = (\<lambda>x unit. case x of Fin r \<Rightarrow> trunc_rat (r * unit) | _ \<Rightarrow> 0),
     dec_float_mul_ceil = (\<lambda>x unit. case x of Fin r \<Rightarrow> \<lceil>r * unit\<rceil> | _ \<Rightarrow> 0),
     float_mul = (\<lambda>x unit. case x of Fin r \<Rightarrow> Fin (r * unit) | _ \<Rightarrow> x),
     column_add = (\<lambda>q x. q + int_of_float (math_Round x))\<rparr>"

definition demo_topup :: "string \<Rightarrow> int \<Rightarrow> TopUp" where
  "demo_topup provider amount = \<lparr>top_Id = 4, top_UserId = 1, top_Amount = amount, top_Money = Fin 2, top_TradeNo = ''T1'',
     top_PaymentMethod = ''alipay'', top_PaymentProvider = provider, top_CreateTime = 1699999000, top_CompleteTime = 0,
     top_Status = ''pending''\<rparr>"

definition demo_order_store :: "string \<Rightarrow> int \<Rightarrow> store" where
  "demo_order_store provider amount =
     demo_store\<lparr>db := (db demo_store)\<lparr>topups := [demo_topup provider amount], next_id := 10\<rparr>\<rparr>"

lemmas demo_pay_defs = demo_defs demo_pay_def demo_topup_def demo_order_store_def

theorem topups_credited_once_witness:
  "quota_of (run_ops demo_pay (demo_env False) [OpEpay ''T1'' ''wxpay'', OpEpay ''T1'' ''wxpay'', OpManual ''T1''] (demo_order_store ''epay'' 2)) 1
     = quota_of (demo_order_store ''epay'' 2) 1
       + credited (credit_log (\<lambda>x. int_of_float (math_Round x)) demo_pay (demo_env False)
           [OpEpay ''T1'' ''wxpay'', OpEpay ''T1'' ''wxpay'', OpManual ''T1''] (demo_order_store ''epay'' 2)) 1"
  using topups_credited_once [of "demo_order_store ''epay'' 2" demo_pay "\<lambda>x. int_of_float (math_Round x)"]
  by (simp add: topups_ok_def demo_pay_defs del: credit_log.simps)

text \<open>
  Completing a Creem order by hand gives the owner a different amount than its callback.  The
  callback adds the order's amount, which for Creem is the quota itself; the manual completion multiplies that amount
  by the quota per unit as if it were a number of dollars.
\<close>

theorem manual_creem_overcredits:
  assumes "faults s = []" "topups_ok s" "row top_TradeNo (topups (db s)) k = Some t" "k \<noteq> ''''"
    and "top_PaymentProvider t = ''creem''" "top_Status t = ''pending''" "row user_Id (users (db s)) (top_UserId t) \<noteq> None"
    and "0 < dec_int_mul pe (top_Amount t) (env_QuotaPerUnit env)"
  shows "quota_of (snd (RechargeCreem env k '''' s)) (top_UserId t) = quota_of s (top_UserId t) + top_Amount t
    \<and> quota_of (snd (ManualCompleteTopUp pe env k s)) (top_UserId t)
      = quota_of s (top_UserId t) + dec_int_mul pe (top_Amount t) (env_QuotaPerUnit env)"
proof -
  have up: "stmt s = (True, s)" using assms(1) by simp
  have "fst (RechargeCreem env k '''' s) = None"
    using assms by (simp add: RechargeCreem_def creem_body_def creem_update_def transaction_eq tx_end_eq GetTopUpByTradeNo_eq
        TopUp_Update_eq set_topups_def update_user_eq topup_result_def completed_def)
  moreover have "fst (ManualCompleteTopUp pe env k s) = None"
    using assms by (simp add: ManualCompleteTopUp_def manual_body_def manual_quota_def transaction_eq tx_end_eq GetTopUpByTradeNo_eq
        TopUp_Update_eq set_topups_def update_user_eq save_and_credit_def addUserQuota_def completed_def Let_def)
  ultimately obtain s1 s2 where r: "RechargeCreem env k '''' s = (None, s1)" "ManualCompleteTopUp pe env k s = (None, s2)"
    by (metis prod.collapse)
  have np: "\<not> paid k s" using assms by (simp add: paid_def)
  have "credits_order (\<lambda>t q. q + top_Amount t) k s s1" using creem.complete_ok [OF r(1)] np by blast
  moreover have "credits_order (\<lambda>t q. q + manual_quota pe env t) k s s2" using manual.complete_ok [OF r(2)] np by blast
  ultimately show ?thesis
    using credits_orderD(5) [OF _ assms(2)] assms(3,5) r by (fastforce simp: manual_quota_def)
qed

theorem manual_creem_overcredits_witness:
  "quota_of (snd (RechargeCreem (demo_env False) ''T1'' '''' (demo_order_store ''creem'' 1000))) 1 = 2000
   \<and> quota_of (snd (ManualCompleteTopUp demo_pay (demo_env False) ''T1'' (demo_order_store ''creem'' 1000))) 1 = 500001000"
  using manual_creem_overcredits [of "demo_order_store ''creem'' 1000" "''T1''" "demo_topup ''creem'' 1000" demo_pay "demo_env False"]
  by (simp add: topups_ok_def quota_of_def demo_pay_defs trunc_rat_def)

end
