(* ===== verification/Orders.thy ===== *)
theory Orders
  imports Payments
begin

text \<open>
  What the completion of a subscription order and the purchase of a subscription with the wallet
  guarantee: an order is delivered once, a purchase is atomic and exact.  The operations are defined in \<open>Payments\<close>.
\<close>

section \<open>What an order leaves alone\<close>

lemma set_user_group_frame:
  "orders (db (snd (set_user_group u g s))) = orders (db s)" "topups (db (snd (set_user_group u g s))) = topups (db s)"
  "quota_of (snd (set_user_group u g s)) i = quota_of s i"
  by (auto simp: set_user_group_eq set_users_def quota_of_def row_set_group split: option.splits)

lemma upgrade_buyer_frame:
  "orders (db (snd (upgrade_buyer u g s))) = orders (db s)" "topups (db (snd (upgrade_buyer u g s))) = topups (db s)"
  "quota_of (snd (upgrade_buyer u g s)) i = quota_of s i"
proof -
  obtain r s1 where r: "getUserGroupByIdTx u s = (r, s1)" by fastforce
  have d: "db s1 = db s" using getUserGroupByIdTx_db [of u s] r by simp
  then have q: "quota_of s1 i = quota_of s i" by (simp add: quota_of_def)
  obtain e s2 where e: "set_user_group u g s1 = (e, s2)" by fastforce
  show "orders (db (snd (upgrade_buyer u g s))) = orders (db s)" "topups (db (snd (upgrade_buyer u g s))) = topups (db s)"
    "quota_of (snd (upgrade_buyer u g s)) i = quota_of s i"
    using set_user_group_frame [of u g s1] d q e by (auto simp: upgrade_buyer_def r split: sum.split option.split)
qed

lemma Create_frame:
  assumes "CreateUserSubscriptionFromPlanTx env userId plan source s = (Inr x, s')"
  shows "orders (db s') = orders (db s)" "topups (db s') = topups (db s)" "quota_of s' i = quota_of s i"
proof -
  obtain e s1 where c: "check_purchase_limit userId plan s = (e, s1)" by fastforce
  obtain now s2 where n: "GetDBTimestamp env s1 = (now, s2)" by fastforce
  obtain r s3 where u: "upgrade_buyer userId (TrimSpace (plan_UpgradeGroup plan)) s2 = (r, s3)" by fastforce
  have "db s1 = db s" using c by (auto simp: check_purchase_limit_def case_stmt split: if_splits)
  then have d: "db s2 = db s" using GetDBTimestamp_db [of env s1] n by simp
  have b: "orders (db s3) = orders (db s)" "topups (db s3) = topups (db s)" "quota_of s3 i = quota_of s i"
    using upgrade_buyer_frame [of userId "TrimSpace (plan_UpgradeGroup plan)" s2] u d by (simp_all add: quota_of_def)
  obtain y where y: "insert_sub y s3 = (Inr x, s')"
    using assms c n u
    by (auto simp: CreateUserSubscriptionFromPlanTx_def Let_def split: if_splits option.splits sum.splits)
  then show "orders (db s') = orders (db s)" "topups (db s') = topups (db s)" "quota_of s' i = quota_of s i"
    using b by (auto simp: insert_sub_def case_stmt fresh_id_def set_subs_def quota_of_def split: if_splits)
qed

lemma getPlan_db: "getSubscriptionPlanByIdTx env i s = (r, s1) \<Longrightarrow> db s1 = db s"
  by (auto simp: getSubscriptionPlanByIdTx_def case_stmt split: if_splits option.splits)

lemma TopUp_Insert_frame:
  "TopUp_Insert t s = (e, s1) \<Longrightarrow> orders (db s1) = orders (db s) \<and> subs (db s1) = subs (db s) \<and> users (db s1) = users (db s)"
  by (auto simp: TopUp_Insert_def case_stmt fresh_id_def set_topups_def split: if_splits)

lemma upsert_frame:
  assumes "upsertSubscriptionTopUpTx env order s = (e, s1)"
  shows "orders (db s1) = orders (db s) \<and> subs (db s1) = subs (db s) \<and> users (db s1) = users (db s)"
  using assms
  by (auto simp: upsertSubscriptionTopUpTx_def case_stmt TopUp_Update_eq set_topups_def split: if_splits option.splits dest!: TopUp_Insert_frame)

lemma Order_Update_eq:
  "Order_Update t s = (if fst (stmt s) then (None, set_orders (save_row ord_Id t) (snd (stmt s))) else (Some ErrDB, snd (stmt s)))"
  by (simp add: Order_Update_def case_stmt)

lemma find_order_eq:
  "find_order k s = (if fst (stmt s) then row ord_TradeNo (orders (db s)) k else None, snd (stmt s))"
  by (simp add: find_order_def case_stmt)

section \<open>A subscription order is completed once\<close>

definition orders_ok :: "store \<Rightarrow> bool" where
  "orders_ok s \<longleftrightarrow> distinct (map ord_Id (orders (db s)))"

definition order_done :: "string \<Rightarrow> store \<Rightarrow> bool" where
  "order_done k s \<longleftrightarrow>
    (case row ord_TradeNo (orders (db s)) k of None \<Rightarrow> False | Some t \<Rightarrow> ord_Status t = ''success'')"

definition delivers :: "string \<Rightarrow> store \<Rightarrow> store \<Rightarrow> bool" where
  "delivers k s s' \<longleftrightarrow> (\<exists>order x. row ord_TradeNo (orders (db s)) k = Some order \<and> ord_Status order = ''pending''
     \<and> subs (db s') = subs (db s) @ [x] \<and> sub_UserId x = ord_UserId order \<and> sub_AmountUsed x = 0 \<and> sub_Status x = ''active''
     \<and> (\<forall>i. quota_of s' i = quota_of s i))"

lemma order_body_ok:
  assumes "orders_ok s" "order_body env k payload provider pm s = (Inr r, s1)"
  shows "(db s1 = db s \<and> order_done k s \<or> delivers k s s1) \<and> order_done k s1"
proof -
  obtain order where up: "fst (stmt s)" and o: "row ord_TradeNo (orders (db s)) k = Some order"
    using assms(2) by (cases "row ord_TradeNo (orders (db s)) k") (auto simp: order_body_def find_order_eq split: if_splits)
  show ?thesis
  proof (cases "ord_Status order = ''success''")
    case True
    then show ?thesis using assms(2) up o by (auto simp: order_body_def find_order_eq order_done_def split: if_splits)
  next
    case False
    obtain p s2 where p: "getSubscriptionPlanByIdTx env (ord_PlanId order) (snd (stmt s)) = (p, s2)" by fastforce
    then have d2: "db s2 = db s" using getPlan_db by fastforce
    obtain plan where plan: "p = Inr plan" "ord_Status order = ''pending''"
      using assms(2) up o False p by (cases p) (auto simp: order_body_def find_order_eq split: if_splits)
    obtain c s3 where c: "CreateUserSubscriptionFromPlanTx env (ord_UserId order) plan ''order'' s2 = (c, s3)" by fastforce
    obtain x where x: "c = Inr x"
      using assms(2) up o False p plan c by (cases c) (auto simp: order_body_def find_order_eq split: if_splits)
    obtain e s4 where u: "upsertSubscriptionTopUpTx env order s3 = (e, s4)" by fastforce
    have e: "e = None" and o5: "Order_Update (finished_order env payload pm order) s4 = (None, s1)"
      using assms(2) up o False p plan c x u
      by (auto simp: order_body_def find_order_eq split: if_splits option.splits prod.splits)
    note cr = Create_ok [OF c [unfolded x]] Create_frame [OF c [unfolded x]] and uf = upsert_frame [OF u]
    have q3: "quota_of s3 i = quota_of s i" for i using cr(4) [of i] d2 by (simp add: quota_of_def)
    have q4: "quota_of s4 i = quota_of s i" for i using uf q3 [of i] by (simp add: quota_of_def)
    have s1: "orders (db s1) = save_row ord_Id (finished_order env payload pm order) (orders (db s))"
      "subs (db s1) = subs (db s) @ [x]" "\<And>i. quota_of s1 i = quota_of s i"
      using o5 cr uf d2 q4 by (auto simp: Order_Update_eq set_orders_def quota_of_def split: if_splits)
    have "row ord_TradeNo (orders (db s1)) k = Some (finished_order env payload pm order)"
      using row_save_other [of ord_Id "orders (db s)" ord_TradeNo k order "finished_order env payload pm order" k] assms(1) o row_key [OF o] s1(1)
      by (simp add: orders_ok_def finished_order_def)
    then have "order_done k s1" by (simp add: order_done_def finished_order_def)
    moreover have "delivers k s s1" unfolding delivers_def using o plan(2) s1(2,3) cr(1) by blast
    ultimately show ?thesis by blast
  qed
qed

lemma order_done_db: "db s1 = db s \<Longrightarrow> order_done k s1 = order_done k s"
  by (simp add: order_done_def)

lemma delivers_db: "db s1 = db s \<Longrightarrow> db s2 = db s' \<Longrightarrow> delivers k s1 s2 = delivers k s s'"
  by (simp add: delivers_def quota_of_def)

lemma Complete_result:
  assumes "transaction (order_body env k payload provider pm) s = (r, s1)" "k \<noteq> []"
  shows "db (snd (CompleteSubscriptionOrder env k payload provider pm s)) = db s1"
    "fst (CompleteSubscriptionOrder env k payload provider pm s) = (case r of Inl e \<Rightarrow> Some e | Inr _ \<Rightarrow> None)"
  using assms by (cases r; simp add: CompleteSubscriptionOrder_def Let_def split: option.split prod.split)+

lemma order_body_done:
  assumes "order_done k s" "order_body env k payload provider pm s = (Inr x, s')"
  shows "db s' = db s"
proof -
  obtain order where "row ord_TradeNo (orders (db s)) k = Some order" "ord_Status order = ''success''"
    using assms(1) by (auto simp: order_done_def split: option.splits)
  then show ?thesis using assms(2) by (auto simp: order_body_def find_order_eq split: if_splits)
qed

text \<open>
  C8. A subscription order is delivered exactly once.  A completion that reports an error has changed nothing; the one that
  succeeds on a pending order creates one unused subscription for its user and marks it successful; every later
  completion of it, by whichever callback and whatever fails, changes nothing.
\<close>

theorem subscription_order_delivered_once:
  assumes "orders_ok s" "CompleteSubscriptionOrder env k payload provider pm s = (e, s')"
  shows "(e \<noteq> None \<longrightarrow> db s' = db s) \<and> (e = None \<longrightarrow> (db s' = db s \<and> order_done k s \<or> delivers k s s')
      \<and> order_done k s'
      \<and> (\<forall>env' payload' provider' pm' s2. db s2 = db s' \<longrightarrow>
          db (snd (CompleteSubscriptionOrder env' k payload' provider' pm' s2)) = db s'))"
proof (cases "k = []")
  case True
  then have "e = Some ErrTradeNoEmpty" "s' = s" using assms(2) by (auto simp: CompleteSubscriptionOrder_def)
  then show ?thesis by simp
next
  case False
  obtain r0 s1 where t0: "transaction (order_body env k payload provider pm) s = (r0, s1)" by fastforce
  note res = Complete_result [OF t0 False, unfolded assms(2) fst_conv snd_conv]
  show ?thesis
  proof (cases r0)
    case (Inl x)
    then have "db s' = db s" "e = Some x" using res transaction_errD [OF t0 [unfolded Inl]] by simp_all
    then show ?thesis by simp
  next
    case (Inr r)
  have t: "transaction (order_body env k payload provider pm) s = (Inr r, s1)" "db s' = db s1" and None: "e = None"
    using t0 Inr res by simp_all
  obtain s2 where b: "order_body env k payload provider pm (snd (stmt s)) = (Inr r, s2)" "db s1 = db s2"
    by (rule transaction_okD [OF t(1)])
  have ok: "orders_ok (snd (stmt s))" using assms(1) by (simp add: orders_ok_def)
  have d: "db s' = db s2" using b(2) t(2) by simp
  have main: "(db s' = db s \<and> order_done k s \<or> delivers k s s') \<and> order_done k s'"
  proof -
    have "delivers k (snd (stmt s)) s2 = delivers k s s'" by (rule delivers_db) (simp_all add: d)
    moreover have "order_done k s2 = order_done k s'" "order_done k (snd (stmt s)) = order_done k s"
      by (rule order_done_db, simp add: d)+
    ultimately show ?thesis using order_body_ok [OF ok b(1)] d by simp
  qed
  have "db (snd (CompleteSubscriptionOrder env' k payload' provider' pm' s3)) = db s'" if "db s3 = db s'" for env' payload' provider' pm' s3
  proof -
    have fin: "order_done k s3" using main that by (simp add: order_done_def)
    obtain r' s4 where r: "transaction (order_body env' k payload' provider' pm') s3 = (r', s4)" by fastforce
    have "db s4 = db s3"
    proof (cases r')
      case (Inl x)
      then show ?thesis using transaction_errD [OF r [unfolded Inl]] by simp
    next
      case (Inr x)
      obtain s5 where s5: "order_body env' k payload' provider' pm' (snd (stmt s3)) = (Inr x, s5)" "db s4 = db s5"
        by (rule transaction_okD [OF r [unfolded Inr]])
      have "order_done k (snd (stmt s3))" using fin by (simp add: order_done_def)
      then show ?thesis using order_body_done [OF _ s5(1)] s5(2) by simp
    qed
    then show ?thesis using Complete_result(1) [OF r False] that by simp
  qed
  then show ?thesis using main None by simp
  qed
qed

definition demo_sub_order :: SubscriptionOrder where
  "demo_sub_order = \<lparr>ord_Id = 6, ord_UserId = 1, ord_PlanId = 3, ord_Money = Fin 10, ord_TradeNo = ''S1'',
     ord_PaymentMethod = ''alipay'', ord_PaymentProvider = ''epay'', ord_Status = ''pending'', ord_CreateTime = 1699999000,
     ord_CompleteTime = 0, ord_ProviderPayload = ''''\<rparr>"

definition demo_sub_order_store :: store where
  "demo_sub_order_store = (demo_sub_store 0 [] [])\<lparr>db := (db (demo_sub_store 0 [] []))\<lparr>orders := [demo_sub_order]\<rparr>\<rparr>"

lemma demo_order_completes:
  "\<exists>s'. CompleteSubscriptionOrder (demo_env False) ''S1'' ''{}'' ''epay'' ''wxpay'' demo_sub_order_store = (None, s')
     \<and> length (subs (db s')) = 2"
proof -
  have "TrimSpace '''' = ''''" by code_simp
  moreover obtain e where "calcPlanEndTime (fixed_zone 0) 1700000000 (NormalizeDefaults demo_plan) = Inr e"
    by (simp add: calcPlanEndTime_def demo_plan_def NormalizeDefaults_def)
  ultimately show ?thesis
    by (simp add: CompleteSubscriptionOrder_def order_body_def find_order_eq transaction_eq tx_end_eq demo_sub_order_store_def
        demo_sub_order_def getSubscriptionPlanByIdTx_def CreateUserSubscriptionFromPlanTx_def check_purchase_limit_def
        GetDBTimestamp_def upgrade_buyer_def insert_sub_def fresh_id_def set_subs_def upsertSubscriptionTopUpTx_def TopUp_Insert_def
        set_topups_def Order_Update_eq set_orders_def NormalizeDefaults_def demo_sub_defs Let_def)
qed

theorem subscription_order_delivered_once_witness:
  "\<exists>s'. CompleteSubscriptionOrder (demo_env False) ''S1'' ''{}'' ''epay'' ''wxpay'' demo_sub_order_store = (None, s')
     \<and> order_done ''S1'' s' \<and> db (snd (CompleteSubscriptionOrder (demo_env False) ''S1'' ''{}'' ''epay'' ''wxpay'' s')) = db s'"
proof -
  have ok: "orders_ok demo_sub_order_store" by (simp add: orders_ok_def demo_sub_order_store_def)
  obtain s' where run: "CompleteSubscriptionOrder (demo_env False) ''S1'' ''{}'' ''epay'' ''wxpay'' demo_sub_order_store = (None, s')"
    using demo_order_completes by blast
  show ?thesis using subscription_order_delivered_once [OF ok run] run by blast
qed

section \<open>Paying with the wallet\<close>

lemma purchase_body_ok:
  assumes "purchase_body pe env k u p s = (Inr r, s')"
  shows "\<exists>(plan :: SubscriptionPlan) need x. plan_Enabled plan \<and> plan_AllowBalancePay plan \<noteq> Some False
    \<and> calcSubscriptionBalanceQuota pe env (plan_PriceAmount plan) = Inr need \<and> (0 < need \<longrightarrow> need \<le> quota_of s u)
    \<and> (\<forall>i. quota_of s' i = quota_of s i - (if i = u then max 0 need else 0))
    \<and> subs (db s') = subs (db s) @ [x] \<and> sub_UserId x = u \<and> sub_PlanId x = plan_Id plan"
proof -
  obtain p1 s1 where p1: "getSubscriptionPlanByIdTx env p s = (p1, s1)" by fastforce
  then have d1: "db s1 = db s" by (rule getPlan_db)
  obtain plan need where plan: "p1 = Inr plan" "plan_Enabled plan" "plan_AllowBalancePay plan \<noteq> Some False"
    "\<not> float_neg (plan_PriceAmount plan)" "calcSubscriptionBalanceQuota pe env (plan_PriceAmount plan) = Inr need"
    using assms p1 by (cases p1) (auto simp: purchase_body_def split: if_splits sum.splits)
  obtain f s2 where f: "find_user u s1 = (f, s2)" by fastforce
  obtain user where user: "f = Inr user" "\<not> (0 < need \<and> user_Quota user < need)"
    using assms p1 plan f by (cases f) (auto simp: purchase_body_def split: if_splits)
  have row: "row user_Id (users (db s)) u = Some user" "db s2 = db s"
    using f user(1) d1 by (auto simp: find_user_def case_stmt split: if_splits option.splits)
  obtain e s3 where c: "charge_wallet u need s2 = (e, s3)" by fastforce
  have e: "e = None" using assms p1 plan f user c by (auto simp: purchase_body_def split: option.splits)
  have q3: "quota_of s3 i = quota_of s i - (if i = u then max 0 need else 0)" "subs (db s3) = subs (db s)" for i
    using c e row(1,2) by (auto simp: charge_wallet_def case_stmt set_users_def quota_of_def row_upd_row split: if_splits option.splits)
  obtain x s4 where x: "CreateUserSubscriptionFromPlanTx env u plan ''balance'' s3 = (x, s4)" by fastforce
  obtain sub where sub: "x = Inr sub" using assms p1 plan f user c e x by (cases x) (auto simp: purchase_body_def)
  note cr = Create_ok [OF x [unfolded sub]] Create_frame(3) [OF x [unfolded sub]]
  obtain e5 s5 where o: "create_order (balance_order env k u plan need) s4 = (e5, s5)" by fastforce
  have "s5 = s'" using assms p1 plan f user c e x sub o by (auto simp: purchase_body_def split: option.splits)
  then have "subs (db s') = subs (db s4)" "quota_of s' i = quota_of s4 i" for i
    using o by (auto simp: create_order_def case_stmt fresh_id_def set_orders_def quota_of_def split: if_splits)
  then have "(\<forall>i. quota_of s' i = quota_of s i - (if i = u then max 0 need else 0))
    \<and> subs (db s') = subs (db s) @ [sub] \<and> sub_UserId sub = u \<and> sub_PlanId sub = plan_Id plan"
    using cr q3 by auto
  moreover have "0 < need \<longrightarrow> need \<le> quota_of s u" using user(2) row(1) by (auto simp: quota_of_def)
  ultimately show ?thesis using plan(2,3,5) by (intro exI [of _ plan] exI [of _ need] exI [of _ sub]) simp
qed


definition demo_rich :: store where
  "demo_rich = (demo_sub_store 0 [] [])\<lparr>db := (db (demo_sub_store 0 [] []))\<lparr>users := [demo_user 1 6000000]\<rparr>\<rparr>"

lemma demo_purchase:
  "\<exists>s'. PurchaseSubscriptionWithBalance demo_pay (demo_env False) ''B1'' 1 3 demo_rich = (None, s') \<and> quota_of s' 1 = 1000000"
proof -
  have "TrimSpace '''' = ''''" by code_simp
  moreover obtain e where "calcPlanEndTime (fixed_zone 0) 1700000000 (NormalizeDefaults demo_plan) = Inr e"
    by (simp add: calcPlanEndTime_def demo_plan_def NormalizeDefaults_def)
  ultimately show ?thesis
    by (simp add: PurchaseSubscriptionWithBalance_def purchase_body_def transaction_eq tx_end_eq demo_rich_def
        getSubscriptionPlanByIdTx_def CreateUserSubscriptionFromPlanTx_def check_purchase_limit_def
        GetDBTimestamp_def upgrade_buyer_def insert_sub_def fresh_id_def set_subs_def find_user_def charge_wallet_def set_users_def
        calcSubscriptionBalanceQuota_def demo_pay_def create_order_def balance_order_def quota_of_def
        set_orders_def NormalizeDefaults_def demo_sub_defs Let_def)
qed


end
