(* ===== verification/Rewards.thy ===== *)
theory Rewards
  imports Orders
begin

text \<open>
  Redemption codes (src/model/redemption.go) and the daily check-in (src/model/checkin.go): the
  operations that give quota away outside the payment providers.
\<close>

section \<open>Redemption codes\<close>

definition set_redemptions :: "(Redemption list \<Rightarrow> Redemption list) \<Rightarrow> store \<Rightarrow> store" where
  "set_redemptions f s = s\<lparr>db := (db s)\<lparr>redemptions := f (redemptions (db s))\<rparr>\<rparr>"

definition GetAllRedemptions :: "int \<Rightarrow> int \<Rightarrow> store \<Rightarrow> (error + Redemption list \<times> int) \<times> store" where
  "GetAllRedemptions startIdx num s = paged_tx ErrDB redemptions red_Id startIdx num s"

definition keyword_match :: "(string \<Rightarrow> string \<Rightarrow> bool) \<Rightarrow> string \<Rightarrow> Redemption \<Rightarrow> bool" where
  "keyword_match like keyword r \<longleftrightarrow>
    keyword = '''' \<or> (case Atoi keyword of None \<Rightarrow> False | Some i \<Rightarrow> red_Id r = i) \<or> like (red_Name r) (keyword @ ''%'')"

definition status_match :: "int \<Rightarrow> string \<Rightarrow> Redemption \<Rightarrow> bool" where
  "status_match now status r \<longleftrightarrow>
    (if status = ''expired'' then red_Status r = 1 \<and> red_ExpiredTime r \<noteq> 0 \<and> red_ExpiredTime r < now
     else if status = ''1'' then red_Status r = 1 \<and> (red_ExpiredTime r = 0 \<or> now \<le> red_ExpiredTime r)
     else if status = ''2'' then red_Status r = 2
     else if status = ''3'' then red_Status r = 3
     else True)"

definition SearchRedemptions ::
    "(string \<Rightarrow> string \<Rightarrow> bool) \<Rightarrow> env \<Rightarrow> string \<Rightarrow> string \<Rightarrow> int \<Rightarrow> int \<Rightarrow> store \<Rightarrow> (error + Redemption list \<times> int) \<times> store" where
  "SearchRedemptions like env keyword status startIdx num s =
    paged_tx ErrDB (\<lambda>t. filter (\<lambda>r. keyword_match like keyword r \<and> status_match (GetTimestamp env) status r) (redemptions t))
      red_Id startIdx num s"

definition GetRedemptionById :: "int \<Rightarrow> store \<Rightarrow> (error + Redemption) \<times> store" where
  "GetRedemptionById i s =
    (if i = 0 then (Inl ErrEmptyId, s)
     else case stmt s of
       (False, s1) \<Rightarrow> (Inl ErrDB, s1)
     | (True, s1) \<Rightarrow>
        (case row red_Id (redemptions (db s1)) i of None \<Rightarrow> (Inl ErrRecordNotFound, s1) | Some r \<Rightarrow> (Inr r, s1)))"

text \<open>The compare-and-swap on the status: every enabled row with the identifier; the count of rows decides.\<close>

definition mark_used :: "env \<Rightarrow> int \<Rightarrow> int \<Rightarrow> store \<Rightarrow> (error + int) \<times> store" where
  "mark_used env i userId s =
    (case stmt s of
       (False, s1) \<Rightarrow> (Inl ErrDB, s1)
     | (True, s1) \<Rightarrow>
         (Inr (int (length (filter (\<lambda>r. red_Id r = i \<and> red_Status r = 1) (redemptions (db s1))))),
          set_redemptions (map (\<lambda>r. if red_Id r = i \<and> red_Status r = 1
            then r\<lparr>red_RedeemedTime := GetTimestamp env, red_Status := 3, red_UsedUserId := userId\<rparr> else r)) s1))"

definition redeem_body :: "env \<Rightarrow> string \<Rightarrow> int \<Rightarrow> store \<Rightarrow> (error + int) \<times> store" where
  "redeem_body env key userId s =
    (case (case stmt s of (False, s1) \<Rightarrow> (None, s1) | (True, s1) \<Rightarrow> (row red_Key (redemptions (db s1)) key, s1)) of
       (None, s1) \<Rightarrow> (Inl ErrRedemptionInvalid, s1)
     | (Some redemption, s1) \<Rightarrow>
         if red_Status redemption \<noteq> 1 then (Inl ErrRedemptionUsed, s1)
         else if red_ExpiredTime redemption \<noteq> 0 \<and> red_ExpiredTime redemption < GetTimestamp env
         then (Inl ErrRedemptionExpired, s1)
         else case mark_used env (red_Id redemption) userId s1 of
           (Inl e, s2) \<Rightarrow> (Inl e, s2)
         | (Inr n, s2) \<Rightarrow>
             if n = 0 then (Inl ErrRedemptionUsed, s2)
             else case update_user userId (\<lambda>u. u\<lparr>user_Quota := user_Quota u + red_Quota redemption\<rparr>) s2 of
               (Some e, s3) \<Rightarrow> (Inl e, s3)
             | (None, s3) \<Rightarrow> (Inr (red_Quota redemption), s3))"

definition Redeem :: "env \<Rightarrow> string \<Rightarrow> int \<Rightarrow> store \<Rightarrow> (error + int) \<times> store" where
  "Redeem env key userId s =
    (if key = '''' then (Inl ErrRedemptionNotProvided, s)
     else if userId = 0 then (Inl ErrInvalidUserId, s)
     else case transaction (redeem_body env key userId) s of
       (Inl e, s1) \<Rightarrow> (Inl (ErrRedeemFailed e), s1)
     | (Inr quota, s1) \<Rightarrow> (Inr quota, emit (RecordLog userId) s1))"

text \<open>\<open>Create\<close> writes the column defaults for zero values; the key has a unique index.\<close>

definition Redemption_Insert :: "Redemption \<Rightarrow> store \<Rightarrow> error option \<times> store" where
  "Redemption_Insert redemption s =
    (case stmt s of
       (False, s1) \<Rightarrow> (Some ErrDB, s1)
     | (True, s1) \<Rightarrow>
         if row red_Key (redemptions (db s1)) (red_Key redemption) \<noteq> None then (Some ErrDB, s1)
         else case fresh_id s1 of
                (i, s2) \<Rightarrow> (None, set_redemptions (\<lambda>rs. rs @ [redemption\<lparr>red_Id := i,
                  red_Status := (if red_Status redemption = 0 then 1 else red_Status redemption),
                  red_Quota := (if red_Quota redemption = 0 then 100 else red_Quota redemption)\<rparr>]) s2))"

definition write_redemption :: "Redemption \<Rightarrow> (Redemption \<Rightarrow> Redemption) \<Rightarrow> store \<Rightarrow> error option \<times> store" where
  "write_redemption redemption f s =
    (case stmt s of
       (False, s1) \<Rightarrow> (Some ErrDB, s1)
     | (True, s1) \<Rightarrow> (None, set_redemptions (upd_row red_Id (red_Id redemption) f) s1))"

definition Redemption_SelectUpdate :: "Redemption \<Rightarrow> store \<Rightarrow> error option \<times> store" where
  "Redemption_SelectUpdate redemption s =
    write_redemption redemption (\<lambda>r. r\<lparr>red_RedeemedTime := red_RedeemedTime redemption, red_Status := red_Status redemption\<rparr>) s"

definition Redemption_Update :: "Redemption \<Rightarrow> store \<Rightarrow> error option \<times> store" where
  "Redemption_Update redemption s =
    write_redemption redemption (\<lambda>r. r\<lparr>red_Name := red_Name redemption, red_Status := red_Status redemption,
      red_Quota := red_Quota redemption, red_RedeemedTime := red_RedeemedTime redemption,
      red_ExpiredTime := red_ExpiredTime redemption\<rparr>) s"

definition Redemption_Delete :: "Redemption \<Rightarrow> store \<Rightarrow> error option \<times> store" where
  "Redemption_Delete redemption s =
    (case stmt s of
       (False, s1) \<Rightarrow> (Some ErrDB, s1)
     | (True, s1) \<Rightarrow> (None, set_redemptions (filter (\<lambda>r. red_Id r \<noteq> red_Id redemption)) s1))"

definition DeleteRedemptionById :: "int \<Rightarrow> store \<Rightarrow> error option \<times> store" where
  "DeleteRedemptionById i s =
    (case GetRedemptionById i s of
       (Inl e, s1) \<Rightarrow> (Some e, s1)
     | (Inr redemption, s1) \<Rightarrow> Redemption_Delete redemption s1)"

definition invalid_code :: "int \<Rightarrow> Redemption \<Rightarrow> bool" where
  "invalid_code now r \<longleftrightarrow> red_Status r \<in> {3, 2} \<or> red_Status r = 1 \<and> red_ExpiredTime r \<noteq> 0 \<and> red_ExpiredTime r < now"

definition DeleteInvalidRedemptions :: "env \<Rightarrow> store \<Rightarrow> (error + int) \<times> store" where
  "DeleteInvalidRedemptions env s =
    (case stmt s of
       (False, s1) \<Rightarrow> (Inl ErrDB, s1)
     | (True, s1) \<Rightarrow>
         (Inr (int (length (filter (invalid_code (GetTimestamp env)) (redemptions (db s1))))),
          set_redemptions (filter (\<lambda>r. \<not> invalid_code (GetTimestamp env) r)) s1))"

section \<open>Daily check-in\<close>

record CheckinSetting =
  chs_Enabled :: bool
  chs_MinQuota :: int
  chs_MaxQuota :: int

definition pad2 :: "int \<Rightarrow> string" where
  "pad2 n = (if n < 10 then CHR ''0'' # Itoa n else Itoa n)"

text \<open>\<open>time.Now().Format("2006-01-02")\<close> for years of four digits.\<close>

definition format_date :: "location \<Rightarrow> int \<Rightarrow> string" where
  "format_date loc t = (case time_civil loc t of (y, m, d) \<Rightarrow> Itoa y @ ''-'' @ pad2 m @ ''-'' @ pad2 d)"

definition today :: "env \<Rightarrow> string" where
  "today env = format_date (Local env) (GetTimestamp env)"

definition set_checkins :: "(Checkin list \<Rightarrow> Checkin list) \<Rightarrow> store \<Rightarrow> store" where
  "set_checkins f s = s\<lparr>db := (db s)\<lparr>checkins := f (checkins (db s))\<rparr>\<rparr>"

definition checkin_on :: "int \<Rightarrow> string \<Rightarrow> Checkin \<Rightarrow> bool" where
  "checkin_on userId date c \<longleftrightarrow> chk_UserId c = userId \<and> chk_CheckinDate c = date"

definition HasCheckedInToday :: "env \<Rightarrow> int \<Rightarrow> store \<Rightarrow> (error + bool) \<times> store" where
  "HasCheckedInToday env userId s =
    (case stmt s of
       (False, s1) \<Rightarrow> (Inl ErrDB, s1)
     | (True, s1) \<Rightarrow> (Inr (\<exists>c \<in> set (checkins (db s1)). checkin_on userId (today env) c), s1))"

text \<open>User and date have a unique index.\<close>

definition create_checkin :: "Checkin \<Rightarrow> store \<Rightarrow> (error + Checkin) \<times> store" where
  "create_checkin checkin s =
    (case stmt s of
       (False, s1) \<Rightarrow> (Inl ErrCheckinFailed, s1)
     | (True, s1) \<Rightarrow>
         if \<exists>c \<in> set (checkins (db s1)). checkin_on (chk_UserId checkin) (chk_CheckinDate checkin) c then (Inl ErrCheckinFailed, s1)
         else case fresh_id s1 of
                (i, s2) \<Rightarrow> (Inr (checkin\<lparr>chk_Id := i\<rparr>), set_checkins (\<lambda>cs. cs @ [checkin\<lparr>chk_Id := i\<rparr>]) s2))"

definition userCheckinWithTransaction :: "Checkin \<Rightarrow> int \<Rightarrow> int \<Rightarrow> store \<Rightarrow> (error + Checkin) \<times> store" where
  "userCheckinWithTransaction checkin userId quotaAwarded s =
    (case transaction (\<lambda>s0.
       (case create_checkin checkin s0 of
          (Inl e, s1) \<Rightarrow> (Inl e, s1)
        | (Inr c, s1) \<Rightarrow>
           (case update_user userId (\<lambda>u. u\<lparr>user_Quota := user_Quota u + quotaAwarded\<rparr>) s1 of
              (Some _, s2) \<Rightarrow> (Inl ErrCheckinQuota, s2)
            | (None, s2) \<Rightarrow> (Inr c, s2)))) s of
       (Inl e, s1) \<Rightarrow> (Inl e, s1)
     | (Inr c, s1) \<Rightarrow> (Inr c, emit (CacheIncrUserQuota userId quotaAwarded) s1))"

text \<open>Without a transaction the record is deleted again when the quota cannot be added; that deletion may fail too.\<close>

definition userCheckinWithoutTransaction :: "env \<Rightarrow> Checkin \<Rightarrow> int \<Rightarrow> int \<Rightarrow> store \<Rightarrow> (error + Checkin) \<times> store" where
  "userCheckinWithoutTransaction env checkin userId quotaAwarded s =
    (case create_checkin checkin s of
       (Inl e, s1) \<Rightarrow> (Inl e, s1)
     | (Inr c, s1) \<Rightarrow>
        (case IncreaseUserQuota env userId quotaAwarded True s1 of
           (Some _, s2) \<Rightarrow>
             (Inl ErrCheckinQuota,
              case stmt s2 of
                (False, s3) \<Rightarrow> s3
              | (True, s3) \<Rightarrow> set_checkins (filter (\<lambda>x. chk_Id x \<noteq> chk_Id c)) s3)
         | (None, s2) \<Rightarrow> (Inr c, s2)))"

text \<open>\<open>Intn\<close> stands for the random number, \<open>sqlite\<close> for the kind of the database.\<close>

definition checkin_award :: "(int \<Rightarrow> int) \<Rightarrow> CheckinSetting \<Rightarrow> int" where
  "checkin_award Intn setting =
    (if chs_MinQuota setting < chs_MaxQuota setting
     then chs_MinQuota setting + Intn (chs_MaxQuota setting - chs_MinQuota setting + 1)
     else chs_MinQuota setting)"

definition UserCheckin ::
    "(int \<Rightarrow> int) \<Rightarrow> bool \<Rightarrow> CheckinSetting \<Rightarrow> env \<Rightarrow> int \<Rightarrow> store \<Rightarrow> (error + Checkin) \<times> store" where
  "UserCheckin Intn sqlite setting env userId s =
    (if \<not> chs_Enabled setting then (Inl ErrCheckinDisabled, s)
     else case HasCheckedInToday env userId s of
       (Inl e, s1) \<Rightarrow> (Inl e, s1)
     | (Inr True, s1) \<Rightarrow> (Inl ErrCheckinDone, s1)
     | (Inr False, s1) \<Rightarrow>
         (let quotaAwarded = checkin_award Intn setting;
              checkin = \<lparr>chk_Id = 0, chk_UserId = userId, chk_CheckinDate = today env, chk_QuotaAwarded = quotaAwarded,
                         chk_CreatedAt = GetTimestamp env\<rparr>
          in if sqlite then userCheckinWithoutTransaction env checkin userId quotaAwarded s1
             else userCheckinWithTransaction checkin userId quotaAwarded s1))"

section \<open>A code is redeemed once\<close>

definition code_used :: "string \<Rightarrow> store \<Rightarrow> bool" where
  "code_used key s \<longleftrightarrow>
    (case row red_Key (redemptions (db s)) key of None \<Rightarrow> False | Some r \<Rightarrow> red_Status r \<noteq> 1)"

lemma redeem_body_ok:
  assumes "redeem_body env key u s = (Inr q, s')"
  shows "\<exists>r. row red_Key (redemptions (db s)) key = Some r \<and> red_Status r = 1 \<and> red_Quota r = q
    \<and> (red_ExpiredTime r = 0 \<or> GetTimestamp env \<le> red_ExpiredTime r) \<and> row user_Id (users (db s)) u \<noteq> None
    \<and> users (db s') = upd_row user_Id u (\<lambda>x. x\<lparr>user_Quota := user_Quota x + q\<rparr>) (users (db s))
    \<and> redemptions (db s') = map (\<lambda>x. if red_Id x = red_Id r \<and> red_Status x = 1
        then x\<lparr>red_RedeemedTime := GetTimestamp env, red_Status := 3, red_UsedUserId := u\<rparr> else x) (redemptions (db s))"
  using assms
  by (auto simp: redeem_body_def case_stmt mark_used_def set_redemptions_def update_user_eq split: if_splits option.splits)

lemma row_marked:
  assumes "row red_Key rs key = Some r" "red_Status r = 1"
  shows "\<exists>r'. row red_Key (map (\<lambda>x. if red_Id x = red_Id r \<and> red_Status x = 1
        then x\<lparr>red_RedeemedTime := t, red_Status := 3, red_UsedUserId := u\<rparr> else x) rs) key = Some r' \<and> red_Status r' = 3"
  using assms by (induction rs) auto

lemma redeem_body_used: "code_used key s \<Longrightarrow> \<exists>e s1. redeem_body env key u s = (Inl e, s1)"
  by (auto simp: redeem_body_def code_used_def case_stmt split: option.splits)

lemma Redeem_used:
  assumes "code_used key s"
  shows "(\<exists>e. fst (Redeem env key u s) = Inl e) \<and> db (snd (Redeem env key u s)) = db s"
proof -
  obtain r s1 where t: "transaction (redeem_body env key u) s = (r, s1)" by fastforce
  have "\<exists>e. r = Inl e"
  proof (rule ccontr)
    assume "\<not> (\<exists>e. r = Inl e)"
    then obtain q where q: "r = Inr q" by (cases r) auto
    obtain s2 where "redeem_body env key u (snd (stmt s)) = (Inr q, s2)" by (rule transaction_okD [OF t [unfolded q]])
    moreover have "code_used key (snd (stmt s))" using assms by (simp add: code_used_def)
    ultimately show False using redeem_body_used [of key "snd (stmt s)" env u] by auto
  qed
  then obtain e where e: "r = Inl e" ..
  then have "db s1 = db s" using transaction_errD [OF t [unfolded e]] by simp
  then show ?thesis using t e by (simp add: Redeem_def)
qed

text \<open>
  C20. A redemption code gives its quota once.  A redemption that fails has changed nothing; one that
  succeeds had an enabled, unexpired code, gave exactly the code's quota to the user who redeemed it and
  nothing to anybody else, and from then on every redemption of the code fails and changes nothing.
\<close>

theorem code_redeemed_once:
  assumes "Redeem env key u s = (res, s')"
  shows "(\<forall>e. res = Inl e \<longrightarrow> db s' = db s) \<and> (\<forall>q. res = Inr q \<longrightarrow>
    (\<exists>r. row red_Key (redemptions (db s)) key = Some r \<and> red_Status r = 1 \<and> red_Quota r = q
      \<and> (red_ExpiredTime r = 0 \<or> GetTimestamp env \<le> red_ExpiredTime r))
    \<and> (\<forall>i. quota_of s' i = quota_of s i + (if i = u then q else 0))
    \<and> (\<forall>env' u' s2. db s2 = db s' \<longrightarrow>
        (\<exists>e. fst (Redeem env' key u' s2) = Inl e) \<and> db (snd (Redeem env' key u' s2)) = db s'))"
proof (cases "key = '''' \<or> u = 0")
  case True
  then have "s' = s" "\<exists>e. res = Inl e" using assms by (auto simp: Redeem_def split: if_splits)
  then show ?thesis by auto
next
  case False
  obtain r s1 where t: "transaction (redeem_body env key u) s = (r, s1)" by fastforce
  show ?thesis
  proof (cases r)
    case (Inl e)
    then have "db s' = db s" "res = Inl (ErrRedeemFailed e)"
      using assms False t transaction_errD [OF t [unfolded Inl]] by (auto simp: Redeem_def)
    then show ?thesis by simp
  next
    case (Inr q)
    then have res: "res = Inr q" "db s' = db s1" using assms False t by (auto simp: Redeem_def)
    obtain s2 where b: "redeem_body env key u (snd (stmt s)) = (Inr q, s2)" "db s1 = db s2"
      by (rule transaction_okD [OF t [unfolded Inr]])
    then obtain c where c: "row red_Key (redemptions (db s)) key = Some c" "red_Status c = 1" "red_Quota c = q"
      "red_ExpiredTime c = 0 \<or> GetTimestamp env \<le> red_ExpiredTime c" "row user_Id (users (db s)) u \<noteq> None"
      "users (db s') = upd_row user_Id u (\<lambda>x. x\<lparr>user_Quota := user_Quota x + q\<rparr>) (users (db s))"
      "redemptions (db s') = map (\<lambda>x. if red_Id x = red_Id c \<and> red_Status x = 1
        then x\<lparr>red_RedeemedTime := GetTimestamp env, red_Status := 3, red_UsedUserId := u\<rparr> else x) (redemptions (db s))"
      using redeem_body_ok [OF b(1)] res(2) b(2) by auto
    have q: "quota_of s' i = quota_of s i + (if i = u then q else 0)" for i
      using c(5,6) by (auto simp: quota_of_def row_upd_row split: option.splits)
    have used: "code_used key s2" if "db s2 = db s'" for s2 :: store
      using row_marked [OF c(1,2), where t = "GetTimestamp env" and u = u] c(7) that by (auto simp: code_used_def)
    have "(\<exists>e. fst (Redeem env' key u' s2) = Inl e) \<and> db (snd (Redeem env' key u' s2)) = db s'" if "db s2 = db s'" for env' u' s2
      using Redeem_used [OF used [OF that], of env' u'] that by simp
    then show ?thesis using res(1) c(1-4) q by simp
  qed
qed

definition demo_code :: Redemption where
  "demo_code = \<lparr>red_Id = 8, red_UserId = 1, red_Key = ''R1'', red_Status = 1, red_Name = ''gift'', red_Quota = 250,
     red_CreatedTime = 0, red_RedeemedTime = 0, red_UsedUserId = 0, red_ExpiredTime = 0\<rparr>"

definition demo_code_store :: store where
  "demo_code_store = demo_store\<lparr>db := (db demo_store)\<lparr>redemptions := [demo_code], next_id := 10\<rparr>\<rparr>"

lemma demo_redeem: "\<exists>s'. Redeem (demo_env False) ''R1'' 1 demo_code_store = (Inr 250, s')"
  by (simp add: Redeem_def redeem_body_def transaction_eq tx_end_eq mark_used_def set_redemptions_def update_user_eq
      demo_code_store_def demo_code_def demo_defs)

theorem code_redeemed_once_witness:
  "\<exists>s'. Redeem (demo_env False) ''R1'' 1 demo_code_store = (Inr 250, s') \<and> quota_of s' 1 = quota_of demo_code_store 1 + 250
     \<and> (\<exists>e. fst (Redeem (demo_env False) ''R1'' 1 s') = Inl e)"
proof -
  obtain s' where "Redeem (demo_env False) ''R1'' 1 demo_code_store = (Inr 250, s')" using demo_redeem ..
  then show ?thesis using code_redeemed_once [of "demo_env False" "''R1''" 1 demo_code_store "Inr 250" s'] by simp
qed

section \<open>One check-in a day\<close>

lemma create_checkin_ok:
  assumes "create_checkin c s = (Inr c', s')"
  shows "checkins (db s') = checkins (db s) @ [c']" "users (db s') = users (db s)" "chk_UserId c' = chk_UserId c"
    "chk_CheckinDate c' = chk_CheckinDate c" "chk_QuotaAwarded c' = chk_QuotaAwarded c" "faults s' = faults (snd (stmt s))"
    "\<not> (\<exists>x \<in> set (checkins (db s)). checkin_on (chk_UserId c) (chk_CheckinDate c) x)"
  using assms
  by (auto simp: create_checkin_def case_stmt fresh_id_def set_checkins_def split: if_splits)

lemma quota_added:
  assumes "users (db s') = upd_row user_Id u (\<lambda>x. x\<lparr>user_Quota := user_Quota x + q\<rparr>) (users (db s))"
    "row user_Id (users (db s)) u \<noteq> None"
  shows "quota_of s' i = quota_of s i + (if i = u then q else 0)"
  using assms by (auto simp: quota_of_def row_upd_row split: option.splits)

lemma increase_direct:
  assumes "IncreaseUserQuota env u q True s = (None, s')"
  shows "row user_Id (users (db s)) u \<noteq> None \<and> users (db s') = upd_row user_Id u (\<lambda>x. x\<lparr>user_Quota := user_Quota x + q\<rparr>) (users (db s))
    \<and> checkins (db s') = checkins (db s)"
  using assms
  by (auto simp: IncreaseUserQuota_def increaseUserQuota_def update_user_eq split: if_splits prod.splits option.splits)

definition checked_in :: "env \<Rightarrow> int \<Rightarrow> int \<Rightarrow> store \<Rightarrow> Checkin \<Rightarrow> store \<Rightarrow> bool" where
  "checked_in env u award s c s' \<longleftrightarrow>
    \<not> (\<exists>x \<in> set (checkins (db s)). checkin_on u (today env) x) \<and> checkins (db s') = checkins (db s) @ [c]
    \<and> checkin_on u (today env) c \<and> chk_QuotaAwarded c = award
    \<and> (\<forall>i. quota_of s' i = quota_of s i + (if i = u then award else 0))"

lemma checked_in_db: "db s1 = db s \<Longrightarrow> db s2 = db s' \<Longrightarrow> checked_in env u q s1 c s2 = checked_in env u q s c s'"
  by (simp add: checked_in_def quota_of_def)

lemma with_transaction_ok:
  assumes "userCheckinWithTransaction x u q s = (Inr c, s')" "chk_UserId x = u" "chk_CheckinDate x = today env" "chk_QuotaAwarded x = q"
  shows "checked_in env u q s c s'"
proof -
  let ?body = "\<lambda>s0. (case create_checkin x s0 of (Inl e, s1) \<Rightarrow> (Inl e, s1) | (Inr c, s1) \<Rightarrow>
     (case update_user u (\<lambda>y. y\<lparr>user_Quota := user_Quota y + q\<rparr>) s1 of (Some _, s2) \<Rightarrow> (Inl ErrCheckinQuota, s2) | (None, s2) \<Rightarrow> (Inr c, s2)))"
  obtain r s1 where t: "transaction ?body s = (r, s1)" by fastforce
  have r: "r = Inr c" "db s' = db s1"
    using assms(1) unfolding userCheckinWithTransaction_def t by (cases r; auto)+
  obtain s2 where b: "?body (snd (stmt s)) = (Inr c, s2)" "db s1 = db s2" by (rule transaction_okD [OF t [unfolded r(1)]])
  obtain y s3 where y: "create_checkin x (snd (stmt s)) = (y, s3)" by fastforce
  then have "y = Inr c" using b(1) by (cases y) (auto split: option.splits prod.splits)
  then have cr: "create_checkin x (snd (stmt s)) = (Inr c, s3)" using y by simp
  have u: "row user_Id (users (db s3)) u \<noteq> None" "users (db s2) = upd_row user_Id u (\<lambda>y. y\<lparr>user_Quota := user_Quota y + q\<rparr>) (users (db s3))"
    "checkins (db s2) = checkins (db s3)"
    using b(1) cr by (auto simp: update_user_eq split: if_splits)
  have "users (db s3) = users (db s)" using create_checkin_ok(2) [OF cr] by simp
  then have "quota_of s2 i = quota_of s i + (if i = u then q else 0)" for i
    using quota_added [of s2 u q s] u by simp
  then have "checked_in env u q s c s2"
    using create_checkin_ok [OF cr] u(3) assms(2-4) by (auto simp: checked_in_def checkin_on_def)
  then show ?thesis using checked_in_db [of s s s2 s'] r(2) b(2) by simp
qed

lemma without_transaction_ok:
  assumes "userCheckinWithoutTransaction env x u q s = (Inr c, s')" "chk_UserId x = u" "chk_CheckinDate x = today env" "chk_QuotaAwarded x = q"
  shows "checked_in env u q s c s'"
proof -
  obtain y s1 where y: "create_checkin x s = (y, s1)" by fastforce
  obtain e s2 where e: "IncreaseUserQuota env u q True s1 = (e, s2)" by fastforce
  have r: "y = Inr c" "e = None" "s2 = s'"
    using assms(1) y e by (cases y; cases e; simp add: userCheckinWithoutTransaction_def)+
  have cr: "create_checkin x s = (Inr c, s1)" and i: "IncreaseUserQuota env u q True s1 = (None, s')" using y e r by simp_all
  note inc = increase_direct [OF i]
  have "quota_of s' j = quota_of s j + (if j = u then q else 0)" for j
    using quota_added [of s' u q s] inc create_checkin_ok(2) [OF cr] by simp
  then show ?thesis
    using create_checkin_ok [OF cr] inc assms(2-4) by (auto simp: checked_in_def checkin_on_def)
qed

lemma UserCheckin_again:
  assumes "\<exists>x \<in> set (checkins (db s)). checkin_on u (today env) x"
  shows "(\<exists>e. fst (UserCheckin Intn sqlite setting env u s) = Inl e) \<and> db (snd (UserCheckin Intn sqlite setting env u s)) = db s"
  using assms by (auto simp: UserCheckin_def HasCheckedInToday_def case_stmt)

text \<open>
  C32. A user checks in at most once a day, on every kind of database.  A check-in that succeeds was the first of the user on that day,
  gave that user alone an award between the two configured bounds and recorded it; every further
  check-in on the day fails and changes nothing.
\<close>

theorem checkin_once_a_day:
  assumes "UserCheckin Intn sqlite setting env u s = (Inr c, s')"
    and "\<And>n. 0 < n \<Longrightarrow> 0 \<le> Intn n \<and> Intn n < n" "chs_MinQuota setting \<le> chs_MaxQuota setting"
  shows "checked_in env u (chk_QuotaAwarded c) s c s'
    \<and> chs_MinQuota setting \<le> chk_QuotaAwarded c \<and> chk_QuotaAwarded c \<le> chs_MaxQuota setting
    \<and> (\<forall>Intn' sqlite' setting' s2. db s2 = db s' \<longrightarrow>
        (\<exists>e. fst (UserCheckin Intn' sqlite' setting' env u s2) = Inl e) \<and> db (snd (UserCheckin Intn' sqlite' setting' env u s2)) = db s')"
proof -
  let ?q = "checkin_award Intn setting"
  let ?x = "\<lparr>chk_Id = 0, chk_UserId = u, chk_CheckinDate = today env, chk_QuotaAwarded = ?q, chk_CreatedAt = GetTimestamp env\<rparr>"
  have run: "(if sqlite then userCheckinWithoutTransaction env ?x u ?q (snd (stmt s)) else userCheckinWithTransaction ?x u ?q (snd (stmt s)))
      = (Inr c, s')"
    using assms(1) by (auto simp: UserCheckin_def HasCheckedInToday_def case_stmt Let_def split: if_splits bool.splits)
  have "checked_in env u ?q (snd (stmt s)) c s'"
    using run with_transaction_ok [of ?x u ?q "snd (stmt s)" c s' env] without_transaction_ok [of env ?x u ?q "snd (stmt s)" c s']
    by (auto split: if_splits)
  then have ok: "checked_in env u ?q s c s'" using checked_in_db [OF stmt_db refl, of env u ?q s c s'] by simp
  then have q: "chk_QuotaAwarded c = ?q" by (simp add: checked_in_def)
  have bounds: "chs_MinQuota setting \<le> ?q \<and> ?q \<le> chs_MaxQuota setting"
    using assms(2) [of "chs_MaxQuota setting - chs_MinQuota setting + 1"] assms(3) by (auto simp: checkin_award_def)
  have "\<exists>x \<in> set (checkins (db s2)). checkin_on u (today env) x" if "db s2 = db s'" for s2 :: store
    using ok that by (auto simp: checked_in_def)
  then have "(\<exists>e. fst (UserCheckin Intn' sqlite' setting' env u s2) = Inl e) \<and> db (snd (UserCheckin Intn' sqlite' setting' env u s2)) = db s'"
    if "db s2 = db s'" for Intn' sqlite' setting' s2
    using UserCheckin_again [of s2 u env Intn' sqlite' setting'] that by simp
  then show ?thesis using ok q bounds by simp
qed

lemma demo_checkin:
  "\<exists>c s'. UserCheckin (\<lambda>n. 0) False \<lparr>chs_Enabled = True, chs_MinQuota = 5, chs_MaxQuota = 9\<rparr> (demo_env False) 1 demo_store = (Inr c, s')"
  by (simp add: UserCheckin_def HasCheckedInToday_def userCheckinWithTransaction_def transaction_eq tx_end_eq create_checkin_def
      fresh_id_def set_checkins_def update_user_eq checkin_award_def demo_defs Let_def)

theorem checkin_once_a_day_witness:
  "\<exists>c s'. UserCheckin (\<lambda>n. 0) False \<lparr>chs_Enabled = True, chs_MinQuota = 5, chs_MaxQuota = 9\<rparr> (demo_env False) 1 demo_store = (Inr c, s')
     \<and> 5 \<le> chk_QuotaAwarded c \<and> chk_QuotaAwarded c \<le> 9"
proof -
  obtain c s' where "UserCheckin (\<lambda>n. 0) False \<lparr>chs_Enabled = True, chs_MinQuota = 5, chs_MaxQuota = 9\<rparr> (demo_env False) 1 demo_store = (Inr c, s')"
    using demo_checkin by blast
  then show ?thesis
    using checkin_once_a_day [of "\<lambda>n. 0" False "\<lparr>chs_Enabled = True, chs_MinQuota = 5, chs_MaxQuota = 9\<rparr>" "demo_env False" 1 demo_store c s'] by auto
qed

end
