(* ===== verification/Advanced_Routes.thy ===== *)
theory Advanced_Routes
  imports Store
begin

text \<open>
  Advanced custom channels (src/dto/channel_settings.go): a channel of this type carries a list of
  routes, and serves a request when one of them matches its path and model.  \<open>Validate\<close> is what a
  configuration has to pass before it is saved.

  \<open>regexp.Compile\<close> and \<open>url.Parse\<close> are the arguments \<open>re_compile\<close> (a pattern that compiles gives its
  matching function) and \<open>url_parse\<close> (scheme and host of a text that parses).  The memo table of compiled patterns
  holds what \<open>regexp.Compile\<close> returned and is left out.
\<close>

section \<open>Data\<close>

record AdvancedCustomRouteAuth =
  auth_Type :: string
  auth_Name :: string
  auth_Value :: string

record AdvancedCustomRoute =
  rt_IncomingPath :: string
  rt_UpstreamPath :: string
  rt_Converter :: string
  rt_Models :: "string list"
  rt_Auth :: "AdvancedCustomRouteAuth option"

record AdvancedCustomConfig =
  Routes :: "AdvancedCustomRoute list"

record ChannelOtherSettings =
  ChannelRequestRateLimitCount :: int
  ChannelRequestRateLimitSuccessCount :: int
  AdvancedCustom :: "AdvancedCustomConfig option"

text \<open>The errors of \<open>Validate\<close>, each with the index of its route.\<close>

datatype route_error =
    ErrAdvancedRequired
  | ErrAdvancedNoRoutes
  | ErrIncomingRequired nat
  | ErrIncomingSlash nat
  | ErrIncomingQuery nat
  | ErrCatchAllExists nat string
  | ErrCatchAllNotLast nat string
  | ErrModelDuplicate nat string string
  | ErrModelOverlaps nat nat string string
  | ErrRegexEmpty nat string string
  | ErrRegexInvalid nat string string
  | ErrUpstreamRequired nat
  | ErrUpstreamTarget nat
  | ErrUpstreamScheme nat
  | ErrConverterUnknown nat string
  | ErrConverterPath nat string
  | ErrAuthName nat
  | ErrAuthValue nat
  | ErrAuthType nat string

type_synonym re_compiler = "string \<Rightarrow> (string \<Rightarrow> bool) option"

section \<open>Matching\<close>

definition advancedCustomModelPlaceholder :: string where
  "advancedCustomModelPlaceholder = ''{model}''"

definition advancedCustomModelRegexPrefix :: string where
  "advancedCustomModelRegexPrefix = ''re:''"

definition normalizeAdvancedCustomRouteModels :: "string list \<Rightarrow> string list" where
  "normalizeAdvancedCustomRouteModels models = filter (\<lambda>m. m \<noteq> []) (map TrimSpace models)"

definition matchAdvancedCustomRouteModelRule :: "re_compiler \<Rightarrow> string \<Rightarrow> string \<Rightarrow> bool" where
  "matchAdvancedCustomRouteModelRule re_compile rule m =
    (if \<not> HasPrefix rule advancedCustomModelRegexPrefix then rule = m
     else let pattern = TrimPrefix rule advancedCustomModelRegexPrefix in
       if pattern = [] then False
       else (case re_compile pattern of None \<Rightarrow> False | Some matches \<Rightarrow> matches m))"

definition matchAdvancedCustomRouteModel :: "re_compiler \<Rightarrow> string list \<Rightarrow> string \<Rightarrow> bool" where
  "matchAdvancedCustomRouteModel re_compile models m =
    (let normalized = normalizeAdvancedCustomRouteModels models in
     normalized = [] \<or> (\<exists>rule \<in> set normalized. matchAdvancedCustomRouteModelRule re_compile rule m))"

definition matchAdvancedCustomIncomingPathTemplate :: "string \<Rightarrow> string \<Rightarrow> bool" where
  "matchAdvancedCustomIncomingPathTemplate configuredPath requestPath =
    (if \<not> Contains configuredPath advancedCustomModelPlaceholder then configuredPath = requestPath
     else case SplitOn configuredPath advancedCustomModelPlaceholder of
       [p, q] \<Rightarrow>
         if \<not> HasPrefix requestPath p \<or> \<not> HasSuffix requestPath q then False
         else let m = TrimSuffix (TrimPrefix requestPath p) q in m \<noteq> [] \<and> \<not> Contains m ''/''
     | _ \<Rightarrow> False)"

definition matchAdvancedCustomIncomingPath :: "string \<Rightarrow> string \<Rightarrow> bool" where
  "matchAdvancedCustomIncomingPath configuredPath requestPath =
    (if matchAdvancedCustomIncomingPathTemplate configuredPath requestPath then True
     else if Contains configuredPath '':generateContent'' then
       matchAdvancedCustomIncomingPathTemplate
         (ReplaceFirst configuredPath '':generateContent'' '':streamGenerateContent'') requestPath
     else False)"

definition MatchPath :: "AdvancedCustomConfig option \<Rightarrow> string \<Rightarrow> AdvancedCustomRoute option" where
  "MatchPath c requestPath =
    (case c of None \<Rightarrow> None
     | Some cfg \<Rightarrow> find (\<lambda>r. matchAdvancedCustomIncomingPath (TrimSpace (rt_IncomingPath r)) requestPath) (Routes cfg))"

definition MatchPathForModel ::
    "re_compiler \<Rightarrow> AdvancedCustomConfig option \<Rightarrow> string \<Rightarrow> string \<Rightarrow> AdvancedCustomRoute option" where
  "MatchPathForModel re_compile c requestPath m =
    (case c of None \<Rightarrow> None
     | Some cfg \<Rightarrow>
         find (\<lambda>r. matchAdvancedCustomIncomingPath (TrimSpace (rt_IncomingPath r)) requestPath \<and>
                   matchAdvancedCustomRouteModel re_compile (rt_Models r) (TrimSpace m)) (Routes cfg))"

definition SupportsPath :: "AdvancedCustomConfig option \<Rightarrow> string \<Rightarrow> bool" where
  "SupportsPath c requestPath = (MatchPath c requestPath \<noteq> None)"

definition SupportsPathForModel :: "re_compiler \<Rightarrow> AdvancedCustomConfig option \<Rightarrow> string \<Rightarrow> string \<Rightarrow> bool" where
  "SupportsPathForModel re_compile c requestPath m = (MatchPathForModel re_compile c requestPath m \<noteq> None)"

definition isAdvancedCustomGeminiIncomingPath :: "string \<Rightarrow> bool" where
  "isAdvancedCustomGeminiIncomingPath p =
    (if \<not> HasPrefix p ''/v1beta/models/'' then False
     else Contains p '':generateContent'' \<or> Contains p '':streamGenerateContent'')"

definition advancedCustomEndpointTypeFromIncomingPath :: "string \<Rightarrow> string option" where
  "advancedCustomEndpointTypeFromIncomingPath p =
    (if p = ''/v1/chat/completions'' then Some ''openai''
     else if p = ''/v1/responses'' then Some ''openai-response''
     else if p = ''/v1/responses/compact'' then Some ''openai-response-compact''
     else if p = ''/v1/messages'' then Some ''anthropic''
     else if p = ''/v1/rerank'' then Some ''jina-rerank''
     else if p = ''/v1/images/generations'' then Some ''image-generation''
     else if p = ''/v1/embeddings'' then Some ''embeddings''
     else if isAdvancedCustomGeminiIncomingPath p then Some ''gemini'' else None)"

fun endpoint_loop :: "re_compiler \<Rightarrow> string \<Rightarrow> AdvancedCustomRoute list \<Rightarrow> string list \<Rightarrow> string list" where
  "endpoint_loop re_compile m [] endpoints = endpoints"
| "endpoint_loop re_compile m (r # rs) endpoints =
    (if \<not> matchAdvancedCustomRouteModel re_compile (rt_Models r) m then endpoint_loop re_compile m rs endpoints
     else case advancedCustomEndpointTypeFromIncomingPath (TrimSpace (rt_IncomingPath r)) of
       None \<Rightarrow> endpoint_loop re_compile m rs endpoints
     | Some t \<Rightarrow> if t \<in> set endpoints then endpoint_loop re_compile m rs endpoints
                 else endpoint_loop re_compile m rs (endpoints @ [t]))"

definition SupportedEndpointTypesForModel :: "re_compiler \<Rightarrow> AdvancedCustomConfig option \<Rightarrow> string \<Rightarrow> string list" where
  "SupportedEndpointTypesForModel re_compile c m =
    (case c of None \<Rightarrow> [] | Some cfg \<Rightarrow> endpoint_loop re_compile (TrimSpace m) (Routes cfg) [])"

section \<open>Validation\<close>

record advancedCustomPathModelState =
  catchAllIndex :: "nat option"
  modelIndexes :: "string \<rightharpoonup> nat"

type_synonym path_states = "string \<rightharpoonup> advancedCustomPathModelState"

definition validateAdvancedCustomRouteModelRule :: "re_compiler \<Rightarrow> nat \<Rightarrow> string \<Rightarrow> string \<Rightarrow> route_error option" where
  "validateAdvancedCustomRouteModelRule re_compile i p m =
    (if \<not> HasPrefix m advancedCustomModelRegexPrefix then None
     else let pattern = TrimPrefix m advancedCustomModelRegexPrefix in
       if pattern = [] then Some (ErrRegexEmpty i p m)
       else if re_compile pattern = None then Some (ErrRegexInvalid i p m)
       else None)"

text \<open>The loop over the models of one route; \<open>seen\<close> is \<open>seenInRoute\<close>.\<close>

fun route_models_loop ::
    "re_compiler \<Rightarrow> nat \<Rightarrow> string \<Rightarrow> string list \<Rightarrow> string list \<Rightarrow> advancedCustomPathModelState \<Rightarrow>
     route_error option \<times> advancedCustomPathModelState" where
  "route_models_loop re_compile i p [] seen st = (None, st)"
| "route_models_loop re_compile i p (m # ms) seen st =
    (case validateAdvancedCustomRouteModelRule re_compile i p m of
       Some e \<Rightarrow> (Some e, st)
     | None \<Rightarrow>
        if m \<in> set seen then (Some (ErrModelDuplicate i p m), st)
        else (case modelIndexes st m of
                Some j \<Rightarrow> (Some (ErrModelOverlaps i j p m), st)
              | None \<Rightarrow> route_models_loop re_compile i p ms (m # seen)
                         (st\<lparr>modelIndexes := (modelIndexes st)(m \<mapsto> i)\<rparr>)))"

definition validateAdvancedCustomRouteModels ::
    "re_compiler \<Rightarrow> nat \<Rightarrow> string \<Rightarrow> string list \<Rightarrow> path_states \<Rightarrow> route_error option \<times> path_states" where
  "validateAdvancedCustomRouteModels re_compile i p models paths =
    (let st = (case paths p of None \<Rightarrow> \<lparr>catchAllIndex = None, modelIndexes = Map.empty\<rparr> | Some st \<Rightarrow> st);
         normalized = normalizeAdvancedCustomRouteModels models
     in if normalized = [] then
          (if catchAllIndex st \<noteq> None then (Some (ErrCatchAllExists i p), paths(p \<mapsto> st))
           else (None, paths(p \<mapsto> st\<lparr>catchAllIndex := Some i\<rparr>)))
        else if catchAllIndex st \<noteq> None then (Some (ErrCatchAllNotLast i p), paths(p \<mapsto> st))
        else (case route_models_loop re_compile i p normalized [] st of
                (e, st') \<Rightarrow> (e, paths(p \<mapsto> st'))))"

text \<open>\<open>strings.EqualFold\<close>; the scheme that \<open>url.Parse\<close> returns is ASCII.\<close>

definition ascii_lower :: "char \<Rightarrow> char" where
  "ascii_lower c = (let n = of_char c :: nat in if 65 \<le> n \<and> n \<le> 90 then char_of (n + 32) else c)"

definition EqualFold :: "string \<Rightarrow> string \<Rightarrow> bool" where
  "EqualFold s t \<longleftrightarrow> map ascii_lower s = map ascii_lower t"

definition validateAdvancedCustomUpstreamTarget ::
    "(string \<Rightarrow> (string \<times> string) option) \<Rightarrow> nat \<Rightarrow> string \<Rightarrow> route_error option" where
  "validateAdvancedCustomUpstreamTarget url_parse i p =
    (if HasPrefix p ''/'' then (if HasPrefix p ''//'' then Some (ErrUpstreamTarget i) else None)
     else case url_parse p of
       None \<Rightarrow> Some (ErrUpstreamTarget i)
     | Some (scheme, host) \<Rightarrow>
         if scheme = [] \<or> host = [] then Some (ErrUpstreamTarget i)
         else if \<not> EqualFold scheme ''http'' \<and> \<not> EqualFold scheme ''https'' then Some (ErrUpstreamScheme i)
         else None)"

definition IsAdvancedCustomConverterAllowed :: "string \<Rightarrow> bool" where
  "IsAdvancedCustomConverterAllowed converter \<longleftrightarrow>
    converter \<in> {''none'', ''anthropic_messages_to_openai_chat_completions'',
      ''openai_chat_completions_to_anthropic_messages'', ''openai_chat_completions_to_openai_responses'',
      ''openai_responses_to_openai_chat_completions'', ''openai_responses_to_gemini_generate_content'',
      ''gemini_generate_content_to_openai_chat_completions'', ''openai_chat_completions_to_gemini_generate_content''}"

definition validateAdvancedCustomConverterPath :: "nat \<Rightarrow> string \<Rightarrow> string \<Rightarrow> route_error option" where
  "validateAdvancedCustomConverterPath i p converter =
    (if converter = ''none'' then None
     else if converter = ''anthropic_messages_to_openai_chat_completions'' \<and> p = ''/v1/messages'' then None
     else if converter \<in> {''openai_chat_completions_to_anthropic_messages'',
          ''openai_chat_completions_to_openai_responses'',
          ''openai_chat_completions_to_gemini_generate_content''} \<and> p = ''/v1/chat/completions'' then None
     else if converter \<in> {''openai_responses_to_openai_chat_completions'',
          ''openai_responses_to_gemini_generate_content''} \<and> p = ''/v1/responses'' then None
     else if converter = ''gemini_generate_content_to_openai_chat_completions'' \<and>
          (Contains p '':generateContent'' \<or> Contains p '':streamGenerateContent'') then None
     else Some (ErrConverterPath i converter))"

definition validateAdvancedCustomRouteAuth :: "nat \<Rightarrow> AdvancedCustomRouteAuth option \<Rightarrow> route_error option" where
  "validateAdvancedCustomRouteAuth i auth =
    (case auth of None \<Rightarrow> None
     | Some a \<Rightarrow>
        let authType = TrimSpace (auth_Type a) in
        if authType = ''none'' then None
        else if authType = ''header'' \<or> authType = ''query'' then
          (if TrimSpace (auth_Name a) = [] then Some (ErrAuthName i)
           else if TrimSpace (auth_Value a) = [] then Some (ErrAuthValue i)
           else None)
        else Some (ErrAuthType i (auth_Type a)))"

text \<open>The first error of a list of checks.\<close>

definition or_else :: "'e option \<Rightarrow> 'e option \<Rightarrow> 'e option" where
  "or_else e f = (case e of None \<Rightarrow> f | Some _ \<Rightarrow> e)"

definition validate_route ::
    "re_compiler \<Rightarrow> (string \<Rightarrow> (string \<times> string) option) \<Rightarrow> nat \<Rightarrow> AdvancedCustomRoute \<Rightarrow> path_states \<Rightarrow>
     route_error option \<times> path_states" where
  "validate_route re_compile url_parse i r paths =
    (let p = TrimSpace (rt_IncomingPath r);
         upstreamPath = TrimSpace (rt_UpstreamPath r);
         converter = (let c = TrimSpace (rt_Converter r) in if c = [] then ''none'' else c)
     in if p = [] then (Some (ErrIncomingRequired i), paths)
        else if \<not> HasPrefix p ''/'' then (Some (ErrIncomingSlash i), paths)
        else if Contains p ''?'' then (Some (ErrIncomingQuery i), paths)
        else (case validateAdvancedCustomRouteModels re_compile i p (rt_Models r) paths of
                (Some e, paths') \<Rightarrow> (Some e, paths')
              | (None, paths') \<Rightarrow>
                 (if upstreamPath = [] then Some (ErrUpstreamRequired i)
                  else or_else (validateAdvancedCustomUpstreamTarget url_parse i upstreamPath)
                   (if \<not> IsAdvancedCustomConverterAllowed converter then Some (ErrConverterUnknown i converter)
                    else or_else (validateAdvancedCustomConverterPath i p converter)
                      (validateAdvancedCustomRouteAuth i (rt_Auth r))), paths')))"

fun validate_loop ::
    "re_compiler \<Rightarrow> (string \<Rightarrow> (string \<times> string) option) \<Rightarrow> nat \<Rightarrow> AdvancedCustomRoute list \<Rightarrow> path_states \<Rightarrow>
     route_error option" where
  "validate_loop re_compile url_parse i [] paths = None"
| "validate_loop re_compile url_parse i (r # rs) paths =
    (case validate_route re_compile url_parse i r paths of
       (Some e, _) \<Rightarrow> Some e
     | (None, paths') \<Rightarrow> validate_loop re_compile url_parse (Suc i) rs paths')"

definition Validate ::
    "re_compiler \<Rightarrow> (string \<Rightarrow> (string \<times> string) option) \<Rightarrow> AdvancedCustomConfig option \<Rightarrow> route_error option" where
  "Validate re_compile url_parse c =
    (case c of None \<Rightarrow> Some ErrAdvancedRequired
     | Some cfg \<Rightarrow>
        if Routes cfg = [] then Some ErrAdvancedNoRoutes
        else validate_loop re_compile url_parse 0 (Routes cfg) Map.empty)"

section \<open>What a template matches\<close>

lemma TrimPrefix_append [simp]: "TrimPrefix (p @ r) p = r"
proof -
  have "drop_prefix p (p @ r) = Some r" by (simp add: drop_prefix_Some)
  then show ?thesis by (simp add: TrimPrefix_def)
qed

lemma TrimSuffix_append [simp]: "TrimSuffix (m @ q) q = m"
  by (simp add: TrimSuffix_def suffix_def)

lemma SplitOn_nonempty: "SplitOn s sep \<noteq> []"
  by (subst SplitOn.simps) (simp split: option.splits prod.splits)

lemma SplitOn_pair:
  assumes "SplitOn s sep = [p, q]"
  shows "s = p @ sep @ q"
proof (cases "Cut s sep")
  case None
  then show ?thesis using assms SplitOn.simps [of s sep] by simp
next
  case (Some ab)
  obtain a b where ab: "ab = (a, b)" by force
  then have ap: "a = p" "SplitOn b sep = [q]"
    using assms Some SplitOn.simps [of s sep] by (simp_all split: if_splits)
  have "b = q"
    using ap(2) SplitOn.simps [of b sep] SplitOn_nonempty by (auto split: option.splits if_splits prod.splits)
  then show ?thesis using ap(1) ab Some Cut_Some [of s sep a b] by simp
qed

text \<open>
  A path with one placeholder matches the paths that have a non-empty segment in its place, and also
  those in which the text before and the text after the placeholder overlap.
\<close>

lemma template_exact:
  assumes "SplitOn c advancedCustomModelPlaceholder = [p, q]"
  shows "matchAdvancedCustomIncomingPathTemplate c r \<longleftrightarrow>
    (\<exists>m. r = p @ m @ q \<and> m \<noteq> [] \<and> CHR ''/'' \<notin> set m) \<or>
    (\<exists>m. r = p @ m \<and> suffix q r \<and> \<not> suffix q m \<and> m \<noteq> [] \<and> CHR ''/'' \<notin> set m)"
    (is "_ \<longleftrightarrow> ?plain \<or> ?overlap")
proof (cases "\<exists>m0. r = p @ m0 \<and> suffix q r")
  case True
  then obtain m0 where r: "r = p @ m0" "suffix q r" by blast
  have c: "Contains c advancedCustomModelPlaceholder"
    using SplitOn_pair [OF assms] by (auto simp: Contains_def sublist_def)
  have match: "matchAdvancedCustomIncomingPathTemplate c r \<longleftrightarrow>
      TrimSuffix m0 q \<noteq> [] \<and> CHR ''/'' \<notin> set (TrimSuffix m0 q)"
    using assms r c by (simp add: matchAdvancedCustomIncomingPathTemplate_def HasPrefix_def HasSuffix_def Let_def)
  show ?thesis
  proof (cases "suffix q m0")
    case True
    then obtain m where "m0 = m @ q" by (auto simp: suffix_def)
    then show ?thesis using match r by auto
  next
    case False
    then show ?thesis using match r by (auto simp: TrimSuffix_def suffix_def)
  qed
next
  case False
  have c: "Contains c advancedCustomModelPlaceholder"
    using SplitOn_pair [OF assms] by (auto simp: Contains_def sublist_def)
  have "\<not> ?plain" using False by (auto simp: suffix_def)
  moreover have "\<not> ?overlap" using False by auto
  moreover have "\<not> matchAdvancedCustomIncomingPathTemplate c r"
    using assms c False
    by (auto simp: matchAdvancedCustomIncomingPathTemplate_def HasPrefix_def HasSuffix_def prefix_def)
  ultimately show ?thesis by blast
qed

text \<open>
  A route whose path has a whole segment as its placeholder, as in a path ending in a slash, the
  placeholder and a slash again, also matches the request path in which that segment is missing.
\<close>

theorem template_matches_missing_segment:
  assumes "SplitOn c advancedCustomModelPlaceholder = [p @ ''/'', ''/'' @ q]"
    and "q \<noteq> []" "CHR ''/'' \<notin> set q"
  shows "matchAdvancedCustomIncomingPath c (p @ ''/'' @ q)"
proof -
  have "p @ ''/'' @ q = (p @ ''/'') @ q" "suffix (''/'' @ q) (p @ ''/'' @ q)" "\<not> suffix (''/'' @ q) q"
    by (auto simp: suffix_def dest: arg_cong [of _ _ length])
  then have "matchAdvancedCustomIncomingPathTemplate c (p @ ''/'' @ q)"
    using template_exact [OF assms(1), of "p @ ''/'' @ q"] assms(2,3) by blast
  then show ?thesis by (simp add: matchAdvancedCustomIncomingPath_def)
qed

theorem template_matches_missing_segment_witness:
  "matchAdvancedCustomIncomingPath ''/v1/{model}/chat'' ''/v1/chat''"
proof -
  have "SplitOn ''/v1/{model}/chat'' advancedCustomModelPlaceholder = [''/v1'' @ ''/'', ''/'' @ ''chat'']"
    by code_simp
  from template_matches_missing_segment [OF this] show ?thesis by simp
qed

section \<open>What validation guarantees\<close>

definition catch_all :: "path_states \<Rightarrow> string \<Rightarrow> nat option" where
  "catch_all paths p = Option.bind (paths p) catchAllIndex"

definition rule_index :: "path_states \<Rightarrow> string \<Rightarrow> string \<Rightarrow> nat option" where
  "rule_index paths p m = Option.bind (paths p) (\<lambda>st. modelIndexes st m)"

abbreviation route_path :: "AdvancedCustomRoute \<Rightarrow> string" where
  "route_path r \<equiv> TrimSpace (rt_IncomingPath r)"

abbreviation route_rules :: "AdvancedCustomRoute \<Rightarrow> string list" where
  "route_rules r \<equiv> normalizeAdvancedCustomRouteModels (rt_Models r)"

lemma route_models_loop_ok:
  assumes "route_models_loop re_compile i p ms seen st = (None, st')"
  shows "\<forall>m \<in> set ms. modelIndexes st m = None \<and> modelIndexes st' m \<noteq> None"
    "\<forall>m. modelIndexes st m \<noteq> None \<longrightarrow> modelIndexes st' m \<noteq> None"
    "catchAllIndex st' = catchAllIndex st"
    "distinct ms"
    "\<forall>m \<in> set ms. validateAdvancedCustomRouteModelRule re_compile i p m = None"
  using assms
  by (induction re_compile i p ms seen st rule: route_models_loop.induct)
     (auto split: option.splits if_splits)

lemma validate_route_ok:
  assumes "validate_route re_compile url_parse i r paths = (None, paths')"
  shows "catch_all paths (route_path r) = None"
    "\<forall>m \<in> set (route_rules r). rule_index paths (route_path r) m = None"
    "route_rules r = [] \<Longrightarrow> catch_all paths' (route_path r) \<noteq> None"
    "\<forall>m \<in> set (route_rules r). rule_index paths' (route_path r) m \<noteq> None"
    "catch_all paths q \<noteq> None \<Longrightarrow> catch_all paths' q \<noteq> None"
    "rule_index paths q m \<noteq> None \<Longrightarrow> rule_index paths' q m \<noteq> None"
proof -
  have v: "validateAdvancedCustomRouteModels re_compile i (route_path r) (rt_Models r) paths = (None, paths')"
    using assms by (auto simp: validate_route_def Let_def split: if_splits prod.splits option.splits)
  note d = validateAdvancedCustomRouteModels_def Let_def catch_all_def rule_index_def
  show "catch_all paths (route_path r) = None" using v by (auto simp: d split: option.splits if_splits)
  show "\<forall>m \<in> set (route_rules r). rule_index paths (route_path r) m = None"
    using v by (auto simp: d split: option.splits if_splits prod.splits dest: route_models_loop_ok(1))
  show "route_rules r = [] \<Longrightarrow> catch_all paths' (route_path r) \<noteq> None"
    using v by (auto simp: d split: option.splits if_splits)
  show "\<forall>m \<in> set (route_rules r). rule_index paths' (route_path r) m \<noteq> None"
    using v by (fastforce simp: d split: option.splits if_splits prod.splits dest: route_models_loop_ok(1))
  show "catch_all paths q \<noteq> None \<Longrightarrow> catch_all paths' q \<noteq> None"
    using v by (auto simp: d split: option.splits if_splits prod.splits dest: route_models_loop_ok(3))
  show "rule_index paths q m \<noteq> None \<Longrightarrow> rule_index paths' q m \<noteq> None"
    using v by (fastforce simp: d split: option.splits if_splits prod.splits dest: route_models_loop_ok(2))
qed

lemma validate_loop_fresh:
  assumes "validate_loop re_compile url_parse i rs paths = None" "r \<in> set rs"
  shows "catch_all paths (route_path r) = None \<and>
    (\<forall>m \<in> set (route_rules r). rule_index paths (route_path r) m = None)"
  using assms
proof (induction rs arbitrary: i paths)
  case (Cons r' rs)
  then obtain paths' where v: "validate_route re_compile url_parse i r' paths = (None, paths')"
      "validate_loop re_compile url_parse (Suc i) rs paths' = None"
    by (auto split: option.splits prod.splits)
  show ?case using Cons.IH [OF v(2)] Cons.prems(2) validate_route_ok [OF v(1)] by fastforce
qed simp

lemma validate_loop_disjoint:
  assumes "validate_loop re_compile url_parse i rs paths = None"
    and "j < k" "k < length rs" "route_path (rs ! j) = route_path (rs ! k)"
  shows "route_rules (rs ! j) \<noteq> [] \<and> set (route_rules (rs ! j)) \<inter> set (route_rules (rs ! k)) = {}"
  using assms
proof (induction rs arbitrary: i paths j k)
  case (Cons r rs)
  then obtain paths' where v: "validate_route re_compile url_parse i r paths = (None, paths')"
      "validate_loop re_compile url_parse (Suc i) rs paths' = None"
    by (auto split: option.splits prod.splits)
  obtain k' where k: "k = Suc k'" "k' < length rs" using Cons.prems by (cases k) auto
  show ?case
  proof (cases j)
    case 0
    have "route_path r = route_path (rs ! k')" using Cons.prems 0 k by simp
    then show ?thesis
      using validate_loop_fresh [OF v(2) nth_mem [OF k(2)]] validate_route_ok(3,4) [OF v(1)] 0 k by auto
  next
    case (Suc j')
    then show ?thesis using Cons.IH [OF v(2), of j' k'] Cons.prems k by simp
  qed
qed simp

definition literal_config :: "AdvancedCustomConfig \<Rightarrow> bool" where
  "literal_config cfg \<longleftrightarrow> (\<forall>r \<in> set (Routes cfg).
     \<not> Contains (route_path r) advancedCustomModelPlaceholder \<and> \<not> Contains (route_path r) '':generateContent'' \<and>
     (\<forall>m \<in> set (route_rules r). \<not> HasPrefix m advancedCustomModelRegexPrefix))"

lemma literal_route_matches:
  assumes "literal_config cfg" "r \<in> set (Routes cfg)"
  shows "matchAdvancedCustomIncomingPath (route_path r) p \<longleftrightarrow> route_path r = p"
    "matchAdvancedCustomRouteModel re_compile (rt_Models r) m \<longleftrightarrow> route_rules r = [] \<or> m \<in> set (route_rules r)"
  using assms
  by (auto simp: literal_config_def matchAdvancedCustomIncomingPath_def matchAdvancedCustomIncomingPathTemplate_def
      matchAdvancedCustomRouteModel_def matchAdvancedCustomRouteModelRule_def Let_def)

lemma find_first_index:
  assumes "k < length xs" "P (xs ! k)" "\<And>j. j < k \<Longrightarrow> \<not> P (xs ! j)"
  shows "find P xs = Some (xs ! k)"
  using assms by (auto simp: find_Some_iff)

text \<open>
  C40. In a configuration that passes validation, and whose routes name paths and models without
  patterns, every route is reached: a request with the path of a route and one of its models is
  served by this route, whatever comes before it, and a model that no route of the path names is
  served by the catch-all route of the path.
\<close>

theorem validated_routes_reached:
  assumes "Validate re_compile url_parse (Some cfg) = None" "literal_config cfg"
    and "k < length (Routes cfg)" "p = route_path (Routes cfg ! k)"
    and "TrimSpace m \<in> set (route_rules (Routes cfg ! k)) \<or>
      route_rules (Routes cfg ! k) = [] \<and>
      (\<forall>r \<in> set (Routes cfg). route_path r = p \<longrightarrow> TrimSpace m \<notin> set (route_rules r))"
  shows "MatchPathForModel re_compile (Some cfg) p m = Some (Routes cfg ! k)"
proof -
  let ?P = "\<lambda>r. matchAdvancedCustomIncomingPath (route_path r) p \<and>
      matchAdvancedCustomRouteModel re_compile (rt_Models r) (TrimSpace m)"
  have v: "validate_loop re_compile url_parse 0 (Routes cfg) Map.empty = None"
    using assms(1) by (auto simp: Validate_def split: if_splits)
  have "?P (Routes cfg ! k)"
    using literal_route_matches [OF assms(2) nth_mem [OF assms(3)]] assms(4,5) by auto
  moreover have "\<not> ?P (Routes cfg ! j)" if j: "j < k" for j
  proof
    assume P: "?P (Routes cfg ! j)"
    have jl: "j < length (Routes cfg)" using j assms(3) by simp
    have "route_path (Routes cfg ! j) = route_path (Routes cfg ! k)"
      "route_rules (Routes cfg ! j) = [] \<or> TrimSpace m \<in> set (route_rules (Routes cfg ! j))"
      using P literal_route_matches [OF assms(2) nth_mem [OF jl]] assms(4) by auto
    then show False
      using validate_loop_disjoint [OF v j assms(3)] assms(4,5) nth_mem [OF jl] by fastforce
  qed
  ultimately show ?thesis
    using find_first_index [of k "Routes cfg" ?P] assms(3) by (simp add: MatchPathForModel_def)
qed

definition demo_route :: "string \<Rightarrow> string list \<Rightarrow> AdvancedCustomRoute" where
  "demo_route p ms = \<lparr>rt_IncomingPath = p, rt_UpstreamPath = ''/up'', rt_Converter = [], rt_Models = ms, rt_Auth = None\<rparr>"

definition demo_routes :: AdvancedCustomConfig where
  "demo_routes = \<lparr>Routes = [demo_route ''/v1/responses'' [''a'', ''b''], demo_route ''/v1/responses'' [''c''],
     demo_route ''/v1/responses'' []]\<rparr>"

theorem validated_routes_reached_witness:
  "MatchPathForModel (\<lambda>_. None) (Some demo_routes) ''/v1/responses'' ''c'' = Some (demo_route ''/v1/responses'' [''c''])"
proof -
  have "Validate (\<lambda>_. None) (\<lambda>_. None) (Some demo_routes) = None" by code_simp
  moreover have "literal_config demo_routes" by code_simp
  moreover have "1 < length (Routes demo_routes)" by code_simp
  moreover have "''/v1/responses'' = route_path (Routes demo_routes ! 1)" by code_simp
  moreover have "TrimSpace ''c'' \<in> set (route_rules (Routes demo_routes ! 1))" by code_simp
  moreover have "Routes demo_routes ! 1 = demo_route ''/v1/responses'' [''c'']" by (simp add: demo_routes_def)
  ultimately show ?thesis
    using validated_routes_reached [of "\<lambda>_. None" "\<lambda>_. None" demo_routes 1 "''/v1/responses''" "''c''"] by simp
qed

end
