(* ===== verification/Channel_Guard.thy ===== *)
theory Channel_Guard
  imports Advanced_Routes
begin

text \<open>
  What keeps requests away from a channel that cannot take them: the per-channel rate limits
  (src/service/channel_rate_limit.go) and the cool-down after failures (src/service/channel_health.go).

  Times are Unix nanoseconds of a clock that does not run backwards.  The limiter has two
  implementations, slices in memory and sorted sets in Redis changed by Lua scripts, each atomic (by the
  mutex, by Redis).  Redis belongs to another program: a sorted set is modelled by its documented commands on
  the entries of a key, the expiry of a key included, and a call that fails is \<open>ErrRedis\<close>.  A member of a sorted
  set is a text made of the time and the serial number of its process, here the pair of them.
\<close>

section \<open>Cool-down\<close>

record channelHealthState =
  consecutiveFailures :: nat
  requests :: nat
  successes :: nat
  failures :: nat
  lastFailureAt :: "int option"
  cooldownEnd :: "int option"

type_synonym channelHealth = "int \<rightharpoonup> channelHealthState"

definition channelFailureThreshold :: nat where
  "channelFailureThreshold = 3"

definition channelCooldown :: int where
  "channelCooldown = 30 * 10 ^ 9"

text \<open>The zero value of the struct; \<open>None\<close> is the zero \<open>time.Time\<close>.\<close>

definition health_of :: "channelHealth \<Rightarrow> int \<Rightarrow> channelHealthState" where
  "health_of h i = (case h i of Some st \<Rightarrow> st
     | None \<Rightarrow> \<lparr>consecutiveFailures = 0, requests = 0, successes = 0, failures = 0, lastFailureAt = None, cooldownEnd = None\<rparr>)"

definition RecordChannelHealthFailure :: "int \<Rightarrow> int \<Rightarrow> channelHealth \<Rightarrow> bool \<times> channelHealth" where
  "RecordChannelHealthFailure now channelID h =
    (if channelID \<le> 0 then (False, h)
     else
       let st = health_of h channelID;
           st = st\<lparr>requests := requests st + 1, failures := failures st + 1,
                   consecutiveFailures := consecutiveFailures st + 1, lastFailureAt := Some now\<rparr>;
           shouldDisable = channelFailureThreshold \<le> consecutiveFailures st;
           st = (if shouldDisable then st\<lparr>cooldownEnd := Some (now + channelCooldown), consecutiveFailures := 0\<rparr> else st)
       in (shouldDisable, h(channelID \<mapsto> st)))"

definition RecordChannelHealthSuccess :: "int \<Rightarrow> channelHealth \<Rightarrow> channelHealth" where
  "RecordChannelHealthSuccess channelID h =
    (if channelID \<le> 0 then h
     else
       let st = health_of h channelID
       in h(channelID \<mapsto> st\<lparr>requests := requests st + 1, successes := successes st + 1,
                             consecutiveFailures := 0, cooldownEnd := None\<rparr>))"

record ChannelHealthSnapshot =
  snap_ChannelID :: int
  snap_Requests :: nat
  snap_Successes :: nat
  snap_Failures :: nat
  snap_ErrorRate :: rat
  snap_ConsecutiveFailures :: nat
  snap_LastFailureAt :: "int option"
  snap_CooldownUntil :: "int option"

definition GetChannelHealthSnapshot :: "int \<Rightarrow> channelHealth \<Rightarrow> ChannelHealthSnapshot" where
  "GetChannelHealthSnapshot channelID h =
    (let st = health_of h channelID
     in \<lparr>snap_ChannelID = channelID, snap_Requests = requests st, snap_Successes = successes st,
         snap_Failures = failures st,
         snap_ErrorRate = (if requests st > 0 then of_nat (failures st) / of_nat (requests st) else 0),
         snap_ConsecutiveFailures = consecutiveFailures st, snap_LastFailureAt = lastFailureAt st,
         snap_CooldownUntil = cooldownEnd st\<rparr>)"

definition IsChannelCoolingDown :: "int \<Rightarrow> int \<Rightarrow> channelHealth \<Rightarrow> bool" where
  "IsChannelCoolingDown now channelID h =
    (case h channelID of None \<Rightarrow> False
     | Some st \<Rightarrow> (case cooldownEnd st of None \<Rightarrow> False | Some e \<Rightarrow> now < e))"

section \<open>Rate limits\<close>

definition channelRateLimitWindow :: int where
  "channelRateLimitWindow = 60 * 10 ^ 9"

record ChannelRateLimitConfig =
  RequestRPM :: int
  SuccessfulRPM :: int

definition ChannelRateLimitConfigFromSettings :: "ChannelOtherSettings \<Rightarrow> ChannelRateLimitConfig" where
  "ChannelRateLimitConfigFromSettings settings =
    \<lparr>RequestRPM = ChannelRequestRateLimitCount settings, SuccessfulRPM = ChannelRequestRateLimitSuccessCount settings\<rparr>"

definition Enabled :: "ChannelRateLimitConfig \<Rightarrow> bool" where
  "Enabled c \<longleftrightarrow> RequestRPM c > 0 \<or> SuccessfulRPM c > 0"

text \<open>The condition under which a channel is saturated, given the sizes of its two windows.\<close>

definition saturated :: "ChannelRateLimitConfig \<Rightarrow> nat \<Rightarrow> nat \<Rightarrow> bool" where
  "saturated c n_total n_success \<longleftrightarrow>
    RequestRPM c > 0 \<and> int n_total \<ge> RequestRPM c \<or> SuccessfulRPM c > 0 \<and> int n_success \<ge> SuccessfulRPM c"

subsection \<open>In memory\<close>

record channelRateLimitWindowState =
  rw_total :: "int list"
  rw_success :: "int list"

type_synonym local_windows = "int \<rightharpoonup> channelRateLimitWindowState"

fun pruneChannelRateLimitSamples :: "int list \<Rightarrow> int \<Rightarrow> int list" where
  "pruneChannelRateLimitSamples [] now = []"
| "pruneChannelRateLimitSamples (t # ts) now =
    (if \<not> t > now - channelRateLimitWindow then pruneChannelRateLimitSamples ts now else t # ts)"

definition window_of :: "local_windows \<Rightarrow> int \<Rightarrow> channelRateLimitWindowState" where
  "window_of l i = (case l i of Some w \<Rightarrow> w | None \<Rightarrow> \<lparr>rw_total = [], rw_success = []\<rparr>)"

definition pruned :: "int \<Rightarrow> channelRateLimitWindowState \<Rightarrow> channelRateLimitWindowState" where
  "pruned now w = \<lparr>rw_total = pruneChannelRateLimitSamples (rw_total w) now, rw_success = pruneChannelRateLimitSamples (rw_success w) now\<rparr>"

definition localSaturated :: "int \<Rightarrow> int \<Rightarrow> ChannelRateLimitConfig \<Rightarrow> local_windows \<Rightarrow> bool \<times> local_windows" where
  "localSaturated now i c l =
    (case l i of None \<Rightarrow> (False, l)
     | Some w \<Rightarrow>
        let w = pruned now w in (saturated c (length (rw_total w)) (length (rw_success w)), l(i \<mapsto> w)))"

definition localAcquire :: "int \<Rightarrow> int \<Rightarrow> ChannelRateLimitConfig \<Rightarrow> local_windows \<Rightarrow> bool \<times> local_windows" where
  "localAcquire now i c l =
    (let w = pruned now (window_of l i) in
     if saturated c (length (rw_total w)) (length (rw_success w)) then (False, l(i \<mapsto> w))
     else (True, l(i \<mapsto> w\<lparr>rw_total := rw_total w @ [now]\<rparr>)))"

definition localRecordSuccess :: "int \<Rightarrow> int \<Rightarrow> local_windows \<Rightarrow> local_windows" where
  "localRecordSuccess now i l =
    (let w = window_of l i
     in l(i \<mapsto> w\<lparr>rw_success := pruneChannelRateLimitSamples (rw_success w) now @ [now]\<rparr>))"

subsection \<open>In Redis\<close>

text \<open>An entry of a sorted set: its score and its member.  A key has entries and a time at which it expires.\<close>

type_synonym entry = "int \<times> (int \<times> nat)"

record sorted_set =
  entries :: "entry list"
  expires :: "int option"

record redis_windows =
  zset :: "string \<times> int \<Rightarrow> sorted_set"
  serial :: nat

text \<open>\<open>UnixMilli\<close>: instants after 1970 are rounded down to milliseconds.\<close>

definition UnixMilli :: "int \<Rightarrow> int" where
  "UnixMilli t = t div 10 ^ 6"

text \<open>The entries of a key when the server looks at it: none once the key has expired.\<close>

definition live :: "int \<Rightarrow> sorted_set \<Rightarrow> sorted_set" where
  "live now_ms z = (case expires z of Some e \<Rightarrow> if e \<le> now_ms then \<lparr>entries = [], expires = None\<rparr> else z | None \<Rightarrow> z)"

definition ZREMRANGEBYSCORE :: "int \<Rightarrow> sorted_set \<Rightarrow> sorted_set" where
  "ZREMRANGEBYSCORE cutoff z = z\<lparr>entries := filter (\<lambda>(score, _). score > cutoff) (entries z)\<rparr>"

definition ZADD :: "int \<Rightarrow> int \<times> nat \<Rightarrow> sorted_set \<Rightarrow> sorted_set" where
  "ZADD score member z = z\<lparr>entries := filter (\<lambda>(_, m). m \<noteq> member) (entries z) @ [(score, member)]\<rparr>"

text \<open>\<open>EXPIRE\<close> on a key without entries does nothing: an empty sorted set is not kept.\<close>

definition EXPIRE :: "int \<Rightarrow> int \<Rightarrow> sorted_set \<Rightarrow> sorted_set" where
  "EXPIRE now_ms seconds z = (if entries z = [] then z\<lparr>expires := None\<rparr> else z\<lparr>expires := Some (now_ms + 1000 * seconds)\<rparr>)"

definition redisKey :: "int \<Rightarrow> string \<Rightarrow> string \<times> int" where
  "redisKey channelID kind = (kind, channelID)"

text \<open>\<open>channelRateLimitSaturatedLua\<close>, \<open>channelRateLimitAcquireLua\<close>, \<open>channelRateLimitSuccessLua\<close>.\<close>

definition saturated_script ::
    "int \<Rightarrow> int \<Rightarrow> ChannelRateLimitConfig \<Rightarrow> sorted_set \<Rightarrow> sorted_set \<Rightarrow> bool \<times> sorted_set \<times> sorted_set" where
  "saturated_script now_ms cutoff c k1 k2 =
    (let k1 = ZREMRANGEBYSCORE cutoff (live now_ms k1);
         k2 = ZREMRANGEBYSCORE cutoff (live now_ms k2)
     in (saturated c (length (entries k1)) (length (entries k2)), k1, k2))"

definition acquire_script ::
    "int \<Rightarrow> int \<Rightarrow> ChannelRateLimitConfig \<Rightarrow> int \<times> nat \<Rightarrow> sorted_set \<Rightarrow> sorted_set \<Rightarrow> bool \<times> sorted_set \<times> sorted_set" where
  "acquire_script now_ms cutoff c member k1 k2 =
    (let k1 = ZREMRANGEBYSCORE cutoff (live now_ms k1);
         k2 = ZREMRANGEBYSCORE cutoff (live now_ms k2)
     in if saturated c (length (entries k1)) (length (entries k2)) then (False, k1, k2)
        else (True, EXPIRE now_ms 120 (ZADD now_ms member k1), EXPIRE now_ms 120 k2))"

definition success_script :: "int \<Rightarrow> int \<Rightarrow> int \<times> nat \<Rightarrow> sorted_set \<Rightarrow> sorted_set" where
  "success_script now_ms cutoff member k = EXPIRE now_ms 120 (ZADD now_ms member (ZREMRANGEBYSCORE cutoff (live now_ms k)))"

text \<open>The callers; \<open>up\<close> says whether Redis answers.\<close>

definition redisSaturated :: "bool \<Rightarrow> int \<Rightarrow> int \<Rightarrow> ChannelRateLimitConfig \<Rightarrow> redis_windows \<Rightarrow> (error + bool) \<times> redis_windows" where
  "redisSaturated up now i c r =
    (if \<not> up then (Inl ErrRedis, r)
     else case saturated_script (UnixMilli now) (UnixMilli (now - channelRateLimitWindow)) c
                 (zset r (redisKey i ''total'')) (zset r (redisKey i ''success'')) of
       (b, k1, k2) \<Rightarrow> (Inr b, r\<lparr>zset := (zset r)(redisKey i ''total'' := k1, redisKey i ''success'' := k2)\<rparr>))"

definition redisAcquire :: "bool \<Rightarrow> int \<Rightarrow> int \<Rightarrow> ChannelRateLimitConfig \<Rightarrow> redis_windows \<Rightarrow> (error + bool) \<times> redis_windows" where
  "redisAcquire up now i c r0 =
    (let r = r0\<lparr>serial := serial r0 + 1\<rparr> in
     if \<not> up then (Inl ErrRedis, r)
     else case acquire_script (UnixMilli now) (UnixMilli (now - channelRateLimitWindow)) c (now, serial r)
                 (zset r (redisKey i ''total'')) (zset r (redisKey i ''success'')) of
       (b, k1, k2) \<Rightarrow> (Inr b, r\<lparr>zset := (zset r)(redisKey i ''total'' := k1, redisKey i ''success'' := k2)\<rparr>))"

definition redisRecordSuccess :: "bool \<Rightarrow> int \<Rightarrow> int \<Rightarrow> redis_windows \<Rightarrow> (error + unit) \<times> redis_windows" where
  "redisRecordSuccess up now i r0 =
    (let r = r0\<lparr>serial := serial r0 + 1\<rparr> in
     if \<not> up then (Inl ErrRedis, r)
     else (Inr (), r\<lparr>zset := (zset r)(redisKey i ''success'' :=
             success_script (UnixMilli now) (UnixMilli (now - channelRateLimitWindow)) (now, serial r)
               (zset r (redisKey i ''success'')))\<rparr>))"

subsection \<open>The limiter\<close>

record limiter =
  local_state :: local_windows
  redis_state :: redis_windows

definition IsChannelRateLimited ::
    "bool \<Rightarrow> bool \<Rightarrow> int \<Rightarrow> int \<Rightarrow> ChannelRateLimitConfig \<Rightarrow> limiter \<Rightarrow> (error + bool) \<times> limiter" where
  "IsChannelRateLimited redis up now i c s =
    (if i \<le> 0 \<or> \<not> Enabled c then (Inr False, s)
     else if redis then
       (case redisSaturated up now i c (redis_state s) of (b, r) \<Rightarrow> (b, s\<lparr>redis_state := r\<rparr>))
     else (case localSaturated now i c (local_state s) of (b, l) \<Rightarrow> (Inr b, s\<lparr>local_state := l\<rparr>)))"

definition TryAcquireChannelRequest ::
    "bool \<Rightarrow> bool \<Rightarrow> int \<Rightarrow> int \<Rightarrow> ChannelRateLimitConfig \<Rightarrow> limiter \<Rightarrow> (error + bool) \<times> limiter" where
  "TryAcquireChannelRequest redis up now i c s =
    (if i \<le> 0 \<or> \<not> Enabled c then (Inr True, s)
     else if redis then
       (case redisAcquire up now i c (redis_state s) of (b, r) \<Rightarrow> (b, s\<lparr>redis_state := r\<rparr>))
     else (case localAcquire now i c (local_state s) of (b, l) \<Rightarrow> (Inr b, s\<lparr>local_state := l\<rparr>)))"

definition RecordChannelRequestSuccess ::
    "bool \<Rightarrow> bool \<Rightarrow> int \<Rightarrow> int \<Rightarrow> ChannelRateLimitConfig \<Rightarrow> limiter \<Rightarrow> (error + unit) \<times> limiter" where
  "RecordChannelRequestSuccess redis up now i c s =
    (if i \<le> 0 \<or> SuccessfulRPM c \<le> 0 then (Inr (), s)
     else if redis then
       (case redisRecordSuccess up now i (redis_state s) of (b, r) \<Rightarrow> (b, s\<lparr>redis_state := r\<rparr>))
     else (Inr (), s\<lparr>local_state := localRecordSuccess now i (local_state s)\<rparr>))"

text \<open>
  The same with the settings of a relay or of a Gin context; \<open>None\<close> is a nil pointer or a context
  without channel settings.
\<close>

definition channelRateLimitConfigFromContext :: "ChannelOtherSettings option \<Rightarrow> ChannelRateLimitConfig" where
  "channelRateLimitConfigFromContext c =
    (case c of None \<Rightarrow> \<lparr>RequestRPM = 0, SuccessfulRPM = 0\<rparr> | Some settings \<Rightarrow> ChannelRateLimitConfigFromSettings settings)"

definition TryAcquireChannelRequestForContext ::
    "bool \<Rightarrow> bool \<Rightarrow> int \<Rightarrow> ChannelOtherSettings option option \<Rightarrow> int \<Rightarrow> limiter \<Rightarrow> (error + bool) \<times> limiter" where
  "TryAcquireChannelRequestForContext redis up now ctx i s =
    (case ctx of None \<Rightarrow> (Inr True, s)
     | Some settings \<Rightarrow> TryAcquireChannelRequest redis up now i (channelRateLimitConfigFromContext settings) s)"

definition RecordChannelRequestSuccessForContext ::
    "bool \<Rightarrow> bool \<Rightarrow> int \<Rightarrow> ChannelOtherSettings option option \<Rightarrow> int \<Rightarrow> limiter \<Rightarrow> (error + unit) \<times> limiter" where
  "RecordChannelRequestSuccessForContext redis up now ctx i s =
    (case ctx of None \<Rightarrow> (Inr (), s)
     | Some settings \<Rightarrow> RecordChannelRequestSuccess redis up now i (channelRateLimitConfigFromContext settings) s)"

definition TryAcquireChannelRequestForRelay ::
    "bool \<Rightarrow> bool \<Rightarrow> int \<Rightarrow> (int \<times> ChannelOtherSettings) option \<Rightarrow> limiter \<Rightarrow> (error + bool) \<times> limiter" where
  "TryAcquireChannelRequestForRelay redis up now meta s =
    (case meta of None \<Rightarrow> (Inr True, s)
     | Some (i, settings) \<Rightarrow> TryAcquireChannelRequest redis up now i (ChannelRateLimitConfigFromSettings settings) s)"

definition RecordChannelRequestSuccessForRelay ::
    "bool \<Rightarrow> bool \<Rightarrow> int \<Rightarrow> (int \<times> ChannelOtherSettings) option \<Rightarrow> limiter \<Rightarrow> (error + unit) \<times> limiter" where
  "RecordChannelRequestSuccessForRelay redis up now meta s =
    (case meta of None \<Rightarrow> (Inr (), s)
     | Some (i, settings) \<Rightarrow> RecordChannelRequestSuccess redis up now i (ChannelRateLimitConfigFromSettings settings) s)"

section \<open>Sliding windows\<close>

text \<open>The samples of a window of the given width that ends at \<open>t\<close>.\<close>

definition recent :: "int \<Rightarrow> int \<Rightarrow> int list \<Rightarrow> int list" where
  "recent w t xs = filter (\<lambda>x. t - w < x) xs"

definition in_window :: "int \<Rightarrow> int \<Rightarrow> int list \<Rightarrow> int list" where
  "in_window w t xs = filter (\<lambda>x. t - w < x \<and> x \<le> t) xs"

datatype guard_op =
    Acquire int ChannelRateLimitConfig
  | Success int ChannelRateLimitConfig
  | Peek int ChannelRateLimitConfig

text \<open>
  A history: operations, each with its time and whether Redis answers.  \<open>guard_step\<close> runs one and
  returns the times at which channel \<open>i\<close> was granted a request.
\<close>

type_synonym history = "(int \<times> bool \<times> guard_op) list"

type_synonym 's acquire_op = "bool \<Rightarrow> int \<Rightarrow> int \<Rightarrow> ChannelRateLimitConfig \<Rightarrow> 's \<Rightarrow> (error + bool) \<times> 's"
type_synonym 's success_op = "bool \<Rightarrow> int \<Rightarrow> int \<Rightarrow> ChannelRateLimitConfig \<Rightarrow> 's \<Rightarrow> (error + unit) \<times> 's"

definition guard_step ::
    "'s acquire_op \<Rightarrow> 's success_op \<Rightarrow> 's acquire_op \<Rightarrow> int \<Rightarrow> int \<times> bool \<times> guard_op \<Rightarrow> 's \<Rightarrow> int list \<times> 's" where
  "guard_step acquire record_success peek i e s =
    (case e of (t, up, op) \<Rightarrow>
      (case op of
         Acquire j c \<Rightarrow> (case acquire up t j c s of (b, s') \<Rightarrow> (if j = i \<and> b = Inr True then [t] else [], s'))
       | Success j c \<Rightarrow> ([], snd (record_success up t j c s))
       | Peek j c \<Rightarrow> ([], snd (peek up t j c s))))"

fun guard_run ::
    "'s acquire_op \<Rightarrow> 's success_op \<Rightarrow> 's acquire_op \<Rightarrow> int \<Rightarrow> history \<Rightarrow> 's \<Rightarrow> int list \<times> 's" where
  "guard_run acquire record_success peek i [] s = ([], s)"
| "guard_run acquire record_success peek i (e # es) s =
    (case guard_step acquire record_success peek i e s of
       (g, s1) \<Rightarrow> (case guard_run acquire record_success peek i es s1 of (g', s2) \<Rightarrow> (g @ g', s2)))"

declare guard_run.simps(2) [simp del]

text \<open>The times of a history do not run backwards, and its requests to \<open>i\<close> are limited by at most \<open>R\<close>.\<close>

fun timely :: "int \<Rightarrow> history \<Rightarrow> bool" where
  "timely now [] \<longleftrightarrow> True"
| "timely now (e # es) \<longleftrightarrow> now \<le> fst e \<and> timely (fst e) es"

definition limited :: "int \<Rightarrow> int \<Rightarrow> int \<times> bool \<times> guard_op \<Rightarrow> bool" where
  "limited i R e \<longleftrightarrow> (case e of (t, up, Acquire j c) \<Rightarrow> j = i \<longrightarrow> 0 < RequestRPM c \<and> RequestRPM c \<le> R | _ \<Rightarrow> True)"

lemma recent_append [simp]: "recent w t (xs @ ys) = recent w t xs @ recent w t ys"
  by (simp add: recent_def)

lemma recent_Nil [simp]: "recent w t [] = []"
  by (simp add: recent_def)

lemma in_window_append [simp]: "in_window w t (xs @ ys) = in_window w t xs @ in_window w t ys"
  by (simp add: in_window_def)

lemma in_window_recent: "t \<le> x \<Longrightarrow> in_window w x (recent w t xs) = in_window w x xs"
  by (auto simp: in_window_def recent_def intro!: filter_cong)

lemma in_window_later: "\<forall>y \<in> set xs. x < y \<Longrightarrow> in_window w x xs = []"
  by (force simp: in_window_def filter_empty_conv)

lemma length_in_window: "length (in_window w x xs) \<le> length xs"
  by (simp add: in_window_def)

lemma recent_mono: "t \<le> x \<Longrightarrow> length (recent w x xs) \<le> length (recent w t xs)"
  unfolding recent_def by (induction xs) auto

text \<open>
  The contract of a limiter: \<open>samples\<close> and \<open>successes\<close> are the clock values it still keeps for a
  channel; a request is granted exactly when the windows that end now are not full.
\<close>

locale sliding_window =
  fixes acquire :: "'s acquire_op"
    and record_success :: "'s success_op"
    and peek :: "'s acquire_op"
    and samples :: "int \<Rightarrow> 's \<Rightarrow> int list"
    and success_samples :: "int \<Rightarrow> 's \<Rightarrow> int list"
    and clock :: "int \<Rightarrow> int"
    and width :: int
    and wf_at :: "int \<Rightarrow> 's \<Rightarrow> bool"
  assumes clock_mono: "t \<le> t' \<Longrightarrow> clock t \<le> clock t'"
    and wf_mono: "wf_at t s \<Longrightarrow> t \<le> t' \<Longrightarrow> wf_at t' s"
    and wf_past: "wf_at t s \<Longrightarrow> x \<in> set (samples i s) \<union> set (success_samples i s) \<Longrightarrow> x \<le> clock t"
    and wf_acquire: "wf_at t s \<Longrightarrow> wf_at t (snd (acquire up t i c s))"
    and wf_success: "wf_at t s \<Longrightarrow> wf_at t (snd (record_success up t i c s))"
    and wf_peek: "wf_at t s \<Longrightarrow> wf_at t (snd (peek up t i c s))"
    and acquire_samples: "wf_at t s \<Longrightarrow> 0 < i \<Longrightarrow> Enabled c \<Longrightarrow> clock t \<le> x \<Longrightarrow>
      recent width x (samples i (snd (acquire up t i c s))) =
        recent width x (samples i s @ (if fst (acquire up t i c s) = Inr True then [clock t] else []))"
    and acquire_other: "wf_at t s \<Longrightarrow> j \<noteq> i \<Longrightarrow> samples j (snd (acquire up t i c s)) = samples j s"
    and acquire_decides: "wf_at t s \<Longrightarrow> 0 < i \<Longrightarrow> Enabled c \<Longrightarrow> fst (acquire up t i c s) = Inr b \<Longrightarrow>
      b = (\<not> saturated c (length (recent width (clock t) (samples i s))) (length (recent width (clock t) (success_samples i s))))"
    and acquire_answers: "\<exists>b. fst (acquire True t i c s) = Inr b"
    and success_samples_kept: "wf_at t s \<Longrightarrow> clock t \<le> x \<Longrightarrow>
      recent width x (samples j (snd (record_success up t i c s))) = recent width x (samples j s)"
    and peek_samples_kept: "wf_at t s \<Longrightarrow> clock t \<le> x \<Longrightarrow>
      recent width x (samples j (snd (peek up t i c s))) = recent width x (samples j s)"
    and peek_agrees: "fst (peek True t i c s) = Inr b \<Longrightarrow> fst (acquire True t i c s) = Inr (\<not> b)"
begin

abbreviation step where
  "step \<equiv> guard_step acquire record_success peek"

abbreviation run where
  "run \<equiv> guard_run acquire record_success peek"

lemma step_wf: "wf_at (fst e) s \<Longrightarrow> wf_at (fst e) (snd (step i e s))"
  by (auto simp: guard_step_def split: prod.splits guard_op.splits
      dest: wf_success wf_peek) (metis snd_conv wf_acquire)

lemma step_grants: "g \<in> set (fst (step i e s)) \<Longrightarrow> g = fst e"
  by (auto simp: guard_step_def split: prod.splits guard_op.splits if_splits)

lemma step_samples:
  assumes "wf_at (fst e) s" "0 < i" "limited i R e" "clock (fst e) \<le> x"
  shows "recent width x (samples i (snd (step i e s))) = recent width x (samples i s @ map clock (fst (step i e s)))"
proof (cases e)
  case (fields t up op)
  show ?thesis
  proof (cases op)
    case (Acquire j c)
    obtain b s' where a: "acquire up t j c s = (b, s')" by force
    have "j = i \<Longrightarrow> Enabled c" using assms(3) fields Acquire by (simp add: limited_def Enabled_def)
    then show ?thesis
      using acquire_samples [of t s i c x up] acquire_other [of t s i j up c] assms fields Acquire a
      by (cases "j = i") (auto simp: guard_step_def)
  qed (use assms fields in \<open>auto simp: guard_step_def success_samples_kept peek_samples_kept\<close>)
qed

lemma step_bound:
  assumes "wf_at (fst e) s" "0 < i" "limited i R e"
    and "int (length (recent width (clock (fst e)) (samples i s))) \<le> R"
  shows "int (length (recent width (clock (fst e)) (samples i s @ map clock (fst (step i e s))))) \<le> R"
proof (cases e)
  case (fields t up op)
  show ?thesis
  proof (cases op)
    case (Acquire j c)
    obtain b s' where a: "acquire up t j c s = (b, s')" by force
    show ?thesis
    proof (cases "j = i \<and> b = Inr True")
      case True
      then have c: "Enabled c" "0 < RequestRPM c" "RequestRPM c \<le> R"
        using assms(3) fields Acquire by (simp_all add: limited_def Enabled_def)
      have "\<not> saturated c (length (recent width (clock t) (samples i s))) (length (recent width (clock t) (success_samples i s)))"
        using acquire_decides [of t s i c up True] assms fields a True c by simp
      then show ?thesis using fields Acquire a True c by (auto simp: guard_step_def saturated_def recent_def)
    next
      case False
      then show ?thesis using assms fields Acquire a by (auto simp: guard_step_def)
    qed
  qed (use assms fields in \<open>auto simp: guard_step_def\<close>)
qed

lemma run_Cons:
  "fst (run i (e # es) s) = fst (step i e s) @ fst (run i es (snd (step i e s)))"
  "snd (run i (e # es) s) = snd (run i es (snd (step i e s)))"
  by (simp_all add: guard_run.simps(2) split: prod.splits)

lemma run_grants_later: "timely t es \<Longrightarrow> g \<in> set (fst (run i es s)) \<Longrightarrow> t \<le> g"
proof (induction es arbitrary: s t)
  case (Cons e es)
  then show ?case by (auto simp: run_Cons dest: step_grants) (meson order_trans)
qed simp

lemma run_wf: "wf_at t s \<Longrightarrow> timely t es \<Longrightarrow> wf_at (last (t # map fst es)) (snd (run i es s))"
proof (induction es arbitrary: s t)
  case (Cons e es)
  have "wf_at (fst e) s" using Cons.prems wf_mono by simp
  then have "wf_at (last (fst e # map fst es)) (snd (run i es (snd (step i e s))))"
    using Cons.IH [of "fst e"] Cons.prems step_wf by simp
  then show ?case by (simp add: run_Cons)
qed simp

lemma run_bound:
  assumes "wf_at t s" "0 < i" "timely t es" "\<forall>e \<in> set es. limited i R e"
    and "int (length (recent width (clock t) (samples i s))) \<le> R"
  shows "int (length (in_window width x (recent width (clock t) (samples i s) @ map clock (fst (run i es s))))) \<le> R"
  using assms
proof (induction es arbitrary: s t)
  case Nil
  then show ?case using length_in_window [of width x "recent width (clock t) (samples i s)"] by simp
next
  case (Cons e es)
  let ?t = "fst e" and ?s = "snd (step i e s)" and ?g = "map clock (fst (step i e s))"
  let ?later = "map clock (fst (run i es ?s))"
  have le: "t \<le> ?t" "clock t \<le> clock ?t" using Cons.prems clock_mono by simp_all
  have wf: "wf_at ?t s" using Cons.prems(1) le wf_mono by blast
  have small: "int (length (recent width (clock ?t) (samples i s))) \<le> R"
    using recent_mono [OF le(2), of width "samples i s"] Cons.prems(5) by simp
  have now: "recent width (clock ?t) (samples i ?s) = recent width (clock ?t) (samples i s @ ?g)"
    by (rule step_samples) (use wf Cons.prems in auto)
  have IH: "int (length (in_window width x (recent width (clock ?t) (samples i ?s) @ ?later))) \<le> R"
    using Cons.IH [of ?t ?s] step_wf [OF wf] Cons.prems step_bound [OF wf _ _ small] now by simp
  have later: "\<forall>y \<in> set (?g @ ?later). clock ?t \<le> y"
    using run_grants_later [of ?t es] Cons.prems clock_mono by (auto dest: step_grants)
  show ?case
  proof (cases "clock ?t \<le> x")
    case True
    then have "in_window width x (recent width (clock t) (samples i s)) = in_window width x (recent width (clock ?t) (samples i s))"
      "in_window width x (recent width (clock ?t) ?g) = in_window width x ?g"
      using le by (simp_all add: in_window_recent)
    then show ?thesis using IH now by (simp add: run_Cons)
  next
    case False
    then have "in_window width x (?g @ ?later) = []" using later by (intro in_window_later) (meson not_le order_less_le_trans)
    then have "in_window width x (recent width (clock t) (samples i s) @ map clock (fst (run i (e # es) s)))
        = in_window width x (recent width (clock t) (samples i s))" by (simp add: run_Cons)
    then show ?thesis
      using length_in_window [of width x "recent width (clock t) (samples i s)"] Cons.prems(5) by simp
  qed
qed

text \<open>A channel that has been left alone for the width of the window is granted the next request.\<close>

lemma quiet_granted:
  assumes "wf_at t s" "clock t + width \<le> clock u" "t \<le> u" "0 < i" "Enabled c"
  shows "fst (acquire True u i c s) = Inr True"
proof -
  obtain b where b: "fst (acquire True u i c s) = Inr b" using acquire_answers by blast
  have "recent width (clock u) (samples i s) = []" "recent width (clock u) (success_samples i s) = []"
    using wf_past [OF assms(1), of _ i] assms(2) by (force simp: recent_def filter_empty_conv)+
  then show ?thesis
    using acquire_decides [OF wf_mono [OF assms(1,3)] assms(4,5) b] b by (simp add: saturated_def)
qed

end

section \<open>The slices in memory\<close>

definition local_wf :: "int \<Rightarrow> local_windows \<Rightarrow> bool" where
  "local_wf t l \<longleftrightarrow> (\<forall>i. sorted (rw_total (window_of l i)) \<and> sorted (rw_success (window_of l i)) \<and>
     (\<forall>x \<in> set (rw_total (window_of l i)) \<union> set (rw_success (window_of l i)). x \<le> t))"

lemma prune_recent: "sorted xs \<Longrightarrow> pruneChannelRateLimitSamples xs now = recent channelRateLimitWindow now xs"
proof (induction xs)
  case (Cons x xs)
  then show ?case by (auto simp: recent_def) (metis filter_True leI less_le_trans)
qed (simp add: recent_def)

lemma window_of_upd [simp]: "window_of (l(i \<mapsto> w)) j = (if j = i then w else window_of l j)"
  by (simp add: window_of_def)

lemma recent_recent: "t \<le> x \<Longrightarrow> recent w x (recent w t xs) = recent w x xs"
  by (auto simp: recent_def intro!: filter_cong)

lemma local_pruned:
  assumes "local_wf t l"
  shows "pruned t (window_of l i) =
    \<lparr>rw_total = recent channelRateLimitWindow t (rw_total (window_of l i)),
     rw_success = recent channelRateLimitWindow t (rw_success (window_of l i))\<rparr>"
  using assms by (simp add: pruned_def local_wf_def prune_recent)

lemma sorted_recent: "sorted xs \<Longrightarrow> sorted (recent w t xs)"
  by (simp add: recent_def sorted_wrt_filter)

lemma set_recent: "set (recent w t xs) \<subseteq> set xs"
  by (auto simp: recent_def)

lemma local_wfD:
  assumes "local_wf t l"
  shows "sorted (rw_total (window_of l i))" "sorted (rw_success (window_of l i))"
    "x \<in> set (rw_total (window_of l i)) \<Longrightarrow> x \<le> t" "x \<in> set (rw_success (window_of l i)) \<Longrightarrow> x \<le> t"
  using assms by (auto simp: local_wf_def)

lemma local_recent:
  assumes "local_wf t l"
  shows "sorted (recent w x (rw_total (window_of l i)))" "sorted (recent w x (rw_success (window_of l i)))"
    "y \<in> set (recent w x (rw_total (window_of l i))) \<Longrightarrow> y \<le> t"
    "y \<in> set (recent w x (rw_success (window_of l i))) \<Longrightarrow> y \<le> t"
  using local_wfD [OF assms] by (auto simp: recent_def sorted_wrt_filter)

lemma local_wf_upd:
  assumes "local_wf t l" "sorted (rw_total w)" "sorted (rw_success w)"
    "\<forall>x \<in> set (rw_total w) \<union> set (rw_success w). x \<le> t"
  shows "local_wf t (l(i \<mapsto> w))"
  using assms by (simp add: local_wf_def)

text \<open>The local operations with the signature of the contract; the mutex never fails.\<close>

definition local_acquire :: "local_windows acquire_op" where
  "local_acquire up t i c l = (case localAcquire t i c l of (b, l') \<Rightarrow> (Inr b, l'))"

definition local_success :: "local_windows success_op" where
  "local_success up t i c l = (Inr (), localRecordSuccess t i l)"

definition local_peek :: "local_windows acquire_op" where
  "local_peek up t i c l = (case localSaturated t i c l of (b, l') \<Rightarrow> (Inr b, l'))"

lemma local_wf_acquire: "local_wf t l \<Longrightarrow> local_wf t (snd (localAcquire t i c l))"
  by (auto simp: localAcquire_def Let_def local_pruned sorted_append local_recent intro!: local_wf_upd)

lemma local_wf_success: "local_wf t l \<Longrightarrow> local_wf t (localRecordSuccess t i l)"
  by (auto simp: localRecordSuccess_def Let_def prune_recent sorted_append local_wfD local_recent intro!: local_wf_upd)

lemma localSaturated_eq:
  "localSaturated t i c l =
    (if l i = None then (False, l)
     else (saturated c (length (rw_total (pruned t (window_of l i)))) (length (rw_success (pruned t (window_of l i)))),
           l(i \<mapsto> pruned t (window_of l i))))"
  by (auto simp: localSaturated_def Let_def window_of_def split: option.splits)

lemma local_wf_peek: "local_wf t l \<Longrightarrow> local_wf t (snd (localSaturated t i c l))"
  by (auto simp: localSaturated_eq local_pruned local_recent intro!: local_wf_upd)

interpretation lw: sliding_window local_acquire local_success local_peek
  "\<lambda>i l. rw_total (window_of l i)" "\<lambda>i l. rw_success (window_of l i)" "\<lambda>t. t" channelRateLimitWindow local_wf
proof
  show "local_wf t (snd (local_acquire up t i c s))" if "local_wf t s" for t s up i c
    using local_wf_acquire [OF that] by (simp add: local_acquire_def case_prod_beta)
  show "local_wf t (snd (local_success up t i c s))" if "local_wf t s" for t s up i c
    using local_wf_success [OF that] by (simp add: local_success_def)
  show "local_wf t (snd (local_peek up t i c s))" if "local_wf t s" for t s up i c
    using local_wf_peek [OF that] by (simp add: local_peek_def case_prod_beta)
  show "local_wf t' s" if "local_wf t s" "t \<le> t'" for t s t'
    using that by (force simp: local_wf_def)
  show "recent channelRateLimitWindow x (rw_total (window_of (snd (local_peek up t i c s)) j)) =
      recent channelRateLimitWindow x (rw_total (window_of s j))"
    if "local_wf t s" "t \<le> x" for t s x up i c j
    using that by (auto simp: local_peek_def localSaturated_eq local_pruned recent_recent)
  show "fst (local_acquire True t i c s) = Inr (\<not> b)" if "fst (local_peek True t i c s) = Inr b" for t i c s b
    using that
    by (auto simp: local_peek_def localSaturated_def local_acquire_def localAcquire_def Let_def window_of_def
        pruned_def saturated_def split: option.splits)
qed (auto simp: local_acquire_def local_success_def local_wfD localAcquire_def localRecordSuccess_def Let_def local_pruned recent_recent
      split: prod.splits)
section \<open>The sorted sets in Redis\<close>

text \<open>
  Scores are in the past, a key outlives its entries by more than the window, and the serial
  numbers of the members have been used.
\<close>

definition zset_wf :: "int \<Rightarrow> nat \<Rightarrow> sorted_set \<Rightarrow> bool" where
  "zset_wf now_ms n z \<longleftrightarrow> (\<forall>(score, t, k) \<in> set (entries z).
     score \<le> now_ms \<and> k \<le> n \<and> (\<forall>e. expires z = Some e \<longrightarrow> score + 120000 \<le> e))"

definition redis_wf :: "int \<Rightarrow> redis_windows \<Rightarrow> bool" where
  "redis_wf t r \<longleftrightarrow> (\<forall>k. zset_wf (UnixMilli t) (serial r) (zset r k))"

definition scores :: "sorted_set \<Rightarrow> int list" where
  "scores z = map fst (entries z)"

lemma UnixMilli_mono: "t \<le> t' \<Longrightarrow> UnixMilli t \<le> UnixMilli t'"
  by (simp add: UnixMilli_def zdiv_mono1)

lemma UnixMilli_window: "UnixMilli (t - channelRateLimitWindow) = UnixMilli t - 60000"
proof -
  have "(t - 60000 * 10 ^ 6) div 10 ^ 6 = t div 10 ^ 6 - (60000 :: int)"
    using div_mult_self1 [of "10 ^ 6 :: int" t "- 60000"] by simp
  then show ?thesis by (simp add: UnixMilli_def channelRateLimitWindow_def)
qed

lemma zset_wf_mono: "zset_wf t n z \<Longrightarrow> t \<le> t' \<Longrightarrow> n \<le> n' \<Longrightarrow> zset_wf t' n' z"
  by (fastforce simp: zset_wf_def)

lemma trim_wf: "zset_wf t n z \<Longrightarrow> zset_wf t n (ZREMRANGEBYSCORE c (live t z))"
  by (auto simp: zset_wf_def ZREMRANGEBYSCORE_def live_def split: option.splits)

text \<open>Removing the expired entries of a key, or the key itself, leaves the window as it was.\<close>

lemma trim_scores:
  assumes "zset_wf t n z" "t \<le> x"
  shows "recent 60000 x (scores (ZREMRANGEBYSCORE (t - 60000) (live t z))) = recent 60000 x (scores z)"
proof (cases "\<exists>e. expires z = Some e \<and> e \<le> t")
  case True
  then have "recent 60000 x (scores z) = []"
    using assms by (fastforce simp: zset_wf_def recent_def scores_def filter_empty_conv)
  then show ?thesis using True by (auto simp: live_def ZREMRANGEBYSCORE_def recent_def scores_def)
next
  case False
  then have "live t z = z" by (auto simp: live_def split: option.splits)
  then show ?thesis using assms(2)
    by (auto simp: ZREMRANGEBYSCORE_def recent_def scores_def filter_map comp_def case_prod_beta intro!: arg_cong [of _ _ "map fst"] filter_cong)
qed

lemma trim_size:
  assumes "zset_wf t n z"
  shows "length (entries (ZREMRANGEBYSCORE (t - 60000) (live t z))) = length (recent 60000 t (scores z))"
proof -
  have "recent 60000 t (scores (ZREMRANGEBYSCORE (t - 60000) (live t z))) = scores (ZREMRANGEBYSCORE (t - 60000) (live t z))"
    by (auto simp: ZREMRANGEBYSCORE_def recent_def scores_def filter_id_conv)
  then show ?thesis using trim_scores [OF assms order_refl] by (metis length_map scores_def)
qed

lemma EXPIRE_scores [simp]: "scores (EXPIRE t n z) = scores z"
  by (simp add: EXPIRE_def scores_def)

lemma EXPIRE_wf: "zset_wf t n z \<Longrightarrow> zset_wf t n (EXPIRE t 120 z)"
  by (auto simp: zset_wf_def EXPIRE_def)

lemma ZADD_fresh:
  assumes "zset_wf t n z"
  shows "scores (ZADD t (u, Suc n) z) = scores z @ [t]"
proof -
  have "filter (\<lambda>(_, m). m \<noteq> (u, Suc n)) (entries z) = entries z"
    using assms by (fastforce simp: zset_wf_def filter_id_conv)
  then show ?thesis by (simp add: ZADD_def scores_def)
qed

lemma ZADD_EXPIRE_wf: "zset_wf t n z \<Longrightarrow> zset_wf t (Suc n) (EXPIRE t 120 (ZADD t (u, Suc n) z))"
  by (fastforce simp: zset_wf_def EXPIRE_def ZADD_def)


definition redis_success :: "redis_windows success_op" where
  "redis_success up t i c r = redisRecordSuccess up t i r"

abbreviation redis_samples :: "string \<Rightarrow> int \<Rightarrow> redis_windows \<Rightarrow> int list" where
  "redis_samples kind i r \<equiv> scores (zset r (redisKey i kind))"

lemma redisKey_eq [simp]: "redisKey i k = redisKey j k' \<longleftrightarrow> i = j \<and> k = k'"
  by (auto simp: redisKey_def)

lemma redis_wfD: "redis_wf t r \<Longrightarrow> zset_wf (UnixMilli t) (serial r) (zset r k)"
  unfolding redis_wf_def by blast

lemma redis_wfI: "(\<And>k. zset_wf (UnixMilli t) (serial r) (zset r k)) \<Longrightarrow> redis_wf t r"
  unfolding redis_wf_def by blast

lemma zset_wf_Suc: "zset_wf t n z \<Longrightarrow> zset_wf t (Suc n) z"
  by (erule zset_wf_mono) simp_all

lemma redis_wf_acquire: "redis_wf t r \<Longrightarrow> redis_wf t (snd (redisAcquire up t i c r))"
  by (rule redis_wfI) (simp add: redis_wfD redisAcquire_def acquire_script_def Let_def zset_wf_Suc trim_wf EXPIRE_wf ZADD_EXPIRE_wf)

lemma redis_wf_success: "redis_wf t r \<Longrightarrow> redis_wf t (snd (redisRecordSuccess up t i r))"
  by (rule redis_wfI) (simp add: redis_wfD redisRecordSuccess_def success_script_def Let_def zset_wf_Suc trim_wf ZADD_EXPIRE_wf)

lemma redis_wf_peek: "redis_wf t r \<Longrightarrow> redis_wf t (snd (redisSaturated up t i c r))"
  by (rule redis_wfI) (simp add: redis_wfD redisSaturated_def saturated_script_def Let_def trim_wf)

lemma redisAcquire_samples:
  assumes "redis_wf t r" "UnixMilli t \<le> x"
  shows "recent 60000 x (redis_samples ''total'' i (snd (redisAcquire up t i c r))) =
    recent 60000 x (redis_samples ''total'' i r @ (if fst (redisAcquire up t i c r) = Inr True then [UnixMilli t] else []))"
  using trim_scores [OF redis_wfD [OF assms(1)] assms(2), of "redisKey i ''total''"]
    ZADD_fresh [OF trim_wf [OF redis_wfD [OF assms(1)]], of t _ "redisKey i ''total''"]
  by (auto simp: redisAcquire_def acquire_script_def Let_def UnixMilli_window)

lemma redisAcquire_decides:
  assumes "redis_wf t r" "fst (redisAcquire up t i c r) = Inr b"
  shows "b = (\<not> saturated c (length (recent 60000 (UnixMilli t) (redis_samples ''total'' i r)))
    (length (recent 60000 (UnixMilli t) (redis_samples ''success'' i r))))"
  using assms(2) trim_size [OF redis_wfD [OF assms(1)]]
  by (auto simp: redisAcquire_def acquire_script_def Let_def UnixMilli_window split: if_splits)

lemma redisAcquire_other: "j \<noteq> i \<Longrightarrow> redis_samples ''total'' j (snd (redisAcquire up t i c r)) = redis_samples ''total'' j r"
  by (simp add: redisAcquire_def acquire_script_def Let_def)

lemma redisAcquire_answers: "\<exists>b. fst (redisAcquire True t i c r) = Inr b"
  by (auto simp: redisAcquire_def acquire_script_def Let_def)

lemma redis_success_kept: "redis_samples ''total'' j (snd (redisRecordSuccess up t i r)) = redis_samples ''total'' j r"
  by (simp add: redisRecordSuccess_def Let_def)

interpretation rw: sliding_window redisAcquire redis_success redisSaturated
  "redis_samples ''total''" "redis_samples ''success''" UnixMilli 60000 redis_wf
proof
  show "redis_wf t' s" if "redis_wf t s" "t \<le> t'" for t s t'
    by (rule redis_wfI) (rule zset_wf_mono [OF redis_wfD [OF that(1)] UnixMilli_mono [OF that(2)] order_refl])
  show "x \<le> UnixMilli t" if "redis_wf t s" "x \<in> set (redis_samples ''total'' i s) \<union> set (redis_samples ''success'' i s)" for t s x i
    using that(2) redis_wfD [OF that(1)] by (fastforce simp: zset_wf_def scores_def)
  show "recent 60000 x (redis_samples ''total'' j (snd (redisSaturated up t i c s))) = recent 60000 x (redis_samples ''total'' j s)"
    if "redis_wf t s" "UnixMilli t \<le> x" for t s x j up i c
    using trim_scores [OF redis_wfD [OF that(1)] that(2)]
    by (auto simp: redisSaturated_def saturated_script_def Let_def UnixMilli_window)
  show "fst (redisAcquire True t i c s) = Inr (\<not> b)" if "fst (redisSaturated True t i c s) = Inr b" for t i c s b
    using that by (auto simp: redisSaturated_def saturated_script_def redisAcquire_def acquire_script_def Let_def)
qed (simp_all add: UnixMilli_mono redis_wf_acquire redis_wf_success redis_wf_peek redis_success_def
      redisAcquire_samples [simplified] redisAcquire_decides redisAcquire_other redisAcquire_answers redis_success_kept)


section \<open>The limiter of a channel\<close>

definition limiter_wf :: "bool \<Rightarrow> int \<Rightarrow> limiter \<Rightarrow> bool" where
  "limiter_wf redis t s = (if redis then redis_wf t (redis_state s) else local_wf t (local_state s))"

definition limiter_samples :: "bool \<Rightarrow> int \<Rightarrow> limiter \<Rightarrow> int list" where
  "limiter_samples redis i s =
    (if redis then redis_samples ''total'' i (redis_state s) else rw_total (window_of (local_state s) i))"

definition limiter_successes :: "bool \<Rightarrow> int \<Rightarrow> limiter \<Rightarrow> int list" where
  "limiter_successes redis i s =
    (if redis then redis_samples ''success'' i (redis_state s) else rw_success (window_of (local_state s) i))"

definition limiter_clock :: "bool \<Rightarrow> int \<Rightarrow> int" where
  "limiter_clock redis t = (if redis then UnixMilli t else t)"

definition limiter_width :: "bool \<Rightarrow> int" where
  "limiter_width redis = (if redis then 60000 else channelRateLimitWindow)"

lemmas limiter_defs = limiter_wf_def limiter_samples_def limiter_successes_def limiter_clock_def limiter_width_def

lemma TryAcquire_redis:
  "0 < i \<Longrightarrow> Enabled c \<Longrightarrow> TryAcquireChannelRequest True up t i c s =
    (fst (redisAcquire up t i c (redis_state s)), s\<lparr>redis_state := snd (redisAcquire up t i c (redis_state s))\<rparr>)"
  by (simp add: TryAcquireChannelRequest_def case_prod_beta)

lemma TryAcquire_local:
  "0 < i \<Longrightarrow> Enabled c \<Longrightarrow> TryAcquireChannelRequest False up t i c s =
    (fst (local_acquire up t i c (local_state s)), s\<lparr>local_state := snd (local_acquire up t i c (local_state s))\<rparr>)"
  by (simp add: TryAcquireChannelRequest_def local_acquire_def case_prod_beta)

lemma TryAcquire_unlimited:
  "\<not> (0 < i \<and> Enabled c) \<Longrightarrow> TryAcquireChannelRequest redis up t i c s = (Inr True, s)"
  by (auto simp: TryAcquireChannelRequest_def)

lemma IsLimited_eq:
  "IsChannelRateLimited redis up t i c s =
    (if \<not> (0 < i \<and> Enabled c) then (Inr False, s)
     else if redis then (fst (redisSaturated up t i c (redis_state s)), s\<lparr>redis_state := snd (redisSaturated up t i c (redis_state s))\<rparr>)
     else (fst (local_peek up t i c (local_state s)), s\<lparr>local_state := snd (local_peek up t i c (local_state s))\<rparr>))"
  by (auto simp: IsChannelRateLimited_def local_peek_def case_prod_beta)

lemma RecordSuccess_eq:
  "RecordChannelRequestSuccess redis up t i c s =
    (if i \<le> 0 \<or> SuccessfulRPM c \<le> 0 then (Inr (), s)
     else if redis then (fst (redis_success up t i c (redis_state s)), s\<lparr>redis_state := snd (redis_success up t i c (redis_state s))\<rparr>)
     else (fst (local_success up t i c (local_state s)), s\<lparr>local_state := snd (local_success up t i c (local_state s))\<rparr>))"
  by (auto simp: RecordChannelRequestSuccess_def redis_success_def local_success_def case_prod_beta)

lemma limiter_redis:
  "sliding_window (TryAcquireChannelRequest True) (RecordChannelRequestSuccess True) (IsChannelRateLimited True)
     (limiter_samples True) (limiter_successes True) (limiter_clock True) (limiter_width True) (limiter_wf True)"
proof
  show "fst (TryAcquireChannelRequest True True t i c s) = Inr (\<not> b)"
    if "fst (IsChannelRateLimited True True t i c s) = Inr b" for t i c s b
    using that rw.peek_agrees [of t i c "redis_state s" b]
    by (cases "0 < i \<and> Enabled c") (simp_all add: IsLimited_eq TryAcquire_redis TryAcquire_unlimited)
  show "limiter_wf True t (snd (TryAcquireChannelRequest True up t i c s))" if "limiter_wf True t s" for t s up i c
    using that
    by (cases "0 < i \<and> Enabled c") (simp_all add: limiter_defs TryAcquire_redis TryAcquire_unlimited rw.wf_acquire)
  show "limiter_samples True j (snd (TryAcquireChannelRequest True up t i c s)) = limiter_samples True j s"
    if "limiter_wf True t s" "j \<noteq> i" for t s j i up c
    using that
    by (cases "0 < i \<and> Enabled c") (simp_all add: limiter_defs TryAcquire_redis TryAcquire_unlimited rw.acquire_other)
  show "\<exists>b. fst (TryAcquireChannelRequest True True t i c s) = Inr b" for t i c s
    using rw.acquire_answers
    by (cases "0 < i \<and> Enabled c") (auto simp: TryAcquire_redis TryAcquire_unlimited)
qed (auto simp: limiter_defs TryAcquire_redis IsLimited_eq RecordSuccess_eq rw.clock_mono
       rw.wf_success rw.wf_peek rw.acquire_samples rw.acquire_decides rw.success_samples_kept rw.peek_samples_kept
       intro: rw.wf_mono dest: rw.wf_past)

lemma limiter_local:
  "sliding_window (TryAcquireChannelRequest False) (RecordChannelRequestSuccess False) (IsChannelRateLimited False)
     (limiter_samples False) (limiter_successes False) (limiter_clock False) (limiter_width False) (limiter_wf False)"
proof
  show "fst (TryAcquireChannelRequest False True t i c s) = Inr (\<not> b)"
    if "fst (IsChannelRateLimited False True t i c s) = Inr b" for t i c s b
    using that lw.peek_agrees [of t i c "local_state s" b]
    by (cases "0 < i \<and> Enabled c") (simp_all add: IsLimited_eq TryAcquire_local TryAcquire_unlimited)
  show "limiter_wf False t (snd (TryAcquireChannelRequest False up t i c s))" if "limiter_wf False t s" for t s up i c
    using that
    by (cases "0 < i \<and> Enabled c") (simp_all add: limiter_defs TryAcquire_local TryAcquire_unlimited lw.wf_acquire)
  show "limiter_samples False j (snd (TryAcquireChannelRequest False up t i c s)) = limiter_samples False j s"
    if "limiter_wf False t s" "j \<noteq> i" for t s j i up c
    using that
    by (cases "0 < i \<and> Enabled c") (simp_all add: limiter_defs TryAcquire_local TryAcquire_unlimited lw.acquire_other)
  show "\<exists>b. fst (TryAcquireChannelRequest False True t i c s) = Inr b" for t i c s
    using lw.acquire_answers
    by (cases "0 < i \<and> Enabled c") (auto simp: TryAcquire_local TryAcquire_unlimited)
qed (auto simp: limiter_defs TryAcquire_local IsLimited_eq RecordSuccess_eq
       lw.wf_success lw.wf_peek lw.acquire_samples lw.acquire_decides lw.success_samples_kept lw.peek_samples_kept
       intro: lw.wf_mono dest: lw.wf_past)

interpretation lim: sliding_window "TryAcquireChannelRequest redis" "RecordChannelRequestSuccess redis"
  "IsChannelRateLimited redis" "limiter_samples redis" "limiter_successes redis" "limiter_clock redis"
  "limiter_width redis" "limiter_wf redis" for redis
  by (cases redis) (simp_all add: limiter_redis limiter_local)

section \<open>Rate limits hold, and end\<close>

definition empty_limiter :: limiter where
  "empty_limiter = \<lparr>local_state = Map.empty, redis_state = \<lparr>zset = (\<lambda>_. \<lparr>entries = [], expires = None\<rparr>), serial = 0\<rparr>\<rparr>"

lemma empty_limiter_wf: "limiter_wf redis t empty_limiter"
  by (auto simp: limiter_wf_def empty_limiter_def redis_wf_def local_wf_def zset_wf_def window_of_def)

lemma empty_limiter_samples: "limiter_samples redis i empty_limiter = []"
  by (auto simp: limiter_samples_def empty_limiter_def scores_def window_of_def)

abbreviation limiter_run :: "bool \<Rightarrow> int \<Rightarrow> history \<Rightarrow> limiter \<Rightarrow> int list \<times> limiter" where
  "limiter_run redis \<equiv> guard_run (TryAcquireChannelRequest redis) (RecordChannelRequestSuccess redis) (IsChannelRateLimited redis)"

text \<open>
  C16. Whatever sequence of requests, successes and saturation checks runs on any channels, in memory or
  through Redis with any failures of it, a channel whose request limit is never above \<open>R\<close> is granted
  at most \<open>R\<close> requests in every minute: in every window of sixty seconds (of sixty thousand milliseconds
  with Redis, which counts in milliseconds), not only in those that begin at a full minute.
\<close>

theorem channel_rate_limit_respected:
  assumes "0 < i" "0 \<le> R" "timely t es" "\<forall>e \<in> set es. limited i R e"
  shows "int (length (in_window (limiter_width redis) x
    (map (limiter_clock redis) (fst (limiter_run redis i es empty_limiter))))) \<le> R"
  using lim.run_bound [where redis = redis and x = x, OF empty_limiter_wf assms(1,3,4)] assms(2)
  by (simp add: empty_limiter_samples)

definition demo_limits :: ChannelRateLimitConfig where
  "demo_limits = \<lparr>RequestRPM = 2, SuccessfulRPM = 0\<rparr>"

definition demo_history :: history where
  "demo_history = [(1, True, Acquire 5 demo_limits), (2, True, Acquire 5 demo_limits), (3, True, Acquire 5 demo_limits)]"

theorem channel_rate_limit_respected_witness:
  "length (in_window (limiter_width False) 3 (map (limiter_clock False) (fst (limiter_run False 5 demo_history empty_limiter)))) \<le> 2
   \<and> fst (limiter_run False 5 demo_history empty_limiter) = [1, 2]"
proof -
  have "timely 0 demo_history" "\<forall>e \<in> set demo_history. limited 5 2 e"
    by (simp_all add: demo_history_def demo_limits_def limited_def)
  moreover have "fst (limiter_run False 5 demo_history empty_limiter) = [1, 2]" by code_simp
  ultimately show ?thesis
    using channel_rate_limit_respected [of 5 2 0 demo_history False 3] by simp
qed

text \<open>
  C38. A limited channel becomes available again: after any sequence of operations up to time \<open>t\<close>, once a
  minute has passed without any of them the next request to the channel is granted, whatever its limits.
\<close>

theorem limited_channel_recovers:
  assumes "timely t es" "u = last (t # map fst es)" "u + channelRateLimitWindow \<le> v" "0 < i"
  shows "fst (TryAcquireChannelRequest redis True v i c (snd (limiter_run redis j es empty_limiter))) = Inr True"
proof (cases "Enabled c")
  case True
  have wf: "limiter_wf redis u (snd (limiter_run redis j es empty_limiter))"
    using lim.run_wf [where redis = redis, OF empty_limiter_wf assms(1)] assms(2) by simp
  have "UnixMilli (u + channelRateLimitWindow) = UnixMilli u + 60000"
    using UnixMilli_window [of "u + channelRateLimitWindow"] by simp
  then have "limiter_clock redis u + limiter_width redis \<le> limiter_clock redis v"
    using UnixMilli_mono [OF assms(3)] assms(3) by (simp add: limiter_clock_def limiter_width_def)
  moreover have "u \<le> v" using assms(3) by (simp add: channelRateLimitWindow_def)
  ultimately show ?thesis by (rule lim.quiet_granted [OF wf _ _ assms(4) True])
qed (simp add: TryAcquire_unlimited)

theorem limited_channel_recovers_witness:
  "fst (TryAcquireChannelRequest True True (3 + channelRateLimitWindow) 5 demo_limits
     (snd (limiter_run True 5 demo_history empty_limiter))) = Inr True"
proof -
  have "timely 0 demo_history" "last (0 # map fst demo_history) = 3" by (simp_all add: demo_history_def)
  then show ?thesis
    using limited_channel_recovers [of 0 demo_history 3 "3 + channelRateLimitWindow" 5 True demo_limits 5] by simp
qed

section \<open>Cool-down after failures\<close>

datatype health_event = Failed int | Succeeded int

fun health_step :: "int \<times> health_event \<Rightarrow> channelHealth \<Rightarrow> channelHealth" where
  "health_step (t, Failed i) h = snd (RecordChannelHealthFailure t i h)"
| "health_step (t, Succeeded i) h = RecordChannelHealthSuccess i h"

definition health_run :: "(int \<times> health_event) list \<Rightarrow> channelHealth \<Rightarrow> channelHealth" where
  "health_run es h = fold health_step es h"

text \<open>The events of a channel, latest first, and the failures at the end of its history.\<close>

fun channel_of :: "health_event \<Rightarrow> int" where
  "channel_of (Failed i) = i"
| "channel_of (Succeeded i) = i"

definition history_of :: "int \<Rightarrow> (int \<times> health_event) list \<Rightarrow> (int \<times> health_event) list" where
  "history_of i es = filter (\<lambda>e. channel_of (snd e) = i) es"

definition failing :: "int \<Rightarrow> (int \<times> health_event) list \<Rightarrow> (int \<times> health_event) list" where
  "failing i es = takeWhile (\<lambda>e. snd e = Failed i) (rev (history_of i es))"

text \<open>The time of the last third failure in a row, counting from the last success.\<close>

definition tripped_at :: "int \<Rightarrow> (int \<times> health_event) list \<Rightarrow> int option" where
  "tripped_at i es =
    (let fs = rev (failing i es); n = length fs - length fs mod channelFailureThreshold
     in if n = 0 then None else Some (fst (fs ! (n - 1))))"

lemma failing_snoc:
  "failing i (es @ [(t, Failed i)]) = (t, Failed i) # failing i es"
  "failing i (es @ [(t, Succeeded i)]) = []"
  "channel_of e \<noteq> i \<Longrightarrow> failing i (es @ [(t, e)]) = failing i es"
  by (simp_all add: failing_def history_of_def)

lemma tripped_at_failure:
  "tripped_at i (es @ [(t, Failed i)]) =
    (if length (failing i es) mod channelFailureThreshold = channelFailureThreshold - 1 then Some t else tripped_at i es)"
proof -
  let ?n = "length (failing i es)"
  have m: "Suc ?n mod 3 = (if ?n mod 3 = 2 then 0 else Suc (?n mod 3))" by (simp add: mod_Suc)
  have "?n - ?n mod 3 \<le> ?n" by simp
  then show ?thesis
    using m by (auto simp: tripped_at_def Let_def failing_snoc channelFailureThreshold_def nth_append split: if_splits)
qed

lemma health_run_snoc: "health_run (es @ [e]) h = health_step e (health_run es h)"
  by (simp add: health_run_def)

lemma health_of_upd [simp]: "health_of (h(i \<mapsto> st)) j = (if j = i then st else health_of h j)"
  by (simp add: health_of_def)

lemma health_of_failure:
  assumes "0 < i"
  shows "consecutiveFailures (health_of (snd (RecordChannelHealthFailure t i h)) i) =
      (if consecutiveFailures (health_of h i) \<ge> 2 then 0 else Suc (consecutiveFailures (health_of h i)))"
    "cooldownEnd (health_of (snd (RecordChannelHealthFailure t i h)) i) =
      (if consecutiveFailures (health_of h i) \<ge> 2 then Some (t + channelCooldown) else cooldownEnd (health_of h i))"
  using assms by (simp_all add: RecordChannelHealthFailure_def Let_def channelFailureThreshold_def)

lemma health_of_success:
  assumes "0 < i"
  shows "consecutiveFailures (health_of (RecordChannelHealthSuccess i h) i) = 0"
    "cooldownEnd (health_of (RecordChannelHealthSuccess i h) i) = None"
  using assms by (simp_all add: RecordChannelHealthSuccess_def Let_def)

lemma health_run_state:
  assumes "0 < i"
  shows "consecutiveFailures (health_of (health_run es Map.empty) i) = length (failing i es) mod channelFailureThreshold \<and>
    cooldownEnd (health_of (health_run es Map.empty) i) = map_option (\<lambda>t. t + channelCooldown) (tripped_at i es)"
proof (induction es rule: rev_induct)
  case Nil
  then show ?case by (simp add: health_run_def health_of_def failing_def history_of_def tripped_at_def Let_def)
next
  case (snoc e es)
  obtain t ev where e: "e = (t, ev)" by force
  show ?case
  proof (cases "channel_of ev = i")
    case False
    then have "health_of (health_run (es @ [e]) Map.empty) i = health_of (health_run es Map.empty) i"
      by (cases ev) (auto simp: health_run_snoc e RecordChannelHealthFailure_def RecordChannelHealthSuccess_def Let_def)
    then show ?thesis using snoc False by (simp add: e failing_snoc tripped_at_def)
  next
    case True
    show ?thesis
    proof (cases ev)
      case (Failed j)
      have "length (failing i es) mod 3 < 3" by simp
      then show ?thesis using snoc True Failed assms
        by (auto simp: health_run_snoc e health_of_failure tripped_at_failure failing_snoc(1)
            channelFailureThreshold_def mod_Suc)
    next
      case (Succeeded j)
      then show ?thesis using True assms
        by (simp add: health_run_snoc e health_of_success failing_snoc(2) tripped_at_def)
    qed
  qed
qed

text \<open>
  C39. A channel is left alone exactly for thirty seconds after every third failure in a row: whatever the
  history of all channels, a channel is cooling down at \<open>now\<close> exactly when the last failure
  that completed three since its last success is less than thirty seconds ago.
\<close>

theorem cooldown_exact:
  assumes "0 < i"
  shows "IsChannelCoolingDown now i (health_run es Map.empty) \<longleftrightarrow>
    (\<exists>t. tripped_at i es = Some t \<and> now < t + channelCooldown)"
proof (cases "health_run es Map.empty i")
  case None
  then show ?thesis using health_run_state [OF assms, of es] by (auto simp: IsChannelCoolingDown_def health_of_def)
next
  case (Some st)
  then show ?thesis using health_run_state [OF assms, of es] by (auto simp: IsChannelCoolingDown_def health_of_def split: option.splits)
qed

theorem cooldown_exact_witness:
  "IsChannelCoolingDown 30 5 (health_run [(1, Failed 5), (2, Failed 5), (3, Failed 5)] Map.empty)"
proof -
  have "tripped_at 5 [(1, Failed 5), (2, Failed 5), (3, Failed 5)] = Some 3"
    by (simp add: tripped_at_def failing_def history_of_def channelFailureThreshold_def)
  then show ?thesis using cooldown_exact [of 5 30 "[(1, Failed 5), (2, Failed 5), (3, Failed 5)]"]
    by (simp add: channelCooldown_def)
qed

end
