(* ===== verification/Channel_Table.thy ===== *)
theory Channel_Table
  imports Channel_Guard Token_Auth
begin

text \<open>
  Channels and their abilities in the database (src/model/channel.go, src/model/ability.go).  A channel
  lists models and groups as comma-separated texts; the abilities table holds one row for each pair of a group and a
  model the channel serves, with its status, priority, weight and tag copied from the channel.  Routing without the memory
  cache reads only the abilities, so every operation on channels has to keep the two tables in step.

  \<open>channel_env\<close> holds what is not code of the repository: JSON decoding of a key array and of the settings column
  (whether it succeeded, and the value it leaves) and regular expressions.  An \<open>Updates\<close> with a struct skips zero
  fields, as GORM documents; a \<open>Create\<close> fills in the defaults of the column tags.  A map that is allocated but empty
  counts as nil.
\<close>

record channel_env =
  MemoryCacheEnabled :: bool
  parse_key_array :: "string \<Rightarrow> string list option"
  decode_settings :: "string \<Rightarrow> bool \<times> ChannelOtherSettings"
  compile_regexp :: re_compiler

definition ChannelStatusEnabled :: int where "ChannelStatusEnabled = 1"
definition ChannelStatusManuallyDisabled :: int where "ChannelStatusManuallyDisabled = 2"
definition ChannelStatusAutoDisabled :: int where "ChannelStatusAutoDisabled = 3"
definition ChannelTypeAdvancedCustom :: int where "ChannelTypeAdvancedCustom = 58"

lemmas channel_status_defs = ChannelStatusEnabled_def ChannelStatusManuallyDisabled_def ChannelStatusAutoDisabled_def

section \<open>Fields of a channel\<close>

definition newline :: char where
  "newline = CHR 0x0A"

definition split_keys :: "string \<Rightarrow> string list" where
  "split_keys key = Split (TrimByte key newline) newline"

definition GetKeys :: "channel_env \<Rightarrow> Channel \<Rightarrow> string list" where
  "GetKeys ce ch =
    (if ch_Key ch = [] then []
     else if ch_Keys ch \<noteq> [] then ch_Keys ch
     else
       let trimmed = TrimSpace (ch_Key ch) in
       if HasPrefix trimmed ''['' then
         (case parse_key_array ce trimmed of Some arr \<Rightarrow> arr | None \<Rightarrow> split_keys (ch_Key ch))
       else split_keys (ch_Key ch))"

definition GetModels :: "Channel \<Rightarrow> string list" where
  "GetModels ch = (if ch_Models ch = [] then [] else Split (TrimByte (ch_Models ch) (CHR '','')) (CHR '',''))"

definition GetGroups :: "Channel \<Rightarrow> string list" where
  "GetGroups ch =
    (if ch_Group ch = [] then [] else map TrimSpace (Split (TrimByte (ch_Group ch) (CHR '','')) (CHR '','')))"

definition GetOtherInfo :: "Channel \<Rightarrow> string \<rightharpoonup> info_value" where
  "GetOtherInfo ch = (case ch_OtherInfo ch of None \<Rightarrow> Map.empty | Some info \<Rightarrow> info)"

definition SetOtherInfo :: "(string \<rightharpoonup> info_value) \<Rightarrow> Channel \<Rightarrow> Channel" where
  "SetOtherInfo info ch = ch\<lparr>ch_OtherInfo := Some info\<rparr>"

definition GetTag :: "Channel \<Rightarrow> string" where
  "GetTag ch = (case ch_Tag ch of None \<Rightarrow> [] | Some t \<Rightarrow> t)"

definition GetAutoBan :: "Channel \<Rightarrow> bool" where
  "GetAutoBan ch \<longleftrightarrow> ch_AutoBan ch = Some 1"

definition GetPriority :: "Channel \<Rightarrow> int" where
  "GetPriority ch = (case ch_Priority ch of None \<Rightarrow> 0 | Some p \<Rightarrow> p)"

definition GetWeight :: "Channel \<Rightarrow> nat" where
  "GetWeight ch = (case ch_Weight ch of None \<Rightarrow> 0 | Some w \<Rightarrow> w)"

section \<open>Rows\<close>

definition set_channels :: "(Channel list \<Rightarrow> Channel list) \<Rightarrow> store \<Rightarrow> store" where
  "set_channels f s = s\<lparr>db := (db s)\<lparr>channels := f (channels (db s))\<rparr>\<rparr>"

definition set_abilities :: "(Ability list \<Rightarrow> Ability list) \<Rightarrow> store \<Rightarrow> store" where
  "set_abilities f s = s\<lparr>db := (db s)\<lparr>abilities := f (abilities (db s))\<rparr>\<rparr>"

text \<open>A statement that changes one of the tables.\<close>

definition exec_stmt :: "(store \<Rightarrow> store) \<Rightarrow> store \<Rightarrow> error option \<times> store" where
  "exec_stmt f s = (case stmt s of (True, s1) \<Rightarrow> (None, f s1) | (False, s1) \<Rightarrow> (Some ErrDB, s1))"

text \<open>A row as it is stored and read back: \<open>Keys\<close> is not a column.\<close>

definition stored :: "Channel \<Rightarrow> Channel" where
  "stored ch = ch\<lparr>ch_Keys := []\<rparr>"

definition GetChannelById :: "int \<Rightarrow> bool \<Rightarrow> store \<Rightarrow> (error + Channel) \<times> store" where
  "GetChannelById i selectAll s =
    (case stmt s of
       (True, s1) \<Rightarrow>
         (case row ch_Id (channels (db s1)) i of
            None \<Rightarrow> (Inl ErrRecordNotFound, s1)
          | Some ch \<Rightarrow> (Inr (if selectAll then ch else ch\<lparr>ch_Key := []\<rparr>), s1))
     | (False, s1) \<Rightarrow> (Inl ErrDB, s1))"

definition Channel_Save :: "Channel \<Rightarrow> store \<Rightarrow> error option \<times> store" where
  "Channel_Save ch s = exec_stmt (set_channels (save_row ch_Id (stored ch))) s"

definition keep_key :: "Channel \<Rightarrow> Channel list \<Rightarrow> Channel" where
  "keep_key ch rows = (stored ch)\<lparr>ch_Key := (case row ch_Id rows (ch_Id ch) of None \<Rightarrow> [] | Some old \<Rightarrow> ch_Key old)\<rparr>"

definition SaveWithoutKey :: "Channel \<Rightarrow> store \<Rightarrow> error option \<times> store" where
  "SaveWithoutKey ch s =
    (if ch_Id ch = 0 then (Some ErrChannelIdZero, s)
     else exec_stmt (set_channels (\<lambda>rows. save_row ch_Id (keep_key ch rows) rows)) s)"

definition SaveChannelInfo :: "Channel \<Rightarrow> store \<Rightarrow> error option \<times> store" where
  "SaveChannelInfo ch s =
    exec_stmt (set_channels (upd_row ch_Id (ch_Id ch) (\<lambda>r. r\<lparr>ch_ChannelInfo := ch_ChannelInfo ch\<rparr>))) s"

definition zero_settings :: ChannelOtherSettings where
  "zero_settings = \<lparr>ChannelRequestRateLimitCount = 0, ChannelRequestRateLimitSuccessCount = 0, AdvancedCustom = None\<rparr>"

definition GetOtherSettings :: "channel_env \<Rightarrow> Channel \<Rightarrow> store \<Rightarrow> ChannelOtherSettings \<times> Channel \<times> store" where
  "GetOtherSettings ce ch s =
    (if ch_OtherSettings ch = [] then (zero_settings, ch, s)
     else case decode_settings ce (ch_OtherSettings ch) of
       (True, setting) \<Rightarrow> (setting, ch, s)
     | (False, setting) \<Rightarrow>
         let ch' = ch\<lparr>ch_OtherSettings := ''{}''\<rparr> in (setting, ch', snd (Channel_Save ch' s)))"

section \<open>Abilities\<close>

definition ability_of :: "Channel \<Rightarrow> string \<Rightarrow> string \<Rightarrow> Ability" where
  "ability_of ch g m =
    \<lparr>ab_Group = g, ab_Model = m, ab_ChannelId = ch_Id ch, ab_Enabled = (ch_Status ch = ChannelStatusEnabled),
     ab_Priority = GetPriority ch, ab_Weight = GetWeight ch, ab_Tag = ch_Tag ch\<rparr>"

text \<open>The nested loops over models and groups, with the set of keys seen so far.\<close>

fun unique_pairs :: "string list \<Rightarrow> (string \<times> string) list \<Rightarrow> (string \<times> string) list" where
  "unique_pairs seen [] = []"
| "unique_pairs seen ((g, m) # ps) =
    (let key = g @ ''|'' @ m in
     if key \<in> set seen then unique_pairs seen ps else (g, m) # unique_pairs (key # seen) ps)"

definition channel_pairs :: "Channel \<Rightarrow> (string \<times> string) list" where
  "channel_pairs ch =
    concat (map (\<lambda>m. map (\<lambda>g. (g, m)) (Split (ch_Group ch) (CHR '',''))) (Split (ch_Models ch) (CHR '','')))"

definition ability_rows :: "Channel \<Rightarrow> Ability list" where
  "ability_rows ch = map (\<lambda>(g, m). ability_of ch g m) (unique_pairs [] (channel_pairs ch))"

function chunks :: "nat \<Rightarrow> 'a list \<Rightarrow> 'a list list" where
  "chunks n xs = (if xs = [] \<or> n = 0 then [] else take n xs # chunks n (drop n xs))"
  by pat_completeness auto
termination
  by (relation "measure (\<lambda>(n, xs). length xs)") auto

declare chunks.simps [simp del]

text \<open>\<open>INSERT\<close> with \<open>ON CONFLICT DO NOTHING\<close> on the primary key.\<close>

definition ability_key :: "Ability \<Rightarrow> string \<times> string \<times> int" where
  "ability_key a = (ab_Group a, ab_Model a, ab_ChannelId a)"

definition insert_ability :: "Ability \<Rightarrow> Ability list \<Rightarrow> Ability list" where
  "insert_ability a rows = (if ability_key a \<in> ability_key ` set rows then rows else rows @ [a])"

fun create_chunks :: "Ability list list \<Rightarrow> store \<Rightarrow> error option \<times> store" where
  "create_chunks [] s = (None, s)"
| "create_chunks (c # cs) s =
    (case exec_stmt (set_abilities (fold insert_ability c)) s of
       (Some e, s1) \<Rightarrow> (Some e, s1)
     | (None, s1) \<Rightarrow> create_chunks cs s1)"

definition AddAbilities :: "Channel \<Rightarrow> store \<Rightarrow> error option \<times> store" where
  "AddAbilities ch s = create_chunks (chunks 50 (ability_rows ch)) s"

definition DeleteAbilities :: "int \<Rightarrow> store \<Rightarrow> error option \<times> store" where
  "DeleteAbilities i s = exec_stmt (set_abilities (filter (\<lambda>a. ab_ChannelId a \<noteq> i))) s"

text \<open>An error as the result of a transaction's body.\<close>

definition as_result :: "error option \<times> store \<Rightarrow> (error + unit) \<times> store" where
  "as_result r = (case r of (Some e, s) \<Rightarrow> (Inl e, s) | (None, s) \<Rightarrow> (Inr (), s))"

definition as_error :: "(error + unit) \<times> store \<Rightarrow> error option \<times> store" where
  "as_error r = (case r of (Inl e, s) \<Rightarrow> (Some e, s) | (Inr _, s) \<Rightarrow> (None, s))"

definition replace_abilities :: "Channel \<Rightarrow> store \<Rightarrow> error option \<times> store" where
  "replace_abilities ch s =
    (case DeleteAbilities (ch_Id ch) s of
       (Some e, s1) \<Rightarrow> (Some e, s1)
     | (None, s1) \<Rightarrow> create_chunks (chunks 50 (ability_rows ch)) s1)"

text \<open>\<open>UpdateAbilities(nil)\<close> in a transaction of its own, \<open>UpdateAbilities(tx)\<close> in that of the caller.\<close>

definition UpdateAbilities :: "bool \<Rightarrow> Channel \<Rightarrow> store \<Rightarrow> error option \<times> store" where
  "UpdateAbilities in_tx ch s =
    (if in_tx then replace_abilities ch s
     else as_error (transaction (\<lambda>s1. as_result (replace_abilities ch s1)) s))"

definition UpdateAbilityStatus :: "int \<Rightarrow> bool \<Rightarrow> store \<Rightarrow> error option \<times> store" where
  "UpdateAbilityStatus i status s = exec_stmt (set_abilities (upd_row ab_ChannelId i (\<lambda>a. a\<lparr>ab_Enabled := status\<rparr>))) s"

definition UpdateAbilityStatusByTag :: "string \<Rightarrow> bool \<Rightarrow> store \<Rightarrow> error option \<times> store" where
  "UpdateAbilityStatusByTag tag status s =
    exec_stmt (set_abilities (upd_row ab_Tag (Some tag) (\<lambda>a. a\<lparr>ab_Enabled := status\<rparr>))) s"

text \<open>
  An \<open>Updates\<close> with a struct: nil pointers and a zero weight are not written, and without a
  field to write there is no statement.
\<close>

definition UpdateAbilityByTag ::
    "string \<Rightarrow> string option \<Rightarrow> int option \<Rightarrow> nat option \<Rightarrow> store \<Rightarrow> error option \<times> store" where
  "UpdateAbilityByTag tag newTag priority weight s =
    (let w = (case weight of None \<Rightarrow> 0 | Some w \<Rightarrow> w) in
     if newTag = None \<and> priority = None \<and> w = 0 then (None, s)
     else exec_stmt (set_abilities (upd_row ab_Tag (Some tag) (\<lambda>a.
        a\<lparr>ab_Tag := (case newTag of None \<Rightarrow> ab_Tag a | Some t \<Rightarrow> Some t),
          ab_Priority := (case priority of None \<Rightarrow> ab_Priority a | Some p \<Rightarrow> p),
          ab_Weight := (if w = 0 then ab_Weight a else w)\<rparr>))) s)"

section \<open>Operations on channels\<close>

definition with_defaults :: "Channel \<Rightarrow> Channel" where
  "with_defaults ch =
    ch\<lparr>ch_Status := (if ch_Status ch = 0 then 1 else ch_Status ch),
       ch_Weight := Some (GetWeight ch),
       ch_Group := (if ch_Group ch = [] then ''default'' else ch_Group ch),
       ch_Priority := Some (GetPriority ch),
       ch_AutoBan := (case ch_AutoBan ch of None \<Rightarrow> Some 1 | Some b \<Rightarrow> Some b)\<rparr>"

text \<open>\<open>Create\<close>: a zero identifier takes the next one; an identifier in use is a constraint violation.\<close>

fun create_rows :: "Channel list \<Rightarrow> store \<Rightarrow> (error + Channel list) \<times> store" where
  "create_rows [] s = (Inr [], s)"
| "create_rows (ch # chs) s =
    (let (i, s1) = (if ch_Id ch = 0 then fresh_id s else (ch_Id ch, s));
         ch' = (with_defaults ch)\<lparr>ch_Id := i\<rparr>
     in if row ch_Id (channels (db s1)) i \<noteq> None then (Inl ErrDB, s)
        else case create_rows chs (set_channels (\<lambda>rows. rows @ [stored ch']) s1) of
          (Inl e, _) \<Rightarrow> (Inl e, s)
        | (Inr rest, s2) \<Rightarrow> (Inr (ch' # rest), s2))"

definition Create :: "Channel list \<Rightarrow> store \<Rightarrow> (error + Channel list) \<times> store" where
  "Create chs s = (case stmt s of (True, s1) \<Rightarrow> create_rows chs s1 | (False, s1) \<Rightarrow> (Inl ErrDB, s1))"

definition Channel_Insert :: "Channel \<Rightarrow> store \<Rightarrow> error option \<times> store" where
  "Channel_Insert ch s =
    (case Create [ch] s of
       (Inl e, s1) \<Rightarrow> (Some e, s1)
     | (Inr chs, s1) \<Rightarrow> AddAbilities (hd chs) s1)"

fun add_all :: "Channel list \<Rightarrow> store \<Rightarrow> error option \<times> store" where
  "add_all [] s = (None, s)"
| "add_all (ch # chs) s =
    (case AddAbilities ch s of (Some e, s1) \<Rightarrow> (Some e, s1) | (None, s1) \<Rightarrow> add_all chs s1)"

fun insert_chunks :: "Channel list list \<Rightarrow> store \<Rightarrow> error option \<times> store" where
  "insert_chunks [] s = (None, s)"
| "insert_chunks (c # cs) s =
    (case Create c s of
       (Inl e, s1) \<Rightarrow> (Some e, s1)
     | (Inr chs, s1) \<Rightarrow>
        (case add_all chs s1 of (Some e, s2) \<Rightarrow> (Some e, s2) | (None, s2) \<Rightarrow> insert_chunks cs s2))"

definition BatchInsertChannels :: "Channel list \<Rightarrow> store \<Rightarrow> error option \<times> store" where
  "BatchInsertChannels chs s =
    (if chs = [] then (None, s)
     else as_error (transaction (\<lambda>s1. as_result (insert_chunks (chunks 50 chs) s1)) s))"

fun delete_chunks :: "int list list \<Rightarrow> store \<Rightarrow> error option \<times> store" where
  "delete_chunks [] s = (None, s)"
| "delete_chunks (ids # cs) s =
    (case exec_stmt (set_channels (filter (\<lambda>c. ch_Id c \<notin> set ids))) s of
       (Some e, s1) \<Rightarrow> (Some e, s1)
     | (None, s1) \<Rightarrow>
        (case exec_stmt (set_abilities (filter (\<lambda>a. ab_ChannelId a \<notin> set ids))) s1 of
           (Some e, s2) \<Rightarrow> (Some e, s2)
         | (None, s2) \<Rightarrow> delete_chunks cs s2))"

definition BatchDeleteChannels :: "int list \<Rightarrow> store \<Rightarrow> error option \<times> store" where
  "BatchDeleteChannels ids s =
    (if ids = [] then (None, s)
     else as_error (transaction (\<lambda>s1. as_result (delete_chunks (chunks 200 ids) s1)) s))"

definition Channel_Delete :: "Channel \<Rightarrow> store \<Rightarrow> error option \<times> store" where
  "Channel_Delete ch s =
    (if ch_Id ch = 0 then (Some ErrDB, s)
     else case exec_stmt (set_channels (filter (\<lambda>c. ch_Id c \<noteq> ch_Id ch))) s of
       (Some e, s1) \<Rightarrow> (Some e, s1)
     | (None, s1) \<Rightarrow> DeleteAbilities (ch_Id ch) s1)"

definition DeleteChannelByStatus :: "int \<Rightarrow> store \<Rightarrow> error option \<times> store" where
  "DeleteChannelByStatus status s = exec_stmt (set_channels (filter (\<lambda>c. ch_Status c \<noteq> status))) s"

definition DeleteDisabledChannel :: "store \<Rightarrow> error option \<times> store" where
  "DeleteDisabledChannel s =
    exec_stmt (set_channels (filter (\<lambda>c. ch_Status c \<noteq> ChannelStatusAutoDisabled \<and>
      ch_Status c \<noteq> ChannelStatusManuallyDisabled))) s"

subsection \<open>Update\<close>

text \<open>The key list as \<open>Update\<close> parses it: an empty array falls back to the lines, unlike \<open>GetKeys\<close>.\<close>

definition update_keys :: "channel_env \<Rightarrow> string \<Rightarrow> string list" where
  "update_keys ce keyStr =
    (if keyStr = [] then []
     else
       let trimmed = TrimSpace keyStr;
           keys = (if HasPrefix trimmed ''['' then (case parse_key_array ce trimmed of Some arr \<Rightarrow> arr | None \<Rightarrow> []) else [])
       in if keys = [] then split_keys keyStr else keys)"

definition resize_keys :: "channel_env \<Rightarrow> Channel \<Rightarrow> store \<Rightarrow> Channel \<times> store" where
  "resize_keys ce ch s =
    (if \<not> ci_IsMultiKey (ch_ChannelInfo ch) then (ch, s)
     else
       let (keyStr, s1) =
             (if ch_Key ch \<noteq> [] then (ch_Key ch, s)
              else case GetChannelById (ch_Id ch) True s of
                (Inr old, s1) \<Rightarrow> (ch_Key old, s1)
              | (Inl _, s1) \<Rightarrow> ([], s1));
           size = int (length (update_keys ce keyStr));
           ci = ch_ChannelInfo ch
       in (ch\<lparr>ch_ChannelInfo := ci\<lparr>ci_MultiKeySize := size,
              ci_MultiKeyStatusList := (\<lambda>i. if size \<le> i then None else ci_MultiKeyStatusList ci i)\<rparr>\<rparr>, s1))"

definition zero_info :: "ChannelInfo \<Rightarrow> bool" where
  "zero_info ci \<longleftrightarrow> \<not> ci_IsMultiKey ci \<and> ci_MultiKeySize ci = 0 \<and> ci_MultiKeyStatusList ci = Map.empty \<and>
     ci_MultiKeyDisabledReason ci = Map.empty \<and> ci_MultiKeyDisabledTime ci = Map.empty \<and>
     ci_MultiKeyPollingIndex ci = 0 \<and> ci_MultiKeyMode ci = []"

definition pick :: "'a \<Rightarrow> 'a \<Rightarrow> 'a \<Rightarrow> 'a" where
  "pick zero new old = (if new = zero then old else new)"

text \<open>The non-zero fields of \<open>u\<close> written over the row \<open>r\<close>.\<close>

definition merge_channel :: "Channel \<Rightarrow> Channel \<Rightarrow> Channel" where
  "merge_channel u r =
    r\<lparr>ch_Type := pick 0 (ch_Type u) (ch_Type r),
      ch_Key := pick [] (ch_Key u) (ch_Key r),
      ch_Status := pick 0 (ch_Status u) (ch_Status r),
      ch_Name := pick [] (ch_Name u) (ch_Name r),
      ch_Weight := pick None (ch_Weight u) (ch_Weight r),
      ch_CreatedTime := pick 0 (ch_CreatedTime u) (ch_CreatedTime r),
      ch_TestTime := pick 0 (ch_TestTime u) (ch_TestTime r),
      ch_ResponseTime := pick 0 (ch_ResponseTime u) (ch_ResponseTime r),
      ch_Models := pick [] (ch_Models u) (ch_Models r),
      ch_Group := pick [] (ch_Group u) (ch_Group r),
      ch_ModelMapping := pick None (ch_ModelMapping u) (ch_ModelMapping r),
      ch_Priority := pick None (ch_Priority u) (ch_Priority r),
      ch_AutoBan := pick None (ch_AutoBan u) (ch_AutoBan r),
      ch_OtherInfo := (case ch_OtherInfo u of None \<Rightarrow> ch_OtherInfo r | Some info \<Rightarrow> Some info),
      ch_Tag := pick None (ch_Tag u) (ch_Tag r),
      ch_ParamOverride := pick None (ch_ParamOverride u) (ch_ParamOverride r),
      ch_HeaderOverride := pick None (ch_HeaderOverride u) (ch_HeaderOverride r),
      ch_ChannelInfo := (if zero_info (ch_ChannelInfo u) then ch_ChannelInfo r else ch_ChannelInfo u),
      ch_OtherSettings := pick [] (ch_OtherSettings u) (ch_OtherSettings r)\<rparr>"

definition Channel_Update :: "channel_env \<Rightarrow> Channel \<Rightarrow> store \<Rightarrow> error option \<times> store" where
  "Channel_Update ce ch0 s0 =
    (case resize_keys ce ch0 s0 of (ch, s) \<Rightarrow>
      (case exec_stmt (set_channels (upd_row ch_Id (ch_Id ch) (merge_channel ch))) s of
         (Some e, s1) \<Rightarrow> (Some e, s1)
       | (None, s1) \<Rightarrow>
          (case GetChannelById (ch_Id ch) True s1 of
             (Inr loaded, s2) \<Rightarrow> UpdateAbilities False loaded s2
           | (Inl _, s2) \<Rightarrow> UpdateAbilities False ch s2)))"

definition UpdateResponseTime :: "env \<Rightarrow> Channel \<Rightarrow> int \<Rightarrow> store \<Rightarrow> store" where
  "UpdateResponseTime env ch responseTime s =
    snd (exec_stmt (set_channels (upd_row ch_Id (ch_Id ch) (\<lambda>r.
      r\<lparr>ch_TestTime := GetTimestamp env, ch_ResponseTime := responseTime\<rparr>))) s)"

subsection \<open>Status\<close>

definition status_info :: "env \<Rightarrow> string \<Rightarrow> Channel \<Rightarrow> Channel" where
  "status_info env reason ch =
    SetOtherInfo ((GetOtherInfo ch)(''status_reason'' \<mapsto> InfoText reason, ''status_time'' \<mapsto> InfoNumber (GetTimestamp env))) ch"

definition key_enabled :: "(int \<rightharpoonup> int) \<Rightarrow> int \<Rightarrow> bool" where
  "key_enabled statusList i =
    (case statusList i of None \<Rightarrow> True | Some status \<Rightarrow> status = ChannelStatusEnabled)"

definition hasEnabledMultiKey :: "string list \<Rightarrow> (int \<rightharpoonup> int) \<Rightarrow> bool" where
  "hasEnabledMultiKey keys statusList = list_ex (\<lambda>i. key_enabled statusList (int i)) [0..<length keys]"

fun index_of :: "string \<Rightarrow> string list \<Rightarrow> nat option" where
  "index_of k [] = None"
| "index_of k (x # xs) = (if x = k then Some 0 else map_option Suc (index_of k xs))"

definition handlerMultiKeyUpdate :: "env \<Rightarrow> channel_env \<Rightarrow> string \<Rightarrow> int \<Rightarrow> string \<Rightarrow> Channel \<Rightarrow> Channel" where
  "handlerMultiKeyUpdate env ce usingKey status reason ch =
    (let keys = GetKeys ce ch in
     if keys = [] then ch\<lparr>ch_Status := status\<rparr>
     else case index_of usingKey keys of
       None \<Rightarrow>
         if usingKey \<noteq> [] then ch
         else status_info env reason (ch\<lparr>ch_Status := status\<rparr>)
     | Some k \<Rightarrow>
         let i = int k; ci = ch_ChannelInfo ch;
             ci' = (if status = ChannelStatusEnabled then
                      ci\<lparr>ci_MultiKeyStatusList := (ci_MultiKeyStatusList ci)(i := None)\<rparr>
                    else
                      ci\<lparr>ci_MultiKeyStatusList := (ci_MultiKeyStatusList ci)(i \<mapsto> status),
                         ci_MultiKeyDisabledReason := (ci_MultiKeyDisabledReason ci)(i \<mapsto> reason),
                         ci_MultiKeyDisabledTime := (ci_MultiKeyDisabledTime ci)(i \<mapsto> GetTimestamp env)\<rparr>);
             ch' = ch\<lparr>ch_ChannelInfo := ci'\<rparr>
         in if \<not> hasEnabledMultiKey keys (ci_MultiKeyStatusList ci') then
              status_info env ''All keys are disabled'' (ch'\<lparr>ch_Status := ChannelStatusAutoDisabled\<rparr>)
            else if status = ChannelStatusEnabled then ch'\<lparr>ch_Status := ChannelStatusEnabled\<rparr>
            else ch')"

text \<open>
  \<open>UpdateChannelStatus\<close> after its cache part: the row is read, changed and saved; the deferred
  update of the abilities runs at every return, also when the save failed.
\<close>

definition update_status_row ::
    "env \<Rightarrow> channel_env \<Rightarrow> int \<Rightarrow> string \<Rightarrow> int \<Rightarrow> string \<Rightarrow> store \<Rightarrow> bool \<times> store" where
  "update_status_row env ce channelId usingKey status reason s =
    (case GetChannelById channelId True s of
       (Inl _, s1) \<Rightarrow> (False, s1)
     | (Inr ch, s1) \<Rightarrow>
        if ch_Status ch = status then (False, s1)
        else
          let ch' = (if ci_IsMultiKey (ch_ChannelInfo ch) then handlerMultiKeyUpdate env ce usingKey status reason ch
                     else (status_info env reason ch)\<lparr>ch_Status := status\<rparr>);
              shouldUpdateAbilities = (if ci_IsMultiKey (ch_ChannelInfo ch) then ch_Status ch \<noteq> ch_Status ch' else True);
              (err, s2) = SaveWithoutKey ch' s1;
              s3 = (if shouldUpdateAbilities then snd (UpdateAbilityStatus channelId (status = ChannelStatusEnabled) s2) else s2)
          in (err = None, s3))"

subsection \<open>Operations by tag\<close>

definition set_status_by_tag :: "string \<Rightarrow> int \<Rightarrow> store \<Rightarrow> error option \<times> store" where
  "set_status_by_tag tag status s = exec_stmt (set_channels (upd_row ch_Tag (Some tag) (\<lambda>r. r\<lparr>ch_Status := status\<rparr>))) s"

definition EnableChannelByTag :: "string \<Rightarrow> store \<Rightarrow> error option \<times> store" where
  "EnableChannelByTag tag s =
    (case set_status_by_tag tag ChannelStatusEnabled s of
       (Some e, s1) \<Rightarrow> (Some e, s1)
     | (None, s1) \<Rightarrow> UpdateAbilityStatusByTag tag True s1)"

definition DisableChannelByTag :: "string \<Rightarrow> store \<Rightarrow> error option \<times> store" where
  "DisableChannelByTag tag s =
    (case set_status_by_tag tag ChannelStatusManuallyDisabled s of
       (Some e, s1) \<Rightarrow> (Some e, s1)
     | (None, s1) \<Rightarrow> UpdateAbilityStatusByTag tag False s1)"

text \<open>The rows of a tag, highest priority first, without their keys.\<close>

definition GetChannelsByTag :: "string \<Rightarrow> store \<Rightarrow> (error + Channel list) \<times> store" where
  "GetChannelsByTag tag s =
    (case stmt s of
       (True, s1) \<Rightarrow>
         (Inr (map (\<lambda>c. c\<lparr>ch_Key := []\<rparr>) (sort_by (\<lambda>a b. GetPriority a > GetPriority b)
                (filter (\<lambda>c. ch_Tag c = Some tag) (channels (db s1))))), s1)
     | (False, s1) \<Rightarrow> (Inl ErrDB, s1))"

text \<open>The loop of \<open>EditChannelByTag\<close>: an error is logged and the next channel follows.\<close>

fun rebuild_all :: "Channel list \<Rightarrow> store \<Rightarrow> store" where
  "rebuild_all [] s = s"
| "rebuild_all (c # cs) s = rebuild_all cs (snd (UpdateAbilities False c s))"

record tag_edit =
  ed_newTag :: "string option"
  ed_modelMapping :: "string option"
  ed_models :: "string option"
  ed_group :: "string option"
  ed_priority :: "int option"
  ed_weight :: "nat option"
  ed_paramOverride :: "string option"
  ed_headerOverride :: "string option"

definition non_empty :: "string option \<Rightarrow> string option" where
  "non_empty x = (case x of Some t \<Rightarrow> if t = [] then None else Some t | None \<Rightarrow> None)"

definition or_keep :: "'a option \<Rightarrow> 'a option \<Rightarrow> 'a option" where
  "or_keep new old = (case new of None \<Rightarrow> old | Some v \<Rightarrow> Some v)"

definition apply_edit :: "string \<Rightarrow> tag_edit \<Rightarrow> Channel \<Rightarrow> Channel" where
  "apply_edit tag ed r =
    r\<lparr>ch_Tag := (if ed_newTag ed = None \<or> ed_newTag ed = Some tag then ch_Tag r else ed_newTag ed),
      ch_ModelMapping := or_keep (ed_modelMapping ed) (ch_ModelMapping r),
      ch_Models := (case non_empty (ed_models ed) of None \<Rightarrow> ch_Models r | Some m \<Rightarrow> m),
      ch_Group := (case non_empty (ed_group ed) of None \<Rightarrow> ch_Group r | Some g \<Rightarrow> g),
      ch_Priority := or_keep (ed_priority ed) (ch_Priority r),
      ch_Weight := or_keep (ed_weight ed) (ch_Weight r),
      ch_ParamOverride := or_keep (ed_paramOverride ed) (ch_ParamOverride r),
      ch_HeaderOverride := or_keep (ed_headerOverride ed) (ch_HeaderOverride r)\<rparr>"

definition edits_nothing :: "string \<Rightarrow> tag_edit \<Rightarrow> bool" where
  "edits_nothing tag ed \<longleftrightarrow>
    (ed_newTag ed = None \<or> ed_newTag ed = Some tag) \<and> ed_modelMapping ed = None \<and> non_empty (ed_models ed) = None \<and>
    non_empty (ed_group ed) = None \<and> ed_priority ed = None \<and> ed_weight ed = None \<and>
    ed_paramOverride ed = None \<and> ed_headerOverride ed = None"

definition EditChannelByTag :: "string \<Rightarrow> tag_edit \<Rightarrow> store \<Rightarrow> error option \<times> store" where
  "EditChannelByTag tag ed s =
    (let updatedTag = (case ed_newTag ed of None \<Rightarrow> tag | Some t \<Rightarrow> t);
         (err, s1) = (if edits_nothing tag ed then (None, s)
                      else exec_stmt (set_channels (upd_row ch_Tag (Some tag) (apply_edit tag ed))) s)
     in case err of
          Some e \<Rightarrow> (Some e, s1)
        | None \<Rightarrow>
           if non_empty (ed_models ed) \<noteq> None \<or> non_empty (ed_group ed) \<noteq> None then
             (case GetChannelsByTag updatedTag s1 of
                (Inl _, s2) \<Rightarrow> (None, s2)
              | (Inr chs, s2) \<Rightarrow> (None, rebuild_all chs s2))
           else UpdateAbilityByTag tag (ed_newTag ed) (ed_priority ed) (ed_weight ed) s1)"

text \<open>
  \<open>BatchSetChannelTag\<close> writes in a transaction but reads the channels back through \<open>DB\<close>, another
  connection, which sees the committed rows: those from before the transaction.
\<close>

fun update_all :: "Channel list \<Rightarrow> store \<Rightarrow> error option \<times> store" where
  "update_all [] s = (None, s)"
| "update_all (c # cs) s =
    (case UpdateAbilities True c s of (Some e, s1) \<Rightarrow> (Some e, s1) | (None, s1) \<Rightarrow> update_all cs s1)"

definition GetChannelsByIds :: "int list \<Rightarrow> Channel list \<Rightarrow> store \<Rightarrow> (error + Channel list) \<times> store" where
  "GetChannelsByIds ids rows s =
    (case stmt s of
       (True, s1) \<Rightarrow> (Inr (filter (\<lambda>c. ch_Id c \<in> set ids) rows), s1)
     | (False, s1) \<Rightarrow> (Inl ErrDB, s1))"

definition set_tag_body :: "Channel list \<Rightarrow> int list \<Rightarrow> string option \<Rightarrow> store \<Rightarrow> error option \<times> store" where
  "set_tag_body committed ids tag s =
    (case exec_stmt (set_channels (map (\<lambda>c. if ch_Id c \<in> set ids then c\<lparr>ch_Tag := tag\<rparr> else c))) s of
       (Some e, s1) \<Rightarrow> (Some e, s1)
     | (None, s1) \<Rightarrow>
        (case GetChannelsByIds ids committed s1 of
           (Inl e, s2) \<Rightarrow> (Some e, s2)
         | (Inr chs, s2) \<Rightarrow> update_all chs s2))"

definition BatchSetChannelTag :: "int list \<Rightarrow> string option \<Rightarrow> store \<Rightarrow> error option \<times> store" where
  "BatchSetChannelTag ids tag s =
    as_error (transaction (\<lambda>s1. as_result (set_tag_body (channels (db s)) ids tag s1)) s)"

subsection \<open>Rebuilding the abilities\<close>

fun fix_channels :: "Channel list \<Rightarrow> store \<Rightarrow> nat \<times> nat \<times> store" where
  "fix_channels [] s = (0, 0, s)"
| "fix_channels (c # cs) s =
    (case AddAbilities c s of
       (Some _, s1) \<Rightarrow> (case fix_channels cs s1 of (ok, bad, s2) \<Rightarrow> (ok, bad + 1, s2))
     | (None, s1) \<Rightarrow> (case fix_channels cs s1 of (ok, bad, s2) \<Rightarrow> (ok + 1, bad, s2)))"

fun fix_chunks :: "Channel list list \<Rightarrow> store \<Rightarrow> nat \<times> nat \<times> store" where
  "fix_chunks [] s = (0, 0, s)"
| "fix_chunks (c # cs) s =
    (case exec_stmt (set_abilities (filter (\<lambda>a. ab_ChannelId a \<notin> ch_Id ` set c))) s of
       (Some _, s1) \<Rightarrow> (case fix_chunks cs s1 of (ok, bad, s2) \<Rightarrow> (ok, bad + length c, s2))
     | (None, s1) \<Rightarrow>
        (case fix_channels c s1 of (ok, bad, s2) \<Rightarrow>
          (case fix_chunks cs s2 of (ok', bad', s3) \<Rightarrow> (ok + ok', bad + bad', s3))))"

text \<open>\<open>FixAbility\<close> before it refreshes the cache; \<open>locked\<close> is the failure of \<open>TryLock\<close>.\<close>

definition fix_rows :: "bool \<Rightarrow> store \<Rightarrow> (error + nat \<times> nat) \<times> store" where
  "fix_rows locked s =
    (if locked then (Inl ErrFixRunning, s)
     else case exec_stmt (set_abilities (\<lambda>_. [])) s of
       (Some e, s1) \<Rightarrow> (Inl e, s1)
     | (None, s1) \<Rightarrow>
        (case stmt s1 of
           (False, s2) \<Rightarrow> (Inl ErrDB, s2)
         | (True, s2) \<Rightarrow>
            if channels (db s2) = [] then (Inr (0, 0), s2)
            else case fix_chunks (chunks 50 (channels (db s2))) s2 of (ok, bad, s3) \<Rightarrow> (Inr (ok, bad), s3)))"

section \<open>Statements that succeed\<close>

named_theorems quiet "operations on a store without pending faults"

lemma exec_stmt_quiet [quiet]: "faults s = [] \<Longrightarrow> exec_stmt f s = (None, f s)"
  by (simp add: exec_stmt_def)

lemma set_channels_sel [simp]:
  "faults (set_channels f s) = faults s" "channels (db (set_channels f s)) = f (channels (db s))"
  "abilities (db (set_channels f s)) = abilities (db s)" "next_id (db (set_channels f s)) = next_id (db s)"
  by (simp_all add: set_channels_def)

lemma set_abilities_sel [simp]:
  "faults (set_abilities f s) = faults s" "channels (db (set_abilities f s)) = channels (db s)"
  "abilities (db (set_abilities f s)) = f (abilities (db s))" "next_id (db (set_abilities f s)) = next_id (db s)"
  by (simp_all add: set_abilities_def)

lemma transaction_quiet [quiet]:
  assumes "faults s = []" "fst (body s) = None" "faults (snd (body s)) = []"
  shows "as_error (transaction (\<lambda>s1. as_result (body s1)) s) = (None, snd (body s))"
  using assms by (cases "body s") (simp add: transaction_eq tx_end_eq as_result_def as_error_def)

section \<open>Abilities of one channel\<close>

definition own :: "int \<Rightarrow> Ability list \<Rightarrow> Ability list" where
  "own i rows = filter (\<lambda>a. ab_ChannelId a = i) rows"

lemma own_append [simp]: "own i (xs @ ys) = own i xs @ own i ys"
  by (simp add: own_def)

lemma own_other [simp]: "own i (filter (\<lambda>a. ab_ChannelId a \<noteq> j) rows) = (if i = j then [] else own i rows)"
  by (auto simp: own_def filter_filter intro!: filter_cong)

lemma own_without: "i \<notin> J \<Longrightarrow> own i (filter (\<lambda>a. ab_ChannelId a \<notin> J) rows) = own i rows"
  "i \<in> J \<Longrightarrow> own i (filter (\<lambda>a. ab_ChannelId a \<notin> J) rows) = []"
  by (auto simp: own_def filter_filter filter_empty_conv intro!: filter_cong)

lemma unique_pairs_keys:
  "distinct (map (\<lambda>(g, m). g @ ''|'' @ m) (unique_pairs seen ps)) \<and>
   (\<lambda>(g, m). g @ ''|'' @ m) ` set (unique_pairs seen ps) \<inter> set seen = {}"
  by (induction seen ps rule: unique_pairs.induct) (auto simp: Let_def)

lemma ability_rows_sel: "a \<in> set (ability_rows ch) \<Longrightarrow>
   ab_ChannelId a = ch_Id ch \<and> ab_Enabled a = (ch_Status ch = ChannelStatusEnabled) \<and> ab_Priority a = GetPriority ch \<and>
   ab_Weight a = GetWeight ch \<and> ab_Tag a = ch_Tag ch"
  by (auto simp: ability_rows_def ability_of_def)

lemma ability_rows_distinct: "distinct (map ability_key (ability_rows ch))"
proof -
  have "distinct (unique_pairs [] (channel_pairs ch))"
    using unique_pairs_keys [of "[]" "channel_pairs ch"] by (simp add: distinct_map)
  moreover have "inj_on (ability_key \<circ> (\<lambda>(g, m). ability_of ch g m)) A" for A
    by (auto simp: inj_on_def ability_key_def ability_of_def)
  ultimately show ?thesis by (simp add: ability_rows_def distinct_map comp_def)
qed

lemma own_rows [simp]: "own i (ability_rows ch) = (if i = ch_Id ch then ability_rows ch else [])"
  by (auto simp: own_def filter_id_conv filter_empty_conv dest: ability_rows_sel)

text \<open>A channel that serves the same models to the same groups has the same rows up to the copied fields.\<close>

lemma ability_rows_copy:
  assumes "ch_Models c' = ch_Models c" "ch_Group c' = ch_Group c" "ch_Id c' = ch_Id c"
  shows "ability_rows c' = map (\<lambda>a. a\<lparr>ab_Enabled := (ch_Status c' = ChannelStatusEnabled), ab_Priority := GetPriority c',
     ab_Weight := GetWeight c', ab_Tag := ch_Tag c'\<rparr>) (ability_rows c)"
  using assms by (auto simp: ability_rows_def channel_pairs_def ability_of_def)

lemma ability_rows_same:
  assumes "ch_Models c' = ch_Models c" "ch_Group c' = ch_Group c" "ch_Id c' = ch_Id c"
    "ch_Status c' = ch_Status c" "ch_Priority c' = ch_Priority c" "ch_Weight c' = ch_Weight c" "ch_Tag c' = ch_Tag c"
  shows "ability_rows c' = ability_rows c"
  using assms by (auto simp: ability_rows_def channel_pairs_def ability_of_def GetPriority_def GetWeight_def)

lemma concat_chunks: "0 < n \<Longrightarrow> concat (chunks n xs) = xs"
  by (induction n xs rule: chunks.induct) (subst chunks.simps, simp)

lemma insert_fresh_rows:
  assumes "distinct (map ability_key new)" "ability_key ` set new \<inter> ability_key ` set rows = {}"
  shows "fold insert_ability new rows = rows @ new"
  using assms by (induction new arbitrary: rows) (auto simp: insert_ability_def)

lemma create_chunks_quiet:
  "faults s = [] \<Longrightarrow> create_chunks cs s = (None, set_abilities (fold insert_ability (concat cs)) s)"
  by (induction cs arbitrary: s) (simp_all add: quiet set_abilities_def)

lemma AddAbilities_quiet [quiet]:
  assumes "faults s = []" "own (ch_Id ch) (abilities (db s)) = []"
  shows "AddAbilities ch s = (None, set_abilities (\<lambda>rows. rows @ ability_rows ch) s)"
proof -
  have "fold insert_ability (ability_rows ch) (abilities (db s)) = abilities (db s) @ ability_rows ch"
    using ability_rows_distinct assms(2)
    by (intro insert_fresh_rows) (fastforce simp: own_def filter_empty_conv ability_key_def dest: ability_rows_sel)+
  then show ?thesis using assms(1) by (simp add: AddAbilities_def create_chunks_quiet concat_chunks set_abilities_def)
qed

lemma replace_abilities_quiet:
  assumes "faults s = []"
  shows "replace_abilities ch s =
    (None, set_abilities (\<lambda>rows. filter (\<lambda>a. ab_ChannelId a \<noteq> ch_Id ch) rows @ ability_rows ch) s)"
proof -
  let ?s = "set_abilities (filter (\<lambda>a. ab_ChannelId a \<noteq> ch_Id ch)) s"
  have "AddAbilities ch ?s = (None, set_abilities (\<lambda>rows. rows @ ability_rows ch) ?s)"
    using assms by (intro AddAbilities_quiet) simp_all
  then show ?thesis
    using assms by (simp add: replace_abilities_def DeleteAbilities_def quiet AddAbilities_def set_abilities_def)
qed

lemma UpdateAbilities_quiet [quiet]:
  "faults s = [] \<Longrightarrow> UpdateAbilities tx ch s =
    (None, set_abilities (\<lambda>rows. filter (\<lambda>a. ab_ChannelId a \<noteq> ch_Id ch) rows @ ability_rows ch) s)"
  by (simp add: UpdateAbilities_def quiet replace_abilities_quiet)

lemma GetChannelById_quiet [quiet]:
  "faults s = [] \<Longrightarrow> GetChannelById i True s =
    (case row ch_Id (channels (db s)) i of None \<Rightarrow> (Inl ErrRecordNotFound, s) | Some ch \<Rightarrow> (Inr ch, s))"
  by (simp add: GetChannelById_def split: option.splits)

section \<open>Abilities follow their channels\<close>

text \<open>
  Every channel but those of \<open>todo\<close>, whose abilities are still to be written, has exactly the ability rows
  its fields ask for; identifiers are distinct and already handed out.
\<close>

definition abilities_ok :: "int set \<Rightarrow> store \<Rightarrow> bool" where
  "abilities_ok todo s \<longleftrightarrow>
     distinct (map ch_Id (channels (db s))) \<and>
     (\<forall>c \<in> set (channels (db s)). 0 < ch_Id c \<and> ch_Id c < next_id (db s) \<and>
        own (ch_Id c) (abilities (db s)) = (if ch_Id c \<in> todo then [] else ability_rows c)) \<and>
     (\<forall>a \<in> set (abilities (db s)). ab_ChannelId a < next_id (db s)) \<and> 0 < next_id (db s)"

lemma abilities_okD:
  assumes "abilities_ok todo s"
  shows "distinct (map ch_Id (channels (db s)))" "0 < next_id (db s)"
    "c \<in> set (channels (db s)) \<Longrightarrow> 0 < ch_Id c \<and> ch_Id c < next_id (db s)"
    "c \<in> set (channels (db s)) \<Longrightarrow> own (ch_Id c) (abilities (db s)) = (if ch_Id c \<in> todo then [] else ability_rows c)"
    "a \<in> set (abilities (db s)) \<Longrightarrow> ab_ChannelId a < next_id (db s)"
  using assms by (simp_all add: abilities_ok_def)


lemma own_map: "(\<And>a. ab_ChannelId (f a) = ab_ChannelId a) \<Longrightarrow> own i (map f rows) = map f (own i rows)"
  by (induction rows) (simp_all add: own_def)

text \<open>
  Two ways in which an operation keeps the tables in step: it rebuilds the abilities of some
  channels, or it changes channels and abilities in the same way.
\<close>

lemma rebuild_ok:
  assumes ok: "abilities_ok todo s"
    and rows: "distinct (map ch_Id (channels (db s')))" "next_id (db s') = next_id (db s)"
    and ids: "ch_Id ` set (channels (db s')) \<subseteq> ch_Id ` set (channels (db s))"
    and own: "\<And>c. c \<in> set (channels (db s')) \<Longrightarrow> own (ch_Id c) (abilities (db s')) = (if ch_Id c \<in> todo' then [] else ability_rows c)"
    and abs: "\<And>a. a \<in> set (abilities (db s')) \<Longrightarrow> ab_ChannelId a \<in> ch_Id ` set (channels (db s)) \<union> ab_ChannelId ` set (abilities (db s))"
  shows "abilities_ok todo' s'"
  unfolding abilities_ok_def
proof (intro conjI ballI)
  fix c assume c: "c \<in> set (channels (db s'))"
  then obtain d where "d \<in> set (channels (db s))" "ch_Id c = ch_Id d" using ids by fastforce
  then show "0 < ch_Id c" "ch_Id c < next_id (db s')" using abilities_okD(3) [OF ok] rows by auto
  show "own (ch_Id c) (abilities (db s')) = (if ch_Id c \<in> todo' then [] else ability_rows c)" using own c by simp
next
  fix a assume "a \<in> set (abilities (db s'))"
  then show "ab_ChannelId a < next_id (db s')"
    using abs abilities_okD(3,5) [OF ok] rows by fastforce
qed (use rows abilities_okD [OF ok] in simp_all)

lemma map_ok:
  assumes ok: "abilities_ok {} s"
    and chs: "channels (db s') = map f (channels (db s))" and abs: "abilities (db s') = map g (abilities (db s))"
    and nid: "next_id (db s') = next_id (db s)"
    and f: "\<And>c. ch_Id (f c) = ch_Id c" and g: "\<And>a. ab_ChannelId (g a) = ab_ChannelId a"
    and fg: "\<And>c. c \<in> set (channels (db s)) \<Longrightarrow> ability_rows (f c) = map g (ability_rows c)"
  shows "abilities_ok {} s'"
proof (rule rebuild_ok [OF ok])
  show "distinct (map ch_Id (channels (db s')))" using abilities_okD(1) [OF ok] by (simp add: chs f comp_def)
  show "own (ch_Id c) (abilities (db s')) = (if ch_Id c \<in> {} then [] else ability_rows c)"
    if "c \<in> set (channels (db s'))" for c
    using that abilities_okD(4) [OF ok] by (auto simp: chs abs f own_map [OF g] fg)
qed (auto simp: nid chs abs f g)

text \<open>Creating channels leaves their abilities to be written; adding the abilities settles them.\<close>

lemma append_ok:
  assumes "abilities_ok P s" "c' = (with_defaults ch)\<lparr>ch_Id := next_id (db s)\<rparr>"
  shows "abilities_ok (insert (ch_Id c') P) (set_channels (\<lambda>rows. rows @ [stored c']) (snd (fresh_id s)))"
proof -
  have fresh: "own (next_id (db s)) (abilities (db s)) = []" "next_id (db s) \<notin> ch_Id ` set (channels (db s))"
    using abilities_okD(3,5) [OF assms(1)] by (fastforce simp: own_def filter_empty_conv)+
  show ?thesis
    unfolding abilities_ok_def
  proof (intro conjI ballI)
    fix c assume "c \<in> set (channels (db (set_channels (\<lambda>rows. rows @ [stored c']) (snd (fresh_id s)))))"
    then have "c = stored c' \<or> c \<in> set (channels (db s)) \<and> ch_Id c \<noteq> next_id (db s)"
      using fresh(2) by (force simp: fresh_id_def)
    then show "0 < ch_Id c" "ch_Id c < next_id (db (set_channels (\<lambda>rows. rows @ [stored c']) (snd (fresh_id s))))"
      "own (ch_Id c) (abilities (db (set_channels (\<lambda>rows. rows @ [stored c']) (snd (fresh_id s))))) =
        (if ch_Id c \<in> insert (ch_Id c') P then [] else ability_rows c)"
      using abilities_okD(2) [OF assms(1)] abilities_okD(3,4) [OF assms(1), of c] fresh(1) assms(2)
      by (auto simp: fresh_id_def stored_def)
  qed (use abilities_okD(1,2,5) [OF assms(1)] fresh(2) assms(2) in \<open>auto simp: fresh_id_def stored_def intro: less_imp_le\<close>)
qed

lemma create_rows_ok:
  assumes "abilities_ok P s" "faults s = []" "\<forall>c \<in> set chs. ch_Id c = 0"
  obtains chs' s' where "create_rows chs s = (Inr chs', s')" "faults s' = []" "abilities_ok (P \<union> ch_Id ` set chs') s'"
    "stored ` set chs' \<subseteq> set (channels (db s'))" "set (channels (db s)) \<subseteq> set (channels (db s'))"
    "distinct (map ch_Id chs')" "\<forall>c \<in> set chs'. next_id (db s) \<le> ch_Id c"
  using assms
proof (induction chs arbitrary: s P thesis)
  case Nil
  then show ?case by auto
next
  case (Cons ch chs)
  let ?n = "next_id (db s)"
  let ?c = "(with_defaults ch)\<lparr>ch_Id := ?n\<rparr>"
  let ?s = "set_channels (\<lambda>rows. rows @ [stored ?c]) (snd (fresh_id s))"
  have none: "row ch_Id (channels (db s)) ?n = None"
    using abilities_okD(3) [OF Cons.prems(2)] by (fastforce simp: row_None_iff)
  have ok: "abilities_ok (insert (ch_Id ?c) P) ?s" by (rule append_ok [OF Cons.prems(2) refl])
  have sel: "faults ?s = []" "next_id (db ?s) = ?n + 1" "channels (db ?s) = channels (db s) @ [stored ?c]"
    using Cons.prems(3) by (simp_all add: fresh_id_def)
  obtain chs' s' where r: "create_rows chs ?s = (Inr chs', s')" "faults s' = []"
      "abilities_ok (insert (ch_Id ?c) P \<union> ch_Id ` set chs') s'" "stored ` set chs' \<subseteq> set (channels (db s'))"
      "set (channels (db ?s)) \<subseteq> set (channels (db s'))" "distinct (map ch_Id chs')" "\<forall>c \<in> set chs'. next_id (db ?s) \<le> ch_Id c"
    by (rule Cons.IH [OF _ ok sel(1)]) (use Cons.prems(4) in simp_all)
  have "create_rows (ch # chs) s = (Inr (?c # chs'), s')"
    using Cons.prems(4) none r(1) by (simp add: fresh_id_def Let_def)
  then show ?case
    by (rule Cons.prems(1)) (use r sel in \<open>auto simp: insert_commute\<close>)
qed

lemma stored_rows [simp]: "ability_rows (stored c) = ability_rows c" "ch_Id (stored c) = ch_Id c"
  by (auto simp: stored_def intro: ability_rows_same)

lemma AddAbilities_ok:
  assumes "abilities_ok P s" "faults s = []" "e \<in> set (channels (db s))" "ch_Id c \<in> P"
    and id: "ch_Id e = ch_Id c" and rows: "ability_rows e = ability_rows c"
  obtains s' where "AddAbilities c s = (None, s')" "faults s' = []" "channels (db s') = channels (db s)"
    "abilities_ok (P - {ch_Id c}) s'"
proof -
  let ?s = "set_abilities (\<lambda>rows. rows @ ability_rows c) s"
  have "own (ch_Id c) (abilities (db s)) = []"
    using abilities_okD(4) [OF assms(1,3)] assms(4) id by simp
  then have add: "AddAbilities c s = (None, ?s)" using assms(2) by (rule AddAbilities_quiet [rotated])
  have "abilities_ok (P - {ch_Id c}) ?s"
  proof (rule rebuild_ok [OF assms(1)])
    fix d assume "d \<in> set (channels (db ?s))"
    then have d: "d \<in> set (channels (db s))" by simp
    show "own (ch_Id d) (abilities (db ?s)) = (if ch_Id d \<in> P - {ch_Id c} then [] else ability_rows d)"
    proof (cases "ch_Id d = ch_Id c")
      case True
      then have "d = e"
        using row_unique [OF abilities_okD(1) [OF assms(1)] d] row_unique [OF abilities_okD(1) [OF assms(1)] assms(3)] id by simp
      then show ?thesis using abilities_okD(4) [OF assms(1) d] assms(4) True rows by simp
    next
      case False
      then show ?thesis using abilities_okD(4) [OF assms(1) d] by simp
    qed
  next
    fix a assume "a \<in> set (abilities (db ?s))"
    then have "a \<in> set (abilities (db s)) \<or> ab_ChannelId a = ch_Id (e)" using id by (auto dest: ability_rows_sel)
    then show "ab_ChannelId a \<in> ch_Id ` set (channels (db s)) \<union> ab_ChannelId ` set (abilities (db s))"
      using assms(3) by blast
  qed (use abilities_okD(1) [OF assms(1)] in simp_all)
  then show thesis using add assms(2) by (intro that [of ?s]) simp_all
qed

lemma add_all_ok:
  assumes "abilities_ok P s" "faults s = []" "stored ` set chs \<subseteq> set (channels (db s))" "ch_Id ` set chs \<subseteq> P"
    "distinct (map ch_Id chs)"
  obtains s' where "add_all chs s = (None, s')" "faults s' = []" "abilities_ok (P - ch_Id ` set chs) s'"
  using assms
proof (induction chs arbitrary: s P thesis)
  case (Cons c chs)
  obtain s1 where s1: "AddAbilities c s = (None, s1)" "faults s1 = []" "channels (db s1) = channels (db s)"
      "abilities_ok (P - {ch_Id c}) s1"
    by (rule AddAbilities_ok [OF Cons.prems(2,3), of "stored c" c]) (use Cons.prems(4-5) in simp_all)
  have sub: "stored ` set chs \<subseteq> set (channels (db s1))" "ch_Id ` set chs \<subseteq> P - {ch_Id c}" "distinct (map ch_Id chs)"
    using Cons.prems(4-6) s1(3) by (simp_all add: subset_iff image_iff, blast)
  obtain s' where s': "add_all chs s1 = (None, s')" "faults s' = []" "abilities_ok (P - {ch_Id c} - ch_Id ` set chs) s'"
    by (rule Cons.IH [OF _ s1(4,2) sub])
  have "P - {ch_Id c} - ch_Id ` set chs = P - ch_Id ` set (c # chs)" by auto
  then have "abilities_ok (P - ch_Id ` set (c # chs)) s'" using s'(3) by simp
  moreover have "add_all (c # chs) s = (None, s')" using s1(1) s'(1) by simp
  ultimately show ?case using s'(2) Cons.prems(1) [of s'] by blast
next
  case Nil
  show ?case by (rule Nil.prems(1) [of s]) (use Nil.prems(2,3) in simp_all)
qed

lemma Insert_ok:
  assumes "abilities_ok {} s" "faults s = []" "ch_Id ch = 0"
  shows "abilities_ok {} (snd (Channel_Insert ch s))"
proof -
  have zero: "\<forall>c \<in> set [ch]. ch_Id c = 0" using assms(3) by simp
  obtain chs' s' where r: "create_rows [ch] s = (Inr chs', s')" "faults s' = []" "abilities_ok ({} \<union> ch_Id ` set chs') s'"
      "stored ` set chs' \<subseteq> set (channels (db s'))" "set (channels (db s)) \<subseteq> set (channels (db s'))"
      "distinct (map ch_Id chs')" "\<forall>c \<in> set chs'. next_id (db s) \<le> ch_Id c"
    by (rule create_rows_ok [OF assms(1,2) zero])
  obtain c where c: "chs' = [c]" using r(1) by (auto simp: Let_def split: if_splits prod.splits)
  have one: "abilities_ok {ch_Id c} s'" "stored c \<in> set (channels (db s'))" using r c by auto
  obtain s'' where "AddAbilities c s' = (None, s'')" "faults s'' = []" "channels (db s'') = channels (db s')"
      "abilities_ok ({ch_Id c} - {ch_Id c}) s''"
    by (rule AddAbilities_ok [OF one(1) r(2) one(2) singletonI stored_rows(2,1)])
  then show ?thesis using r(1) c assms(2) by (simp add: Channel_Insert_def Create_def)
qed

lemma insert_chunks_ok:
  assumes "abilities_ok {} s" "faults s = []" "\<forall>c \<in> set (concat cs). ch_Id c = 0"
  obtains s' where "insert_chunks cs s = (None, s')" "faults s' = []" "abilities_ok {} s'"
  using assms
proof (induction cs arbitrary: s thesis)
  case (Cons chs cs)
  have zero: "\<forall>c \<in> set chs. ch_Id c = 0" "\<forall>c \<in> set (concat cs). ch_Id c = 0" using Cons.prems(4) by auto
  obtain chs' s1 where r: "create_rows chs s = (Inr chs', s1)" "faults s1 = []" "abilities_ok ({} \<union> ch_Id ` set chs') s1"
      "stored ` set chs' \<subseteq> set (channels (db s1))" "set (channels (db s)) \<subseteq> set (channels (db s1))"
      "distinct (map ch_Id chs')" "\<forall>c \<in> set chs'. next_id (db s) \<le> ch_Id c"
    by (rule create_rows_ok [OF Cons.prems(2,3) zero(1)])
  obtain s2 where s2: "add_all chs' s1 = (None, s2)" "faults s2 = []" "abilities_ok ({} \<union> ch_Id ` set chs' - ch_Id ` set chs') s2"
    by (rule add_all_ok [OF r(3,2,4) _ r(6)]) simp_all
  have ok: "abilities_ok {} s2" using s2(3) by simp
  obtain s' where s': "insert_chunks cs s2 = (None, s')" "faults s' = []" "abilities_ok {} s'"
    by (rule Cons.IH [OF _ ok s2(2) zero(2)])
  have "insert_chunks (chs # cs) s = (None, s')" using Cons.prems(3) r(1) s2(1) s'(1) by (simp add: Create_def)
  then show ?case using s'(2,3) by (rule Cons.prems(1))
next
  case Nil
  show ?case by (rule Nil.prems(1) [of s]) (use Nil.prems(2,3) in simp_all)
qed

lemma BatchInsert_ok:
  assumes "abilities_ok {} s" "faults s = []" "\<forall>c \<in> set chs. ch_Id c = 0"
  shows "abilities_ok {} (snd (BatchInsertChannels chs s))"
proof -
  obtain s' where "insert_chunks (chunks 50 chs) s = (None, s')" "faults s' = []" "abilities_ok {} s'"
    by (rule insert_chunks_ok [OF assms(1,2), of "chunks 50 chs"]) (simp_all add: concat_chunks assms(3))
  then show ?thesis using assms(1,2) by (simp add: BatchInsertChannels_def transaction_quiet)
qed

lemma filter_channels_ok:
  assumes ok: "abilities_ok {} s" and chs: "channels (db s') = filter keep (channels (db s))"
    and nid: "next_id (db s') = next_id (db s)" and sub: "set (abilities (db s')) \<subseteq> set (abilities (db s))"
    and own: "\<And>c. c \<in> set (channels (db s)) \<Longrightarrow> keep c \<Longrightarrow> own (ch_Id c) (abilities (db s')) = own (ch_Id c) (abilities (db s))"
  shows "abilities_ok {} s'"
proof (rule rebuild_ok [OF ok])
  show "distinct (map ch_Id (channels (db s')))" using abilities_okD(1) [OF ok] by (simp add: chs distinct_map_filter)
  show "own (ch_Id c) (abilities (db s')) = (if ch_Id c \<in> {} then [] else ability_rows c)"
    if "c \<in> set (channels (db s'))" for c
    using that own abilities_okD(4) [OF ok] by (simp add: chs)
qed (use nid chs sub in auto)

lemma Delete_ok:
  assumes "abilities_ok {} s" "faults s = []"
  shows "abilities_ok {} (snd (Channel_Delete ch s))"
proof (cases "ch_Id ch = 0")
  case False
  then show ?thesis using assms
    by (intro filter_channels_ok [OF assms(1), where keep = "\<lambda>c. ch_Id c \<noteq> ch_Id ch"])
       (auto simp: Channel_Delete_def DeleteAbilities_def quiet)
qed (use assms in \<open>simp add: Channel_Delete_def\<close>)

lemma delete_chunks_ok:
  assumes "abilities_ok {} s" "faults s = []"
  shows "fst (delete_chunks cs s) = None \<and> faults (snd (delete_chunks cs s)) = [] \<and> abilities_ok {} (snd (delete_chunks cs s))"
  using assms
proof (induction cs arbitrary: s)
  case (Cons ids cs)
  let ?s = "set_abilities (filter (\<lambda>a. ab_ChannelId a \<notin> set ids)) (set_channels (filter (\<lambda>c. ch_Id c \<notin> set ids)) s)"
  have "abilities_ok {} ?s"
    by (rule filter_channels_ok [OF Cons.prems(1), where keep = "\<lambda>c. ch_Id c \<notin> set ids"]) (auto simp: own_without(1))
  then show ?case using Cons.IH [of ?s] Cons.prems(2) by (simp add: quiet)
qed simp

lemma BatchDelete_ok:
  assumes "abilities_ok {} s" "faults s = []"
  shows "abilities_ok {} (snd (BatchDeleteChannels ids s))"
  using delete_chunks_ok [OF assms, of "chunks 200 ids"] assms by (simp add: BatchDeleteChannels_def transaction_quiet)

lemma DeleteByStatus_ok:
  assumes "abilities_ok {} s" "faults s = []"
  shows "abilities_ok {} (snd (DeleteChannelByStatus status s))" "abilities_ok {} (snd (DeleteDisabledChannel s))"
  unfolding DeleteChannelByStatus_def DeleteDisabledChannel_def exec_stmt_quiet [OF assms(2)]
  by (rule filter_channels_ok [OF assms(1)]; simp)+

text \<open>A row written in place, with or without a rebuild of its abilities.\<close>

lemma row_channel:
  assumes "abilities_ok P s" "row ch_Id (channels (db s)) i = Some c"
  shows "c \<in> set (channels (db s))" "ch_Id c = i" "\<And>d. d \<in> set (channels (db s)) \<Longrightarrow> ch_Id d = i \<Longrightarrow> d = c"
proof -
  show c: "c \<in> set (channels (db s))" "ch_Id c = i" using assms(2) by (auto dest: row_mem row_key)
  show "d = c" if "d \<in> set (channels (db s))" "ch_Id d = i" for d
    using row_unique [OF abilities_okD(1) [OF assms(1)] that(1)] assms(2) that(2) by simp
qed

lemma rebuild_row_ok:
  assumes ok: "abilities_ok {} s" and c: "row ch_Id (channels (db s)) i = Some c"
    and f: "ch_Id (f c) = i" and c': "ability_rows c' = ability_rows (f c)" "ch_Id c' = i"
  shows "abilities_ok {} (set_abilities (\<lambda>rows. filter (\<lambda>a. ab_ChannelId a \<noteq> ch_Id c') rows @ ability_rows c')
    (set_channels (upd_row ch_Id i f) s))" (is "abilities_ok {} ?s")
proof (rule rebuild_ok [OF ok])
  have id: "ch_Id (if ch_Id r = i then f r else r) = ch_Id r" if "r \<in> set (channels (db s))" for r
    using row_channel(3) [OF ok c that] f by auto
  then have ids: "map ch_Id (upd_row ch_Id i f (channels (db s))) = map ch_Id (channels (db s))"
    by (simp add: upd_row_def)
  then show "distinct (map ch_Id (channels (db ?s)))" using abilities_okD(1) [OF ok] by simp
  show "ch_Id ` set (channels (db ?s)) \<subseteq> ch_Id ` set (channels (db s))"
    using arg_cong [OF ids, of set] by simp
  show "own (ch_Id d) (abilities (db ?s)) = (if ch_Id d \<in> {} then [] else ability_rows d)"
    if d: "d \<in> set (channels (db ?s))" for d
  proof -
    obtain r where r: "r \<in> set (channels (db s))" "d = (if ch_Id r = i then f r else r)"
      using d by (auto simp: upd_row_def)
    show ?thesis
    proof (cases "ch_Id r = i")
      case True
      then show ?thesis using row_channel(3) [OF ok c r(1)] r(2) f c' by simp
    next
      case False
      then show ?thesis using abilities_okD(4) [OF ok r(1)] r(2) c'(2) by simp
    qed
  qed
  show "ab_ChannelId a \<in> ch_Id ` set (channels (db s)) \<union> ab_ChannelId ` set (abilities (db s))"
    if "a \<in> set (abilities (db ?s))" for a
    using that row_channel(1,2) [OF ok c] c'(2) by (auto dest: ability_rows_sel)
qed simp

lemma resize_keys_sel:
  assumes "faults s = []"
  shows "snd (resize_keys ce ch s) = s" "ch_Id (fst (resize_keys ce ch s)) = ch_Id ch"
  using assms by (auto simp: resize_keys_def quiet Let_def split: option.splits if_splits)

lemma Update_ok:
  assumes "abilities_ok {} s" "faults s = []" "ch_Id ch \<in> ch_Id ` set (channels (db s))"
  shows "abilities_ok {} (snd (Channel_Update ce ch s))"
proof -
  obtain ch1 where r: "resize_keys ce ch s = (ch1, s)" "ch_Id ch1 = ch_Id ch"
    using resize_keys_sel [OF assms(2), of ce ch] by (cases "resize_keys ce ch s") auto
  obtain c where c: "row ch_Id (channels (db s)) (ch_Id ch) = Some c"
    using assms(3) row_None_iff [of ch_Id "channels (db s)" "ch_Id ch"] by auto
  let ?f = "merge_channel ch1"
  have f: "ch_Id (?f r) = ch_Id r" for r by (simp add: merge_channel_def)
  have "row ch_Id (upd_row ch_Id (ch_Id ch) ?f (channels (db s))) (ch_Id ch) = Some (?f c)"
    using c by (simp add: row_upd_row f)
  then have "snd (Channel_Update ce ch s) =
      set_abilities (\<lambda>rows. filter (\<lambda>a. ab_ChannelId a \<noteq> ch_Id (?f c)) rows @ ability_rows (?f c))
        (set_channels (upd_row ch_Id (ch_Id ch) ?f) s)"
    using assms(2) r by (simp add: Channel_Update_def quiet)
  then show ?thesis
    using rebuild_row_ok [OF assms(1) c, of ?f "?f c"] f row_channel(2) [OF assms(1) c] by simp
qed

lemma same_rows_ok:
  assumes "abilities_ok {} s" "channels (db s') = map f (channels (db s))" "abilities (db s') = abilities (db s)"
    "next_id (db s') = next_id (db s)" "\<And>c. ch_Id (f c) = ch_Id c" "\<And>c. ability_rows (f c) = ability_rows c"
  shows "abilities_ok {} s'"
  by (rule map_ok [OF assms(1,2), of "\<lambda>a. a"]) (use assms in simp_all)

lemma upd_same_ok:
  assumes "abilities_ok {} s" "\<And>c. ch_Id (f c) = ch_Id c" "\<And>c. ability_rows (f c) = ability_rows c"
  shows "abilities_ok {} (set_channels (upd_row key i f) s)"
  by (rule same_rows_ok [OF assms(1), where f = "\<lambda>r. if key r = i then f r else r"]) (simp_all add: upd_row_def assms(2,3))

lemma SaveInfo_ok:
  assumes "abilities_ok {} s" "faults s = []"
  shows "abilities_ok {} (snd (SaveChannelInfo ch s))" "abilities_ok {} (UpdateResponseTime env ch t s)"
  using assms by (auto simp: SaveChannelInfo_def UpdateResponseTime_def quiet intro!: upd_same_ok ability_rows_same)

text \<open>Status: the channel and its abilities change together.\<close>

lemma status_info_sel [simp]:
  "ch_Id (status_info env r c) = ch_Id c" "ch_Models (status_info env r c) = ch_Models c"
  "ch_Group (status_info env r c) = ch_Group c" "ch_Status (status_info env r c) = ch_Status c"
  "ch_Priority (status_info env r c) = ch_Priority c" "ch_Weight (status_info env r c) = ch_Weight c"
  "ch_Tag (status_info env r c) = ch_Tag c" "ch_Key (status_info env r c) = ch_Key c" "ch_ChannelInfo (status_info env r c) = ch_ChannelInfo c"
  by (simp_all add: status_info_def SetOtherInfo_def)

definition same_routing :: "Channel \<Rightarrow> Channel \<Rightarrow> bool" where
  "same_routing c' c \<longleftrightarrow> ch_Id c' = ch_Id c \<and> ch_Models c' = ch_Models c \<and> ch_Group c' = ch_Group c \<and>
     ch_Priority c' = ch_Priority c \<and> ch_Weight c' = ch_Weight c \<and> ch_Tag c' = ch_Tag c"

lemma same_routing_rows:
  assumes "same_routing c' c"
  shows "ability_rows c' = map (\<lambda>a. a\<lparr>ab_Enabled := (ch_Status c' = ChannelStatusEnabled)\<rparr>) (ability_rows c)"
  using assms by (auto simp: same_routing_def ability_rows_def channel_pairs_def ability_of_def GetPriority_def GetWeight_def)

lemma hasEnabled_removed:
  assumes "k < length keys"
  shows "hasEnabledMultiKey keys (m(int k := None))"
  using assms by (auto simp: hasEnabledMultiKey_def key_enabled_def list_ex_iff intro!: bexI [of _ k])

lemma index_of_less: "index_of k xs = Some i \<Longrightarrow> i < length xs \<and> xs ! i = k"
  by (induction xs arbitrary: i) (auto split: if_splits)

lemma handlerMultiKeyUpdate_sel:
  "same_routing (handlerMultiKeyUpdate env ce key status reason c) c"
  "ch_Status (handlerMultiKeyUpdate env ce key status reason c) \<noteq> ch_Status c \<Longrightarrow>
    (ch_Status (handlerMultiKeyUpdate env ce key status reason c) = ChannelStatusEnabled) = (status = ChannelStatusEnabled)"
  by (auto simp: handlerMultiKeyUpdate_def same_routing_def Let_def channel_status_defs split: option.splits
      dest: index_of_less hasEnabled_removed)

lemma save_row_ok:
  assumes ok: "abilities_ok {} s" and c: "row ch_Id (channels (db s)) i = Some c" and r: "same_routing c' c"
    and g: "\<And>a. ab_ChannelId (g a) = ab_ChannelId a" "ability_rows c' = map g (ability_rows c)"
  shows "abilities_ok {} (set_abilities (upd_row ab_ChannelId i g) (set_channels (save_row ch_Id c') s))"
proof (rule map_ok [OF ok, where f = "\<lambda>d. if ch_Id d = i then c' else d" and g = "\<lambda>a. if ab_ChannelId a = i then g a else a"])
  have id: "ch_Id c' = i" using r row_channel(2) [OF ok c] by (simp add: same_routing_def)
  show "channels (db (set_abilities (upd_row ab_ChannelId i g) (set_channels (save_row ch_Id c') s))) =
      map (\<lambda>d. if ch_Id d = i then c' else d) (channels (db s))"
    using c id by (simp add: save_row_def upd_row_def)
  show "ch_Id (if ch_Id d = i then c' else d) = ch_Id d" for d using id by simp
  show "ability_rows (if ch_Id d = i then c' else d) = map (\<lambda>a. if ab_ChannelId a = i then g a else a) (ability_rows d)"
    if d: "d \<in> set (channels (db s))" for d
  proof (cases "ch_Id d = i")
    case True
    then have "d = c" using row_channel(3) [OF ok c d] by simp
    then show ?thesis using g(2) True by (auto dest: ability_rows_sel)
  next
    case False
    then have "map (\<lambda>a. if ab_ChannelId a = i then g a else a) (ability_rows d) = ability_rows d"
      by (intro map_idI) (auto dest: ability_rows_sel)
    then show ?thesis using False by simp
  qed
qed (auto simp: upd_row_def g(1))

lemma keep_key_routing: "same_routing (keep_key c rows) c" "ch_Status (keep_key c rows) = ch_Status c"
  by (simp_all add: keep_key_def stored_def same_routing_def)

lemma same_routing_trans: "same_routing a b \<Longrightarrow> same_routing b c \<Longrightarrow> same_routing a c"
  by (simp add: same_routing_def)

lemma upd_row_id [simp]: "upd_row key i (\<lambda>a. a) rows = rows"
  by (simp add: upd_row_def)

lemma set_abilities_id: "set_abilities (upd_row key i (\<lambda>a. a)) s = s"
  by (simp add: set_abilities_def)

lemma update_status_ok:
  assumes ok: "abilities_ok {} s" and q: "faults s = []"
  shows "abilities_ok {} (snd (update_status_row env ce i key status reason s))"
proof (cases "row ch_Id (channels (db s)) i")
  case (Some c)
  let ?c = "if ci_IsMultiKey (ch_ChannelInfo c) then handlerMultiKeyUpdate env ce key status reason c
            else (status_info env reason c)\<lparr>ch_Status := status\<rparr>"
  let ?r = "keep_key ?c (channels (db s))"
  let ?upd = "\<not> ci_IsMultiKey (ch_ChannelInfo c) \<or> ch_Status c \<noteq> ch_Status ?c"
  let ?g = "\<lambda>a. if ?upd then a\<lparr>ab_Enabled := (status = ChannelStatusEnabled)\<rparr> else a"
  have routing: "same_routing ?c c" using handlerMultiKeyUpdate_sel(1) [of env ce key status reason c] by (simp add: same_routing_def)
  then have r: "same_routing ?r c" by (rule same_routing_trans [OF keep_key_routing(1)])
  have nz: "ch_Id ?c \<noteq> 0"
    using routing row_channel(1,2) [OF ok Some] abilities_okD(3) [OF ok] by (fastforce simp: same_routing_def)
  show ?thesis
  proof (cases "ch_Status c = status")
    case True
    then show ?thesis using ok q Some by (simp add: update_status_row_def quiet)
  next
    case False
    have "(ch_Status ?c = ChannelStatusEnabled) = (if ?upd then status = ChannelStatusEnabled else ch_Status c = ChannelStatusEnabled)"
      using handlerMultiKeyUpdate_sel(2) [of env ce key status reason c] by auto
    then have "ability_rows ?r = map ?g (ability_rows c)"
      using same_routing_rows [OF r] keep_key_routing(2) [of ?c "channels (db s)"] by (auto dest: ability_rows_sel)
    then have "abilities_ok {} (set_abilities (upd_row ab_ChannelId i ?g) (set_channels (save_row ch_Id ?r) s))"
      by (intro save_row_ok [OF ok Some r]) simp_all
    moreover have "snd (update_status_row env ce i key status reason s) =
        set_abilities (upd_row ab_ChannelId i ?g) (set_channels (save_row ch_Id ?r) s)"
      using False q Some nz
      by (simp add: update_status_row_def quiet SaveWithoutKey_def UpdateAbilityStatus_def Let_def set_abilities_id set_channels_def)
    ultimately show ?thesis by simp
  qed
qed (use ok q in \<open>simp add: update_status_row_def quiet\<close>)

text \<open>Operations by tag: the abilities of a channel carry its tag.\<close>

lemma tag_map_ok:
  assumes ok: "abilities_ok {} s"
    and f: "\<And>c. ch_Id (f c) = ch_Id c" and g: "\<And>a. ab_ChannelId (g a) = ab_ChannelId a"
    and fg: "\<And>c. ch_Tag c = Some tag \<Longrightarrow> ability_rows (f c) = map g (ability_rows c)"
  shows "abilities_ok {} (set_abilities (upd_row ab_Tag (Some tag) g) (set_channels (upd_row ch_Tag (Some tag) f) s))"
proof (rule map_ok [OF ok, where f = "\<lambda>c. if ch_Tag c = Some tag then f c else c" and g = "\<lambda>a. if ab_Tag a = Some tag then g a else a"])
  show "ability_rows (if ch_Tag c = Some tag then f c else c) = map (\<lambda>a. if ab_Tag a = Some tag then g a else a) (ability_rows c)" for c
  proof (cases "ch_Tag c = Some tag")
    case True
    then show ?thesis by (auto simp: fg dest: ability_rows_sel)
  next
    case False
    then have "map (\<lambda>a. if ab_Tag a = Some tag then g a else a) (ability_rows c) = ability_rows c"
      by (intro map_idI) (auto dest: ability_rows_sel)
    then show ?thesis using False by simp
  qed
qed (auto simp: upd_row_def f g)

lemma status_rows: "ability_rows (c\<lparr>ch_Status := st\<rparr>) = map (\<lambda>a. a\<lparr>ab_Enabled := (st = ChannelStatusEnabled)\<rparr>) (ability_rows c)"
  using same_routing_rows [of "c\<lparr>ch_Status := st\<rparr>" c] by (simp add: same_routing_def)

lemma EnableByTag_ok:
  assumes "abilities_ok {} s" "faults s = []"
  shows "abilities_ok {} (snd (EnableChannelByTag tag s))" "abilities_ok {} (snd (DisableChannelByTag tag s))"
  using assms
  by (auto simp: EnableChannelByTag_def DisableChannelByTag_def set_status_by_tag_def UpdateAbilityStatusByTag_def quiet
      channel_status_defs status_rows intro!: tag_map_ok)

text \<open>The channels of \<open>P\<close> may have abilities from before a change.\<close>

definition stale_ok :: "int set \<Rightarrow> store \<Rightarrow> bool" where
  "stale_ok P s \<longleftrightarrow>
     distinct (map ch_Id (channels (db s))) \<and>
     (\<forall>c \<in> set (channels (db s)). 0 < ch_Id c \<and> ch_Id c < next_id (db s) \<and>
        (ch_Id c \<notin> P \<longrightarrow> own (ch_Id c) (abilities (db s)) = ability_rows c)) \<and>
     (\<forall>a \<in> set (abilities (db s)). ab_ChannelId a < next_id (db s)) \<and> 0 < next_id (db s)"

lemma stale_ok_empty: "stale_ok {} s = abilities_ok {} s"
  by (simp add: stale_ok_def abilities_ok_def)

lemma rebuild_stale:
  assumes "stale_ok P s" "faults s = []" "e \<in> set (channels (db s))" "ch_Id e = ch_Id c" "ability_rows e = ability_rows c"
  shows "stale_ok (P - {ch_Id c}) (snd (UpdateAbilities False c s))"
proof -
  have "ability_rows d = ability_rows c" if "d \<in> set (channels (db s))" "ch_Id d = ch_Id c" for d
    using row_unique [of ch_Id "channels (db s)" d] row_unique [of ch_Id "channels (db s)" e] assms that
    by (simp add: stale_ok_def)
  moreover have "ab_ChannelId a < next_id (db s)" if "a \<in> set (ability_rows c)" for a
    using assms that by (auto simp: stale_ok_def dest!: ability_rows_sel)
  ultimately show ?thesis
    using assms unfolding stale_ok_def by (auto simp: quiet)
qed

lemma rebuild_all_ok:
  assumes "stale_ok P s" "faults s = []" "P \<subseteq> ch_Id ` set chs"
    and "\<forall>c \<in> set chs. \<exists>e \<in> set (channels (db s)). ch_Id e = ch_Id c \<and> ability_rows e = ability_rows c"
  shows "abilities_ok {} (rebuild_all chs s)"
  using assms
proof (induction chs arbitrary: P s)
  case (Cons c chs)
  let ?s = "snd (UpdateAbilities False c s)"
  obtain e where e: "e \<in> set (channels (db s))" "ch_Id e = ch_Id c" "ability_rows e = ability_rows c" using Cons.prems(4) by auto
  have st: "stale_ok (P - {ch_Id c}) ?s" by (rule rebuild_stale [OF Cons.prems(1,2) e])
  have sel: "faults ?s = []" "channels (db ?s) = channels (db s)" using Cons.prems(2) by (simp_all add: quiet)
  show ?case using Cons.IH [OF st sel(1)] Cons.prems(3,4) sel(2) by auto
qed (simp add: stale_ok_empty)

lemma apply_edit_sel [simp]: "ch_Id (apply_edit tag ed c) = ch_Id c"
  by (simp add: apply_edit_def)

lemma edit_rebuild_ok:
  assumes ok: "abilities_ok {} s" and q: "faults s = []"
  shows "abilities_ok {} (rebuild_all
     (map (\<lambda>c. c\<lparr>ch_Key := []\<rparr>) (sort_by lt (filter (\<lambda>c. ch_Tag c = Some (case ed_newTag ed of None \<Rightarrow> tag | Some t \<Rightarrow> t))
        (upd_row ch_Tag (Some tag) (apply_edit tag ed) (channels (db s))))))
     (set_channels (upd_row ch_Tag (Some tag) (apply_edit tag ed)) s))" (is "abilities_ok {} (rebuild_all ?chs ?s)")
proof (rule rebuild_all_ok)
  let ?tag' = "case ed_newTag ed of None \<Rightarrow> tag | Some t \<Rightarrow> t"
  let ?P = "ch_Id ` {c \<in> set (channels (db s)). ch_Tag c = Some tag}"
  have ids: "map ch_Id (channels (db ?s)) = map ch_Id (channels (db s))" by (simp add: upd_row_def)
  have key: "ability_rows (c\<lparr>ch_Key := []\<rparr>) = ability_rows c" for c by (rule ability_rows_same) simp_all
  show "faults ?s = []" using q by simp
  show "\<forall>c \<in> set ?chs. \<exists>e \<in> set (channels (db ?s)). ch_Id e = ch_Id c \<and> ability_rows e = ability_rows c"
    by (auto simp: key)
  show "?P \<subseteq> ch_Id ` set ?chs"
  proof clarify
    fix c assume c: "c \<in> set (channels (db s))" "ch_Tag c = Some tag"
    let ?c = "apply_edit tag ed c"
    have "?c \<in> set (upd_row ch_Tag (Some tag) (apply_edit tag ed) (channels (db s)))"
      using c by (force simp: upd_row_def)
    moreover have "ch_Tag ?c = Some ?tag'" using c(2) by (auto simp: apply_edit_def split: option.splits)
    ultimately have "?c\<lparr>ch_Key := []\<rparr> \<in> set ?chs" by auto
    then have "ch_Id (?c\<lparr>ch_Key := []\<rparr>) \<in> ch_Id ` set ?chs" by (rule imageI)
    then show "ch_Id c \<in> ch_Id ` set ?chs" by simp
  qed
  show "stale_ok ?P ?s"
    using abilities_okD [OF ok] unfolding stale_ok_def ids by (auto simp: upd_row_def)
qed

lemma EditByTag_ok:
  assumes ok: "abilities_ok {} s" and q: "faults s = []" and w: "ed_weight ed \<noteq> Some 0"
  shows "abilities_ok {} (snd (EditChannelByTag tag ed s))"
proof -
  let ?f = "apply_edit tag ed"
  let ?s1 = "set_channels (upd_row ch_Tag (Some tag) ?f) s"
  have same: "?f c = c" if "edits_nothing tag ed" "ch_Tag c = Some tag" for c
    using that by (cases c) (auto simp: edits_nothing_def apply_edit_def or_keep_def)
  have "?s1 = s" if "edits_nothing tag ed"
  proof -
    have "upd_row ch_Tag (Some tag) ?f (channels (db s)) = channels (db s)"
      unfolding upd_row_def by (rule map_idI) (simp add: same [OF that])
    then show ?thesis by (simp add: set_channels_def)
  qed
  then have s1: "(if edits_nothing tag ed then (None, s) else exec_stmt (set_channels (upd_row ch_Tag (Some tag) ?f)) s) = (None, ?s1)"
    using q by (simp add: quiet)
  have q1: "faults ?s1 = []" using q by simp
  show ?thesis
  proof (cases "non_empty (ed_models ed) \<noteq> None \<or> non_empty (ed_group ed) \<noteq> None")
    case True
    then show ?thesis
      using edit_rebuild_ok [OF ok q] s1 q1 by (simp add: EditChannelByTag_def GetChannelsByTag_def Let_def)
  next
    case False
    let ?g = "\<lambda>a. a\<lparr>ab_Tag := (case ed_newTag ed of None \<Rightarrow> ab_Tag a | Some t \<Rightarrow> Some t),
          ab_Priority := (case ed_priority ed of None \<Rightarrow> ab_Priority a | Some p \<Rightarrow> p),
          ab_Weight := (case ed_weight ed of None \<Rightarrow> ab_Weight a | Some w \<Rightarrow> w)\<rparr>"
    have rows: "ability_rows (?f c) = map ?g (ability_rows c)" if "ch_Tag c = Some tag" for c
      using False that
      by (subst ability_rows_copy [of _ c]) (auto simp: apply_edit_def or_keep_def GetPriority_def GetWeight_def
            split: option.splits dest!: ability_rows_sel)
    have ok1: "abilities_ok {} (set_abilities (upd_row ab_Tag (Some tag) ?g) ?s1)"
      by (rule tag_map_ok [OF ok]) (simp_all add: rows)
    have "snd (UpdateAbilityByTag tag (ed_newTag ed) (ed_priority ed) (ed_weight ed) ?s1) =
        set_abilities (upd_row ab_Tag (Some tag) ?g) ?s1"
      using q1 w by (cases "ed_newTag ed"; cases "ed_priority ed"; cases "ed_weight ed")
        (simp_all add: UpdateAbilityByTag_def quiet Let_def set_abilities_def upd_row_def)
    then show ?thesis using False s1 ok1 by (simp add: EditChannelByTag_def Let_def)
  qed
qed


text \<open>Rebuilding everything needs nothing of the old abilities.\<close>

lemma fix_channels_ok:
  assumes "abilities_ok P s" "faults s = []" "set chs \<subseteq> set (channels (db s))" "ch_Id ` set chs \<subseteq> P" "distinct (map ch_Id chs)"
  obtains s' where "fix_channels chs s = (length chs, 0, s')" "faults s' = []" "channels (db s') = channels (db s)"
    "abilities_ok (P - ch_Id ` set chs) s'"
  using assms
proof (induction chs arbitrary: s P thesis)
  case Nil
  show ?case by (rule Nil.prems(1) [of s]) (use Nil.prems(2,3) in simp_all)
next
  case (Cons c chs)
  have c: "c \<in> set (channels (db s))" "ch_Id c \<in> P" using Cons.prems(4,5) by auto
  obtain s1 where s1: "AddAbilities c s = (None, s1)" "faults s1 = []" "channels (db s1) = channels (db s)"
      "abilities_ok (P - {ch_Id c}) s1"
    by (rule AddAbilities_ok [OF Cons.prems(2,3) c refl refl])
  have sub: "set chs \<subseteq> set (channels (db s1))" "ch_Id ` set chs \<subseteq> P - {ch_Id c}" "distinct (map ch_Id chs)"
    using Cons.prems(4-6) s1(3) by (simp_all add: subset_iff image_iff, blast)
  obtain s' where s': "fix_channels chs s1 = (length chs, 0, s')" "faults s' = []" "channels (db s') = channels (db s1)"
      "abilities_ok (P - {ch_Id c} - ch_Id ` set chs) s'"
    by (rule Cons.IH [OF _ s1(4,2) sub])
  have "P - {ch_Id c} - ch_Id ` set chs = P - ch_Id ` set (c # chs)" by auto
  then have "abilities_ok (P - ch_Id ` set (c # chs)) s'" using s'(4) by simp
  moreover have "fix_channels (c # chs) s = (length (c # chs), 0, s')" using s1(1) s'(1) by simp
  ultimately show ?case using s'(2,3) s1(3) Cons.prems(1) [of s'] by simp
qed

lemma clear_pending:
  assumes "abilities_ok P s" "J \<subseteq> P"
  shows "abilities_ok P (set_abilities (filter (\<lambda>a. ab_ChannelId a \<notin> J)) s)"
proof (rule rebuild_ok [OF assms(1)])
  show "own (ch_Id c) (abilities (db (set_abilities (filter (\<lambda>a. ab_ChannelId a \<notin> J)) s))) = (if ch_Id c \<in> P then [] else ability_rows c)"
    if "c \<in> set (channels (db (set_abilities (filter (\<lambda>a. ab_ChannelId a \<notin> J)) s)))" for c
    using that abilities_okD(4) [OF assms(1), of c] assms(2)
    by (cases "ch_Id c \<in> J") (auto simp: own_without)
qed (use abilities_okD(1) [OF assms(1)] in auto)

lemma fix_chunks_ok:
  assumes "abilities_ok P s" "faults s = []" "set (concat cs) \<subseteq> set (channels (db s))" "ch_Id ` set (concat cs) \<subseteq> P"
    "distinct (map ch_Id (concat cs))"
  obtains s' where "fix_chunks cs s = (length (concat cs), 0, s')" "faults s' = []" "abilities_ok (P - ch_Id ` set (concat cs)) s'"
  using assms
proof (induction cs arbitrary: s P thesis)
  case Nil
  show ?case by (rule Nil.prems(1) [of s]) (use Nil.prems(2,3) in simp_all)
next
  case (Cons c cs)
  let ?s = "set_abilities (filter (\<lambda>a. ab_ChannelId a \<notin> ch_Id ` set c)) s"
  have hd: "set c \<subseteq> set (channels (db ?s))" "ch_Id ` set c \<subseteq> P" "distinct (map ch_Id c)" "faults ?s = []"
    using Cons.prems(3-6) by auto
  obtain s1 where s1: "fix_channels c ?s = (length c, 0, s1)" "faults s1 = []" "channels (db s1) = channels (db ?s)"
      "abilities_ok (P - ch_Id ` set c) s1"
    by (rule fix_channels_ok [OF clear_pending [OF Cons.prems(2) hd(2)] hd(4,1,2,3)])
  have "ch_Id ` set c \<inter> ch_Id ` set (concat cs) = {}" "ch_Id ` set c \<union> ch_Id ` set (concat cs) \<subseteq> P"
    using Cons.prems(5,6) by (simp_all add: image_Un)
  then have tl: "set (concat cs) \<subseteq> set (channels (db s1))" "ch_Id ` set (concat cs) \<subseteq> P - ch_Id ` set c" "distinct (map ch_Id (concat cs))"
    using Cons.prems(4,6) s1(3) by (simp, blast, simp)
  obtain s' where s': "fix_chunks cs s1 = (length (concat cs), 0, s')" "faults s' = []"
      "abilities_ok (P - ch_Id ` set c - ch_Id ` set (concat cs)) s'"
    by (rule Cons.IH [OF _ s1(4,2) tl])
  have "P - ch_Id ` set c - ch_Id ` set (concat cs) = P - ch_Id ` set (concat (c # cs))" by auto
  then have "abilities_ok (P - ch_Id ` set (concat (c # cs))) s'" using s'(3) by simp
  moreover have "fix_chunks (c # cs) s = (length (concat (c # cs)), 0, s')"
    using Cons.prems(3) s1(1) s'(1) by (simp add: quiet)
  ultimately show ?case using s'(2) Cons.prems(1) [of s'] by blast
qed

definition well_numbered :: "store \<Rightarrow> bool" where
  "well_numbered s \<longleftrightarrow> distinct (map ch_Id (channels (db s))) \<and> 0 < next_id (db s) \<and>
     (\<forall>c \<in> set (channels (db s)). 0 < ch_Id c \<and> ch_Id c < next_id (db s))"

lemma fix_rows_ok:
  assumes "well_numbered s" "faults s = []"
  shows "abilities_ok {} (snd (fix_rows False s))" "fst (fix_rows False s) = Inr (length (channels (db s)), 0)"
proof -
  let ?s = "set_abilities (\<lambda>_. []) s"
  let ?P = "ch_Id ` set (channels (db s))"
  have ok: "abilities_ok ?P ?s" using assms(1) by (auto simp: abilities_ok_def well_numbered_def own_def)
  obtain s' where s': "fix_chunks (chunks 50 (channels (db s))) ?s = (length (concat (chunks 50 (channels (db s)))), 0, s')"
      "faults s' = []" "abilities_ok (?P - ch_Id ` set (concat (chunks 50 (channels (db s))))) s'"
    by (rule fix_chunks_ok [OF ok, of "chunks 50 (channels (db s))"])
       (use assms in \<open>simp_all add: concat_chunks well_numbered_def\<close>)
  then have "abilities_ok {} s'" by (simp add: concat_chunks)
  moreover have "channels (db s) = [] \<Longrightarrow> abilities_ok {} ?s" using ok by simp
  ultimately show "abilities_ok {} (snd (fix_rows False s))" "fst (fix_rows False s) = Inr (length (channels (db s)), 0)"
    using assms(2) s'(1) by (auto simp: fix_rows_def quiet concat_chunks)
qed


section \<open>Properties\<close>

text \<open>The operations on channels, and when a caller may use them.\<close>

datatype table_op =
    OpInsert Channel
  | OpBatchInsert "Channel list"
  | OpUpdate Channel
  | OpDelete Channel
  | OpBatchDelete "int list"
  | OpDeleteByStatus int
  | OpDeleteDisabled
  | OpStatus int string int string
  | OpEnableTag string
  | OpDisableTag string
  | OpEditTag string tag_edit
  | OpSaveInfo Channel
  | OpResponseTime Channel int
  | OpFix

fun run_table_op :: "env \<Rightarrow> channel_env \<Rightarrow> table_op \<Rightarrow> store \<Rightarrow> store" where
  "run_table_op env ce (OpInsert ch) s = snd (Channel_Insert ch s)"
| "run_table_op env ce (OpBatchInsert chs) s = snd (BatchInsertChannels chs s)"
| "run_table_op env ce (OpUpdate ch) s = snd (Channel_Update ce ch s)"
| "run_table_op env ce (OpDelete ch) s = snd (Channel_Delete ch s)"
| "run_table_op env ce (OpBatchDelete ids) s = snd (BatchDeleteChannels ids s)"
| "run_table_op env ce (OpDeleteByStatus status) s = snd (DeleteChannelByStatus status s)"
| "run_table_op env ce OpDeleteDisabled s = snd (DeleteDisabledChannel s)"
| "run_table_op env ce (OpStatus i key status reason) s = snd (update_status_row env ce i key status reason s)"
| "run_table_op env ce (OpEnableTag tag) s = snd (EnableChannelByTag tag s)"
| "run_table_op env ce (OpDisableTag tag) s = snd (DisableChannelByTag tag s)"
| "run_table_op env ce (OpEditTag tag ed) s = snd (EditChannelByTag tag ed s)"
| "run_table_op env ce (OpSaveInfo ch) s = snd (SaveChannelInfo ch s)"
| "run_table_op env ce (OpResponseTime ch t) s = UpdateResponseTime env ch t s"
| "run_table_op env ce OpFix s = snd (fix_rows False s)"

fun proper_op :: "table_op \<Rightarrow> store \<Rightarrow> bool" where
  "proper_op (OpInsert ch) s \<longleftrightarrow> ch_Id ch = 0"
| "proper_op (OpBatchInsert chs) s \<longleftrightarrow> (\<forall>c \<in> set chs. ch_Id c = 0)"
| "proper_op (OpUpdate ch) s \<longleftrightarrow> ch_Id ch \<in> ch_Id ` set (channels (db s))"
| "proper_op (OpEditTag tag ed) s \<longleftrightarrow> ed_weight ed \<noteq> Some 0"
| "proper_op _ s \<longleftrightarrow> True"


definition demo_channel :: "int \<Rightarrow> string \<Rightarrow> Channel" where
  "demo_channel i tag =
    \<lparr>ch_Id = i, ch_Type = 1, ch_Key = ''k'', ch_Status = 1, ch_Name = ''c'', ch_Weight = Some 5, ch_CreatedTime = 0, ch_TestTime = 0,
     ch_ResponseTime = 0, ch_Models = ''m,n'', ch_Group = ''default'', ch_ModelMapping = None, ch_Priority = Some 0, ch_AutoBan = Some 1,
     ch_OtherInfo = None, ch_Tag = Some tag, ch_ParamOverride = None, ch_HeaderOverride = None,
     ch_ChannelInfo = \<lparr>ci_IsMultiKey = False, ci_MultiKeySize = 0, ci_MultiKeyStatusList = Map.empty, ci_MultiKeyDisabledReason = Map.empty,
       ci_MultiKeyDisabledTime = Map.empty, ci_MultiKeyPollingIndex = 0, ci_MultiKeyMode = []\<rparr>,
     ch_OtherSettings = [], ch_Keys = []\<rparr>"

definition demo_channels :: store where
  "demo_channels = demo_store\<lparr>db := (db demo_store)\<lparr>channels := [demo_channel 1 ''t''], abilities := ability_rows (demo_channel 1 ''t''), next_id := 2\<rparr>\<rparr>"

definition demo_channel_env :: channel_env where
  "demo_channel_env = \<lparr>MemoryCacheEnabled = True, parse_key_array = (\<lambda>_. None), decode_settings = (\<lambda>_. (True, zero_settings)),
     compile_regexp = (\<lambda>_. None)\<rparr>"

lemma demo_channels_ok: "abilities_ok {} demo_channels" "faults demo_channels = []"
proof -
  have "ab_ChannelId a = 1" if "a \<in> set (ability_rows (demo_channel 1 ''t''))" for a
    using ability_rows_sel [OF that] by (simp add: demo_channel_def)
  then show "abilities_ok {} demo_channels" "faults demo_channels = []"
    by (auto simp: abilities_ok_def demo_channels_def demo_channel_def demo_store_def)
qed


text \<open>
  \<open>BatchSetChannelTag\<close> writes the abilities from the rows as they were before its transaction: the channels get
  the new tag and the abilities keep the old one.  Disabling the channels by their new tag then
  leaves their abilities enabled.
\<close>

lemma update_all_same:
  assumes "faults s = []" "\<forall>c \<in> set chs. own (ch_Id c) (abilities (db s)) = ability_rows c"
  shows "fst (update_all chs s) = None \<and> faults (snd (update_all chs s)) = [] \<and>
    channels (db (snd (update_all chs s))) = channels (db s) \<and>
    (\<forall>i. own i (abilities (db (snd (update_all chs s)))) = own i (abilities (db s)))"
  using assms
proof (induction chs arbitrary: s)
  case (Cons c chs)
  let ?s = "snd (UpdateAbilities True c s)"
  have "own i (abilities (db ?s)) = own i (abilities (db s))" for i using Cons.prems by (simp add: quiet)
  then show ?case using Cons.IH [of ?s] Cons.prems by (simp add: quiet)
qed simp

theorem batch_tag_keeps_old_tag:
  assumes ok: "abilities_ok {} s" and q: "faults s = []"
    and c: "c \<in> set (channels (db s))" "ch_Id c \<in> set ids" "ch_Tag c \<noteq> Some tag" "ch_Status c = ChannelStatusEnabled"
  shows "let s1 = snd (BatchSetChannelTag ids (Some tag) s); s2 = snd (DisableChannelByTag tag s1)
    in \<exists>c' \<in> set (channels (db s2)). ch_Id c' = ch_Id c \<and> ch_Tag c' = Some tag \<and> ch_Status c' = ChannelStatusManuallyDisabled \<and>
       own (ch_Id c) (abilities (db s2)) = ability_rows c \<and> (\<forall>a \<in> set (ability_rows c). ab_Enabled a)"
proof -
  let ?f = "\<lambda>d. if ch_Id d \<in> set ids then d\<lparr>ch_Tag := Some tag\<rparr> else d"
  let ?s0 = "set_channels (map ?f) s"
  let ?chs = "filter (\<lambda>d. ch_Id d \<in> set ids) (channels (db s))"
  let ?s1 = "snd (update_all ?chs ?s0)"
  have u: "fst (update_all ?chs ?s0) = None" "faults ?s1 = []" "channels (db ?s1) = map ?f (channels (db s))"
      "own i (abilities (db ?s1)) = own i (abilities (db s))" for i
    using update_all_same [of ?s0 ?chs] q abilities_okD(4) [OF ok] by auto
  have s1: "snd (BatchSetChannelTag ids (Some tag) s) = ?s1"
    using q u(1,2) by (simp add: BatchSetChannelTag_def transaction_quiet set_tag_body_def quiet GetChannelsByIds_def)
  let ?c = "c\<lparr>ch_Tag := Some tag, ch_Status := ChannelStatusManuallyDisabled\<rparr>"
  let ?s2 = "snd (DisableChannelByTag tag ?s1)"
  have "c\<lparr>ch_Tag := Some tag\<rparr> \<in> set (channels (db ?s1))" using c(1,2) by (force simp: u(3))
  then have "?c \<in> set (channels (db ?s2))"
    using u(2) by (force simp: DisableChannelByTag_def set_status_by_tag_def UpdateAbilityStatusByTag_def quiet upd_row_def)
  moreover have "own (ch_Id c) (abilities (db ?s2)) = ability_rows c"
  proof -
    let ?g = "\<lambda>a. if ab_Tag a = Some tag then a\<lparr>ab_Enabled := False\<rparr> else a"
    have "own (ch_Id c) (abilities (db ?s2)) = map ?g (own (ch_Id c) (abilities (db ?s1)))"
      using u(2) own_map [of ?g "ch_Id c" "abilities (db ?s1)"]
      by (simp add: DisableChannelByTag_def set_status_by_tag_def UpdateAbilityStatusByTag_def quiet upd_row_def)
    also have "\<dots> = map ?g (ability_rows c)" using u(4) abilities_okD(4) [OF ok c(1)] by simp
    also have "\<dots> = ability_rows c" using c(3) by (intro map_idI) (auto dest: ability_rows_sel)
    finally show ?thesis .
  qed
  ultimately show ?thesis
    using c(4) unfolding s1 Let_def by (intro bexI [of _ ?c]) (auto dest: ability_rows_sel)
qed

text \<open>Setting the weight of the channels of a tag to zero does not reach their abilities.\<close>

theorem zero_weight_not_copied:
  assumes ok: "abilities_ok {} s" and q: "faults s = []"
    and c: "c \<in> set (channels (db s))" "ch_Tag c = Some tag"
    and ed: "ed = \<lparr>ed_newTag = None, ed_modelMapping = None, ed_models = None, ed_group = None, ed_priority = None,
      ed_weight = Some 0, ed_paramOverride = None, ed_headerOverride = None\<rparr>"
  shows "let s1 = snd (EditChannelByTag tag ed s)
    in \<exists>c' \<in> set (channels (db s1)). ch_Id c' = ch_Id c \<and> GetWeight c' = 0 \<and> own (ch_Id c) (abilities (db s1)) = ability_rows c"
proof -
  have e: "snd (EditChannelByTag tag ed s) = set_channels (upd_row ch_Tag (Some tag) (apply_edit tag ed)) s"
    using q by (simp add: EditChannelByTag_def ed edits_nothing_def non_empty_def quiet UpdateAbilityByTag_def Let_def)
  have "apply_edit tag ed c \<in> set (channels (db (snd (EditChannelByTag tag ed s))))"
    unfolding e using c by (force simp: upd_row_def)
  moreover have "GetWeight (apply_edit tag ed c) = 0" by (simp add: apply_edit_def or_keep_def ed GetWeight_def)
  ultimately show ?thesis
    using abilities_okD(4) [OF ok c(1)] unfolding Let_def by (intro bexI [of _ "apply_edit tag ed c"]) (simp_all add: e)
qed

end
