(* ===== verification/Channel_Listing.thy ===== *)
theory Channel_Listing
  imports Channel_Table
begin

text \<open>
  The group filter of the channel lists (src/model/channel.go): a channel names its groups in one
  comma-separated text, and the filter finds those that name a given group with a \<open>LIKE\<close> pattern on the text
  between commas.  \<open>like_escape\<close> is the documented meaning of \<open>LIKE\<close> with \<open>ESCAPE '!'\<close>.
\<close>

section \<open>Definitions\<close>

definition NormalizeChannelGroupFilter :: "string \<Rightarrow> string" where
  "NormalizeChannelGroupFilter g =
    (let g = TrimSpace g in if g = [] \<or> EqualFold g ''all'' \<or> EqualFold g ''null'' then [] else g)"

text \<open>\<open>strings.NewReplacer\<close> with patterns of one byte: one pass over the text.\<close>

definition escape_byte :: "char \<Rightarrow> string" where
  "escape_byte c =
    (if c = CHR ''!'' then ''!!'' else if c = CHR ''%'' then ''!%'' else if c = CHR ''_'' then ''!_'' else [c])"

definition channelGroupFilterPattern :: "string \<Rightarrow> string" where
  "channelGroupFilterPattern g = ''%,'' @ concat (map escape_byte g) @ '',%''"

definition channelGroupFilterCondition :: "string \<Rightarrow> Channel \<Rightarrow> bool" where
  "channelGroupFilterCondition pattern c \<longleftrightarrow> like_escape ('','' @ ch_Group c @ '','') pattern"

definition ApplyChannelGroupFilter :: "string \<Rightarrow> Channel list \<Rightarrow> Channel list" where
  "ApplyChannelGroupFilter g rows =
    (let g = NormalizeChannelGroupFilter g in
     if g = [] then rows else filter (channelGroupFilterCondition (channelGroupFilterPattern g)) rows)"

section \<open>What the pattern matches\<close>

lemma like_escape_any: "like_escape s (CHR ''%'' # p) \<longleftrightarrow> (\<exists>u v. s = u @ v \<and> like_escape v p)"
proof
  assume "like_escape s (CHR ''%'' # p)"
  then obtain k where "like_escape (drop k s) p"
    by (auto simp: like_escape.simps(2) list_ex_iff simp del: upt_Suc)
  then show "\<exists>u v. s = u @ v \<and> like_escape v p" using append_take_drop_id [of k s] by metis
next
  assume "\<exists>u v. s = u @ v \<and> like_escape v p"
  then obtain u v where "s = u @ v" "like_escape v p" by blast
  then show "like_escape s (CHR ''%'' # p)"
    by (auto simp: like_escape.simps(2) list_ex_iff intro!: bexI [of _ "length u"])
qed

lemma like_escape_byte:
  "like_escape s (escape_byte c @ p) \<longleftrightarrow> (\<exists>t. s = c # t \<and> like_escape t p)"
  by (cases s) (auto simp: escape_byte_def like_escape.simps(2))

lemma like_escape_text:
  "like_escape s (concat (map escape_byte g) @ p) \<longleftrightarrow> (\<exists>t. s = g @ t \<and> like_escape t p)"
  by (induction g arbitrary: s) (auto simp: like_escape_byte)

lemma like_escape_comma: "like_escape s (CHR '','' # p) \<longleftrightarrow> (\<exists>t. s = CHR '','' # t \<and> like_escape t p)"
  by (cases s) (simp_all add: like_escape.simps(2))

lemma pattern_matches:
  "like_escape s (channelGroupFilterPattern g) \<longleftrightarrow> (\<exists>u v. s = u @ CHR '','' # g @ CHR '','' # v)"
  by (simp add: channelGroupFilterPattern_def like_escape_any like_escape_comma like_escape_text) blast

lemma Split_append: "Split (a @ d # b) d = Split a d @ Split b d"
  by (induction a) (auto split: list.splits)

lemma in_Split_iff:
  assumes "d \<notin> set g"
  shows "g \<in> set (Split s d) \<longleftrightarrow> (\<exists>u v. d # s @ [d] = u @ d # g @ d # v)"
proof
  assume "g \<in> set (Split s d)"
  then obtain xs ys where ps: "Split s d = xs @ g # ys" by (auto simp: in_set_conv_decomp)
  have "concat (map ((#) d) ps) = (if ps = [] then [] else d # Join ps [d])" for ps
    by (induction ps "[d]" rule: Join.induct) auto
  from this [of "Split s d"] have "d # s @ [d] = concat (map ((#) d) (xs @ g # ys)) @ [d]"
    using Join_Split [of s d] ps by simp
  moreover obtain v where "concat (map ((#) d) ys) @ [d] = d # v" by (cases ys) auto
  ultimately show "\<exists>u v. d # s @ [d] = u @ d # g @ d # v" by auto
next
  assume "\<exists>u v. d # s @ [d] = u @ d # g @ d # v"
  then obtain u v where uv: "d # s @ [d] = u @ d # g @ d # v" by blast
  have "[[]] @ Split s d @ [[]] = Split u d @ [g] @ Split v d"
    using arg_cong [OF uv, of "\<lambda>t. Split t d"] Split_append [of "d # s" d "[]"] Split_append [of "[]" d s]
    by (simp add: Split_append Split_no_sep [OF assms])
  moreover obtain x xs where "Split u d = x # xs" by (cases "Split u d") auto
  moreover obtain y ys where "Split v d = ys @ [y]" by (cases "Split v d" rule: rev_cases) auto
  ultimately have "Split s d @ [[]] = (xs @ [g] @ ys) @ [y]" by simp
  then show "g \<in> set (Split s d)" by simp
qed

text \<open>
  The group filter finds exactly the channels of a group: with a group name that has no
  comma, whatever wildcard or escape characters it contains, a channel is listed exactly when one of its
  comma-separated groups is this name; an empty name, \<open>all\<close> and \<open>null\<close> in any case list every channel.
\<close>

theorem group_filter_exact:
  assumes "CHR '','' \<notin> set (TrimSpace g)"
  shows "ApplyChannelGroupFilter g rows =
    (if NormalizeChannelGroupFilter g = [] then rows
     else filter (\<lambda>c. TrimSpace g \<in> set (Split (ch_Group c) (CHR '',''))) rows)"
proof -
  have "NormalizeChannelGroupFilter g \<noteq> [] \<Longrightarrow> NormalizeChannelGroupFilter g = TrimSpace g"
    by (simp add: NormalizeChannelGroupFilter_def Let_def split: if_splits)
  moreover have "filter (channelGroupFilterCondition (channelGroupFilterPattern (TrimSpace g))) rows =
      filter (\<lambda>c. TrimSpace g \<in> set (Split (ch_Group c) (CHR '',''))) rows"
    by (rule filter_cong) (simp_all add: channelGroupFilterCondition_def pattern_matches in_Split_iff [OF assms])
  ultimately show ?thesis by (cases "NormalizeChannelGroupFilter g = []") (simp_all add: ApplyChannelGroupFilter_def Let_def)
qed

theorem group_filter_exact_witness:
  "ApplyChannelGroupFilter ''a_c'' [(demo_channel 1 ''t'')\<lparr>ch_Group := ''abc''\<rparr>, (demo_channel 2 ''t'')\<lparr>ch_Group := ''x,a_c''\<rparr>]
    = [(demo_channel 2 ''t'')\<lparr>ch_Group := ''x,a_c''\<rparr>]"
proof -
  have "TrimSpace ''a_c'' = ''a_c''" "NormalizeChannelGroupFilter ''a_c'' = ''a_c''" by code_simp+
  then show ?thesis
    using group_filter_exact [of "''a_c''" "[(demo_channel 1 ''t'')\<lparr>ch_Group := ''abc''\<rparr>, (demo_channel 2 ''t'')\<lparr>ch_Group := ''x,a_c''\<rparr>]"]
    by (simp add: demo_channel_def)
qed

end
