(* ===== verification/Channel_Cache.thy ===== *)
theory Channel_Cache
  imports Channel_Table
begin

text \<open>
  Choosing a channel for a request (src/model/channel_cache.go, the selection of src/model/ability.go, the key selection of
  src/model/channel.go, the model names of src/setting/ratio_setting/model_ratio.go).

  With the memory cache on, all channels are kept in memory and a map gives the enabled channels of each group and model;
  without it the abilities are queried.  \<open>rnd n\<close> stands for \<open>rand.Intn(n)\<close>.  A cached channel is shared: a key selection
  that advances the polling index changes the object in the cache.  \<open>InitChannelCache\<close> returns \<open>None\<close> when it
  panics.  The cache of prices that it invalidates is not part of the model.
\<close>

section \<open>Model names\<close>

definition handleThinkingBudgetModel :: "string \<Rightarrow> string \<Rightarrow> string \<Rightarrow> string" where
  "handleThinkingBudgetModel name p wildcard =
    (if HasPrefix name p \<and> Contains name ''-thinking-'' then wildcard else name)"

definition FormatMatchingModelName :: "string \<Rightarrow> string" where
  "FormatMatchingModelName name =
    (let name = (if HasPrefix name ''gemini-2.5-flash-lite'' then
                   handleThinkingBudgetModel name ''gemini-2.5-flash-lite'' ''gemini-2.5-flash-lite-thinking-*''
                 else if HasPrefix name ''gemini-2.5-flash'' then
                   handleThinkingBudgetModel name ''gemini-2.5-flash'' ''gemini-2.5-flash-thinking-*''
                 else if HasPrefix name ''gemini-2.5-pro'' then
                   handleThinkingBudgetModel name ''gemini-2.5-pro'' ''gemini-2.5-pro-thinking-*''
                 else name);
         name = (if HasPrefix name ''gpt-4-gizmo'' then ''gpt-4-gizmo-*'' else name);
         name = (if HasPrefix name ''gpt-4o-gizmo'' then ''gpt-4o-gizmo-*'' else name)
     in name)"

section \<open>The cache\<close>

record ChannelCache =
  group2model2channels :: "string \<rightharpoonup> (string \<rightharpoonup> int list)"
  channelsIDM :: "int \<rightharpoonup> Channel"
  channel2advancedCustomConfig :: "int \<rightharpoonup> AdvancedCustomConfig"

text \<open>A query whose error is ignored leaves the slice empty.\<close>

definition find_all :: "(tables \<Rightarrow> 'r list) \<Rightarrow> store \<Rightarrow> 'r list \<times> store" where
  "find_all tab s = (case stmt s of (True, s1) \<Rightarrow> (tab (db s1), s1) | (False, s1) \<Rightarrow> ([], s1))"

definition advanced_config :: "channel_env \<Rightarrow> Channel \<Rightarrow> store \<Rightarrow> AdvancedCustomConfig option \<times> Channel \<times> store" where
  "advanced_config ce ch s =
    (if ch_Type ch = ChannelTypeAdvancedCustom then
       (case GetOtherSettings ce ch s of (st, ch', s') \<Rightarrow> (AdvancedCustom st, ch', s'))
     else (None, ch, s))"

fun load_configs ::
    "channel_env \<Rightarrow> Channel list \<Rightarrow> store \<Rightarrow> Channel list \<times> (int \<rightharpoonup> AdvancedCustomConfig) \<times> store" where
  "load_configs ce [] s = ([], Map.empty, s)"
| "load_configs ce (ch # chs) s =
    (case advanced_config ce ch s of (cfg, ch', s1) \<Rightarrow>
      (case load_configs ce chs s1 of (rest, m, s2) \<Rightarrow>
        (ch' # rest, (case cfg of None \<Rightarrow> m | Some c \<Rightarrow> (if m (ch_Id ch) = None then m(ch_Id ch \<mapsto> c) else m)), s2)))"

text \<open>An assignment into the map of a group; a group without one is a nil map, and the assignment panics.\<close>

definition add_channel :: "int \<Rightarrow> string \<times> string \<Rightarrow> (string \<rightharpoonup> (string \<rightharpoonup> int list)) \<Rightarrow> (string \<rightharpoonup> (string \<rightharpoonup> int list)) option" where
  "add_channel i gm t =
    (case gm of (g, m) \<Rightarrow>
      (case t g of None \<Rightarrow> None
       | Some mm \<Rightarrow> Some (t(g \<mapsto> mm(m \<mapsto> (case mm m of None \<Rightarrow> [] | Some is \<Rightarrow> is) @ [i])))))"

fun add_pairs ::
    "int \<Rightarrow> (string \<times> string) list \<Rightarrow> (string \<rightharpoonup> (string \<rightharpoonup> int list)) \<Rightarrow> (string \<rightharpoonup> (string \<rightharpoonup> int list)) option" where
  "add_pairs i [] t = Some t"
| "add_pairs i (gm # gms) t = Option.bind (add_channel i gm t) (add_pairs i gms)"

definition cache_pairs :: "Channel \<Rightarrow> (string \<times> string) list" where
  "cache_pairs ch =
    concat (map (\<lambda>g. map (\<lambda>m. (g, m)) (Split (ch_Models ch) (CHR '',''))) (Split (ch_Group ch) (CHR '','')))"

fun fill_cache :: "Channel list \<Rightarrow> (string \<rightharpoonup> (string \<rightharpoonup> int list)) \<Rightarrow> (string \<rightharpoonup> (string \<rightharpoonup> int list)) option" where
  "fill_cache [] t = Some t"
| "fill_cache (ch # chs) t =
    (if ch_Status ch \<noteq> ChannelStatusEnabled then fill_cache chs t
     else Option.bind (add_pairs (ch_Id ch) (cache_pairs ch) t) (fill_cache chs))"

definition priority_of :: "(int \<rightharpoonup> Channel) \<Rightarrow> int \<Rightarrow> int" where
  "priority_of idm i = (case idm i of None \<Rightarrow> 0 | Some ch \<Rightarrow> GetPriority ch)"

text \<open>\<open>sort.Slice\<close> does not fix the order of equal priorities; the selection below does not depend on it.\<close>

definition sort_cache ::
    "(int \<rightharpoonup> Channel) \<Rightarrow> (string \<rightharpoonup> (string \<rightharpoonup> int list)) \<Rightarrow> (string \<rightharpoonup> (string \<rightharpoonup> int list))" where
  "sort_cache idm t =
    (\<lambda>g. map_option (\<lambda>mm m. map_option (sort_by (\<lambda>i j. priority_of idm i > priority_of idm j)) (mm m)) (t g))"

definition by_id :: "Channel list \<Rightarrow> int \<rightharpoonup> Channel" where
  "by_id chs = (\<lambda>i. row ch_Id (rev chs) i)"

definition keep_polling :: "channel_env \<Rightarrow> (int \<rightharpoonup> Channel) \<Rightarrow> Channel \<Rightarrow> Channel" where
  "keep_polling ce old ch =
    (if \<not> ci_IsMultiKey (ch_ChannelInfo ch) then ch
     else
       let ch1 = ch\<lparr>ch_Keys := GetKeys ce ch\<rparr> in
       if ci_MultiKeyMode (ch_ChannelInfo ch) = ''polling'' then
         (case old (ch_Id ch) of
            None \<Rightarrow> ch1
          | Some o_ch \<Rightarrow>
             if ci_IsMultiKey (ch_ChannelInfo o_ch) \<and> ci_MultiKeyMode (ch_ChannelInfo o_ch) = ''polling'' then
               ch1\<lparr>ch_ChannelInfo := (ch_ChannelInfo ch1)\<lparr>ci_MultiKeyPollingIndex := ci_MultiKeyPollingIndex (ch_ChannelInfo o_ch)\<rparr>\<rparr>
             else ch1)
       else ch1)"

definition InitChannelCache :: "channel_env \<Rightarrow> ChannelCache \<Rightarrow> store \<Rightarrow> (ChannelCache \<times> store) option" where
  "InitChannelCache ce cache s =
    (if \<not> MemoryCacheEnabled ce then Some (cache, s)
     else
       let (rows, s1) = find_all channels s;
           (chs, configs, s2) = load_configs ce rows s1;
           (abs, s3) = find_all abilities s2;
           empty = (\<lambda>g. if g \<in> ab_Group ` set abs then Some Map.empty else None)
       in case fill_cache chs empty of
            None \<Rightarrow> None
          | Some t \<Rightarrow>
              Some (\<lparr>group2model2channels = sort_cache (by_id chs) t,
                     channelsIDM = (\<lambda>i. map_option (keep_polling ce (channelsIDM cache)) (by_id chs i)),
                     channel2advancedCustomConfig = configs\<rparr>, s3))"

definition CacheGetChannel :: "channel_env \<Rightarrow> ChannelCache \<Rightarrow> int \<Rightarrow> store \<Rightarrow> (error + Channel) \<times> store" where
  "CacheGetChannel ce cache i s =
    (if \<not> MemoryCacheEnabled ce then GetChannelById i True s
     else case channelsIDM cache i of None \<Rightarrow> (Inl (ErrChannelGone i), s) | Some c \<Rightarrow> (Inr c, s))"

definition CacheGetChannelInfo :: "channel_env \<Rightarrow> ChannelCache \<Rightarrow> int \<Rightarrow> store \<Rightarrow> (error + ChannelInfo) \<times> store" where
  "CacheGetChannelInfo ce cache i s =
    (if \<not> MemoryCacheEnabled ce then
       (case GetChannelById i True s of (Inl e, s1) \<Rightarrow> (Inl e, s1) | (Inr c, s1) \<Rightarrow> (Inr (ch_ChannelInfo c), s1))
     else case channelsIDM cache i of None \<Rightarrow> (Inl (ErrChannelGone i), s) | Some c \<Rightarrow> (Inr (ch_ChannelInfo c), s))"

text \<open>Only the first occurrence of the channel is removed from each list.\<close>

definition CacheUpdateChannelStatus :: "channel_env \<Rightarrow> int \<Rightarrow> int \<Rightarrow> ChannelCache \<Rightarrow> ChannelCache" where
  "CacheUpdateChannelStatus ce i status cache =
    (if \<not> MemoryCacheEnabled ce then cache
     else
       let idm = (case channelsIDM cache i of None \<Rightarrow> channelsIDM cache
                  | Some ch \<Rightarrow> (channelsIDM cache)(i \<mapsto> ch\<lparr>ch_Status := status\<rparr>));
           t = (if status \<noteq> ChannelStatusEnabled then
                  (\<lambda>g. map_option (\<lambda>mm m. map_option (remove1 i) (mm m)) (group2model2channels cache g))
                else group2model2channels cache)
       in cache\<lparr>channelsIDM := idm, group2model2channels := t\<rparr>)"

definition CacheUpdateChannel :: "channel_env \<Rightarrow> Channel option \<Rightarrow> ChannelCache \<Rightarrow> store \<Rightarrow> ChannelCache \<times> store" where
  "CacheUpdateChannel ce channel cache s =
    (case channel of
       None \<Rightarrow> (cache, s)
     | Some ch \<Rightarrow>
        if \<not> MemoryCacheEnabled ce then (cache, s)
        else case advanced_config ce ch s of (cfg, ch', s1) \<Rightarrow>
          (cache\<lparr>channelsIDM := (channelsIDM cache)(ch_Id ch \<mapsto> ch'),
                 channel2advancedCustomConfig := (channel2advancedCustomConfig cache)(ch_Id ch := cfg)\<rparr>, s1))"

section \<open>Selection in memory\<close>

definition filterChannelsByRequestPathAndModel ::
    "channel_env \<Rightarrow> ChannelCache \<Rightarrow> int list \<Rightarrow> string \<Rightarrow> string \<Rightarrow> int list" where
  "filterChannelsByRequestPathAndModel ce cache ids requestPath m =
    (if requestPath = [] \<or> ids = [] then ids
     else filter (\<lambda>i. case channelsIDM cache i of
            None \<Rightarrow> True
          | Some ch \<Rightarrow>
              if ch_Type ch \<noteq> ChannelTypeAdvancedCustom then True
              else (case channel2advancedCustomConfig cache i of
                      None \<Rightarrow> False
                    | Some cfg \<Rightarrow> SupportsPathForModel (compile_regexp ce) (Some cfg) requestPath m)) ids)"

definition cached_ids :: "ChannelCache \<Rightarrow> string \<Rightarrow> string \<Rightarrow> int list" where
  "cached_ids cache g m =
    (case group2model2channels cache g of None \<Rightarrow> [] | Some mm \<Rightarrow> (case mm m of None \<Rightarrow> [] | Some ids \<Rightarrow> ids))"

text \<open>The order of \<open>sortChannelsForRouting\<close>: known latency first, then lower latency, higher weight, lower id.\<close>

definition routes_before :: "Channel \<Rightarrow> Channel \<Rightarrow> bool" where
  "routes_before l r =
    (if ch_ResponseTime l = 0 \<and> ch_ResponseTime r \<noteq> 0 then False
     else if ch_ResponseTime r = 0 \<and> ch_ResponseTime l \<noteq> 0 then True
     else if ch_ResponseTime l \<noteq> ch_ResponseTime r then ch_ResponseTime l < ch_ResponseTime r
     else if GetWeight l \<noteq> GetWeight r then GetWeight l > GetWeight r
     else ch_Id l < ch_Id r)"

definition sortChannelsForRouting :: "Channel list \<Rightarrow> Channel list" where
  "sortChannelsForRouting chs = sort_by routes_before chs"

text \<open>Smoothing factor and adjustment, from the sum of the weights and the number of candidates.\<close>

definition smoothing :: "int \<Rightarrow> nat \<Rightarrow> int \<times> int" where
  "smoothing sumWeight n =
    (if sumWeight = 0 then (1, 100) else if sumWeight div int n < 10 then (100, 0) else (1, 0))"

definition totalWeight :: "int \<Rightarrow> nat \<Rightarrow> int" where
  "totalWeight sumWeight n = (if sumWeight = 0 then int n * 100 else sumWeight) * fst (smoothing sumWeight n)"

definition effective_weight :: "int \<Rightarrow> nat \<Rightarrow> Channel \<Rightarrow> int" where
  "effective_weight sumWeight n ch = int (GetWeight ch) * fst (smoothing sumWeight n) + snd (smoothing sumWeight n)"

fun pick_weighted :: "('a \<Rightarrow> int) \<Rightarrow> int \<Rightarrow> 'a list \<Rightarrow> 'a option" where
  "pick_weighted w r [] = None"
| "pick_weighted w r (c # cs) = (if r - w c < 0 then Some c else pick_weighted w (r - w c) cs)"

definition priorities_desc :: "int list \<Rightarrow> int list" where
  "priorities_desc ps = rev (sort (remdups ps))"

definition target_priority :: "int list \<Rightarrow> nat \<Rightarrow> int" where
  "target_priority ps retry =
    (let sortedUniquePriorities = priorities_desc ps in
     sortedUniquePriorities ! (if retry \<ge> length sortedUniquePriorities then length sortedUniquePriorities - 1 else retry))"

text \<open>The channels of a list of identifiers, or the first identifier that is missing.\<close>

fun lookup_all :: "(int \<rightharpoonup> Channel) \<Rightarrow> int list \<Rightarrow> error + Channel list" where
  "lookup_all idm [] = Inr []"
| "lookup_all idm (i # is) =
    (case idm i of
       None \<Rightarrow> Inl (ErrChannelInconsistent i)
     | Some ch \<Rightarrow> (case lookup_all idm is of Inl e \<Rightarrow> Inl e | Inr chs \<Rightarrow> Inr (ch # chs)))"

definition select_weighted :: "(int \<Rightarrow> int) \<Rightarrow> Channel list \<Rightarrow> nat \<Rightarrow> Channel option \<times> error option" where
  "select_weighted rnd chs retry =
    (let target = target_priority (map GetPriority chs) retry;
         targetChannels = filter (\<lambda>c. GetPriority c = target) chs;
         sumWeight = sum_list (map (\<lambda>c. int (GetWeight c)) targetChannels);
         n = length targetChannels
     in if targetChannels = [] then (None, Some ErrNoChannelAtPriority)
        else case pick_weighted (effective_weight sumWeight n) (rnd (totalWeight sumWeight n)) (sortChannelsForRouting targetChannels) of
               Some c \<Rightarrow> (Some c, None)
             | None \<Rightarrow> (None, Some ErrChannelNotFound))"

definition candidates :: "channel_env \<Rightarrow> ChannelCache \<Rightarrow> string \<Rightarrow> string \<Rightarrow> string \<Rightarrow> int list" where
  "candidates ce cache g m requestPath =
    (let exact = filterChannelsByRequestPathAndModel ce cache (cached_ids cache g m) requestPath m in
     if exact \<noteq> [] then exact
     else filterChannelsByRequestPathAndModel ce cache (cached_ids cache g (FormatMatchingModelName m)) requestPath m)"

definition cached_selection ::
    "channel_env \<Rightarrow> (int \<Rightarrow> int) \<Rightarrow> ChannelCache \<Rightarrow> string \<Rightarrow> string \<Rightarrow> nat \<Rightarrow> string \<Rightarrow> Channel option \<times> error option" where
  "cached_selection ce rnd cache g m retry requestPath =
    (case candidates ce cache g m requestPath of
       [] \<Rightarrow> (None, None)
     | [i] \<Rightarrow> (case channelsIDM cache i of Some ch \<Rightarrow> (Some ch, None) | None \<Rightarrow> (None, Some (ErrChannelInconsistent i)))
     | ids \<Rightarrow> (case lookup_all (channelsIDM cache) ids of
                 Inl e \<Rightarrow> (None, Some e)
               | Inr chs \<Rightarrow> select_weighted rnd chs retry))"

section \<open>Selection in the database\<close>

definition serving :: "string \<Rightarrow> string \<Rightarrow> Ability list \<Rightarrow> Ability list" where
  "serving g m rows = filter (\<lambda>a. ab_Group a = g \<and> ab_Model a = m \<and> ab_Enabled a) rows"

definition getPriority :: "string \<Rightarrow> string \<Rightarrow> nat \<Rightarrow> store \<Rightarrow> (error + int) \<times> store" where
  "getPriority g m retry s =
    (case stmt s of
       (False, s1) \<Rightarrow> (Inl ErrDB, s1)
     | (True, s1) \<Rightarrow>
        let priorities = priorities_desc (map ab_Priority (serving g m (abilities (db s1)))) in
        if priorities = [] then (Inl ErrPrioritiesInconsistent, s1)
        else (Inr (if retry \<ge> length priorities then last priorities else priorities ! retry), s1))"

text \<open>The query by priority: for the first try the maximum, which the query itself computes.\<close>

definition getChannelQuery :: "string \<Rightarrow> string \<Rightarrow> nat \<Rightarrow> store \<Rightarrow> (error + (Ability list \<Rightarrow> Ability list)) \<times> store" where
  "getChannelQuery g m retry s =
    (if retry = 0 then
       (Inr (\<lambda>rows. let as = serving g m rows in filter (\<lambda>a. ab_Priority a = Max (ab_Priority ` set as)) as), s)
     else case getPriority g m retry s of
       (Inl e, s1) \<Rightarrow> (Inl e, s1)
     | (Inr p, s1) \<Rightarrow> (Inr (\<lambda>rows. filter (\<lambda>a. ab_Priority a = p) (serving g m rows)), s1))"

fun ability_configs :: "channel_env \<Rightarrow> Channel list \<Rightarrow> store \<Rightarrow> (int \<rightharpoonup> AdvancedCustomConfig option) \<times> store" where
  "ability_configs ce [] s = (Map.empty, s)"
| "ability_configs ce (ch # chs) s =
    (case advanced_config ce ch s of (cfg, _, s1) \<Rightarrow>
      (case ability_configs ce chs s1 of (m, s2) \<Rightarrow>
        (if ch_Type ch = ChannelTypeAdvancedCustom \<and> m (ch_Id ch) = None then m(ch_Id ch \<mapsto> cfg) else m, s2)))"

definition filterAbilitiesByRequestPathAndModel ::
    "channel_env \<Rightarrow> Ability list \<Rightarrow> string \<Rightarrow> string \<Rightarrow> store \<Rightarrow> Ability list \<times> store" where
  "filterAbilitiesByRequestPathAndModel ce as requestPath m s =
    (if requestPath = [] \<or> as = [] then (as, s)
     else case stmt s of
       (False, s1) \<Rightarrow> (as, s1)
     | (True, s1) \<Rightarrow>
        (case ability_configs ce (filter (\<lambda>c. ch_Id c \<in> ab_ChannelId ` set as) (channels (db s1))) s1 of (configs, s2) \<Rightarrow>
          (filter (\<lambda>a. case configs (ab_ChannelId a) of
               None \<Rightarrow> True
             | Some None \<Rightarrow> False
             | Some (Some cfg) \<Rightarrow> SupportsPathForModel (compile_regexp ce) (Some cfg) requestPath m) as, s2)))"

definition ability_before :: "(int \<rightharpoonup> Channel) \<Rightarrow> Ability \<Rightarrow> Ability \<Rightarrow> bool" where
  "ability_before idm a b =
    (case (idm (ab_ChannelId a), idm (ab_ChannelId b)) of
       (Some l, Some r) \<Rightarrow>
         if ch_ResponseTime l \<noteq> ch_ResponseTime r then
           (if ch_ResponseTime l = 0 then False else if ch_ResponseTime r = 0 then True
            else ch_ResponseTime l < ch_ResponseTime r)
         else if ab_Weight a \<noteq> ab_Weight b then ab_Weight a > ab_Weight b
         else ab_ChannelId a < ab_ChannelId b
     | _ \<Rightarrow> if ab_Weight a \<noteq> ab_Weight b then ab_Weight a > ab_Weight b else ab_ChannelId a < ab_ChannelId b)"

definition order_abilities :: "Ability list \<Rightarrow> store \<Rightarrow> Ability list \<times> store" where
  "order_abilities as s =
    (if length as > 1 then
       (case stmt s of
          (False, s1) \<Rightarrow> (as, s1)
        | (True, s1) \<Rightarrow>
            (sort_by (ability_before (by_id (filter (\<lambda>c. ch_Id c \<in> ab_ChannelId ` set as) (channels (db s1))))) as, s1))
     else (as, s))"

text \<open>The loop over the abilities stops as soon as the remaining weight is not positive.\<close>

fun pick_ability :: "int \<Rightarrow> Ability list \<Rightarrow> int" where
  "pick_ability r [] = 0"
| "pick_ability r (a # as) =
    (if r - (int (ab_Weight a) + 10) \<le> 0 then ab_ChannelId a else pick_ability (r - (int (ab_Weight a) + 10)) as)"

definition weight_sum :: "Ability list \<Rightarrow> int" where
  "weight_sum as = sum_list (map (\<lambda>a. int (ab_Weight a) + 10) as)"

text \<open>
  \<open>GetChannel\<close> returns the channel with its identifier also when loading it fails; \<open>blank\<close> is the
  zero channel.
\<close>

definition blank :: "int \<Rightarrow> Channel" where
  "blank i =
    \<lparr>ch_Id = i, ch_Type = 0, ch_Key = [], ch_Status = 0, ch_Name = [], ch_Weight = None, ch_CreatedTime = 0, ch_TestTime = 0,
     ch_ResponseTime = 0, ch_Models = [], ch_Group = [], ch_ModelMapping = None, ch_Priority = None, ch_AutoBan = None,
     ch_OtherInfo = None, ch_Tag = None, ch_ParamOverride = None, ch_HeaderOverride = None,
     ch_ChannelInfo = \<lparr>ci_IsMultiKey = False, ci_MultiKeySize = 0, ci_MultiKeyStatusList = Map.empty,
       ci_MultiKeyDisabledReason = Map.empty, ci_MultiKeyDisabledTime = Map.empty, ci_MultiKeyPollingIndex = 0, ci_MultiKeyMode = []\<rparr>,
     ch_OtherSettings = [], ch_Keys = []\<rparr>"

definition GetChannel ::
    "channel_env \<Rightarrow> (int \<Rightarrow> int) \<Rightarrow> string \<Rightarrow> string \<Rightarrow> nat \<Rightarrow> string \<Rightarrow> store \<Rightarrow> (Channel option \<times> error option) \<times> store" where
  "GetChannel ce rnd g m retry requestPath s =
    (case getChannelQuery g m retry s of
       (Inl e, s1) \<Rightarrow> ((None, Some e), s1)
     | (Inr query, s1) \<Rightarrow>
        (case stmt s1 of
           (False, s2) \<Rightarrow> ((None, Some ErrDB), s2)
         | (True, s2) \<Rightarrow>
            (case filterAbilitiesByRequestPathAndModel ce (sort_by (\<lambda>a b. ab_Weight a > ab_Weight b) (query (abilities (db s2)))) requestPath m s2 of
               (as, s3) \<Rightarrow>
              (case order_abilities as s3 of (as', s4) \<Rightarrow>
                 if as' = [] then ((None, None), s4)
                 else
                   let i = pick_ability (rnd (weight_sum as')) as' in
                   (case GetChannelById i True s4 of
                      (Inr ch, s5) \<Rightarrow> ((Some ch, None), s5)
                    | (Inl e, s5) \<Rightarrow> ((Some (blank i), Some e), s5))))))"

definition GetRandomSatisfiedChannel ::
    "channel_env \<Rightarrow> (int \<Rightarrow> int) \<Rightarrow> ChannelCache \<Rightarrow> string \<Rightarrow> string \<Rightarrow> nat \<Rightarrow> string \<Rightarrow> store \<Rightarrow>
     (Channel option \<times> error option) \<times> store" where
  "GetRandomSatisfiedChannel ce rnd cache g m retry requestPath s =
    (if \<not> MemoryCacheEnabled ce then GetChannel ce rnd g m retry requestPath s
     else (cached_selection ce rnd cache g m retry requestPath, s))"

section \<open>Keys of a channel\<close>

definition enabled_keys :: "(int \<rightharpoonup> int) \<Rightarrow> string list \<Rightarrow> nat list" where
  "enabled_keys statusList keys = filter (\<lambda>i. key_enabled statusList (int i)) [0..<length keys]"

text \<open>The polling loop: the first enabled key from \<open>start\<close> on, going round.\<close>

fun poll :: "(int \<rightharpoonup> int) \<Rightarrow> nat \<Rightarrow> nat \<Rightarrow> nat \<Rightarrow> nat option" where
  "poll statusList n p 0 = None"
| "poll statusList n p (Suc k) =
    (if key_enabled statusList (int (p mod n)) then Some (p mod n) else poll statusList n (Suc p) k)"

definition start_index :: "int \<Rightarrow> nat \<Rightarrow> nat" where
  "start_index p n = (if p < 0 \<or> p \<ge> int n then 0 else nat p)"

definition GetNextEnabledKey ::
    "channel_env \<Rightarrow> (int \<Rightarrow> int) \<Rightarrow> ChannelCache \<Rightarrow> Channel \<Rightarrow> store \<Rightarrow> (error + string \<times> nat) \<times> Channel \<times> store" where
  "GetNextEnabledKey ce rnd cache ch s =
    (if \<not> ci_IsMultiKey (ch_ChannelInfo ch) then (Inr (ch_Key ch, 0), ch, s)
     else
       let keys = GetKeys ce ch; ci = ch_ChannelInfo ch; status = ci_MultiKeyStatusList ci;
           enabledIdx = enabled_keys status keys
       in if keys = [] then (Inl ErrNoKeysAvailable, ch, s)
          else if enabledIdx = [] then (Inl ErrNoEnabledKeys, ch, s)
          else if ci_MultiKeyMode ci = ''random'' then
            let i = enabledIdx ! nat (rnd (int (length enabledIdx))) in (Inr (keys ! i, i), ch, s)
          else if ci_MultiKeyMode ci = ''polling'' then
            (case CacheGetChannelInfo ce cache (ch_Id ch) s of
               (Inl e, s1) \<Rightarrow> (Inl e, ch, s1)
             | (Inr info, s1) \<Rightarrow>
                let (i, ch') = (case poll status (length keys) (start_index (ci_MultiKeyPollingIndex info) (length keys)) (length keys) of
                       Some i \<Rightarrow> (i, ch\<lparr>ch_ChannelInfo := ci\<lparr>ci_MultiKeyPollingIndex := int ((i + 1) mod length keys)\<rparr>\<rparr>)
                     | None \<Rightarrow> (hd enabledIdx, ch));
                    s2 = (if MemoryCacheEnabled ce then s1 else snd (SaveChannelInfo ch' s1))
                in (Inr (keys ! i, i), ch', s2))
          else (Inr (keys ! hd enabledIdx, hd enabledIdx), ch, s))"

text \<open>The same for a channel that came out of the cache: the object in the cache is changed.\<close>

definition next_cached_key :: "channel_env \<Rightarrow> (int \<Rightarrow> int) \<Rightarrow> int \<Rightarrow> ChannelCache \<Rightarrow> store \<Rightarrow> (error + string \<times> nat) \<times> ChannelCache \<times> store" where
  "next_cached_key ce rnd i cache s =
    (case CacheGetChannel ce cache i s of
       (Inl e, s1) \<Rightarrow> (Inl e, cache, s1)
     | (Inr ch, s1) \<Rightarrow>
        (case GetNextEnabledKey ce rnd cache ch s1 of (r, ch', s2) \<Rightarrow>
           (r, if MemoryCacheEnabled ce then cache\<lparr>channelsIDM := (channelsIDM cache)(i \<mapsto> ch')\<rparr> else cache, s2)))"

section \<open>Which channels serve a model\<close>

definition isChannelIDInList :: "int list \<Rightarrow> int \<Rightarrow> bool" where
  "isChannelIDInList ids i = list_ex (\<lambda>j. j = i) ids"

definition has_serving :: "string \<Rightarrow> string \<Rightarrow> int \<Rightarrow> store \<Rightarrow> bool \<times> store" where
  "has_serving g m i s =
    (case stmt s of
       (True, s1) \<Rightarrow> (0 < length (filter (\<lambda>a. ab_ChannelId a = i) (serving g m (abilities (db s1)))), s1)
     | (False, s1) \<Rightarrow> (False, s1))"

definition isChannelEnabledForGroupModelDB :: "string \<Rightarrow> string \<Rightarrow> int \<Rightarrow> store \<Rightarrow> bool \<times> store" where
  "isChannelEnabledForGroupModelDB g m i s =
    (case has_serving g m i s of
       (True, s1) \<Rightarrow> (True, s1)
     | (False, s1) \<Rightarrow>
        let normalized = FormatMatchingModelName m in
        if normalized = [] \<or> normalized = m then (False, s1) else has_serving g normalized i s1)"

definition IsChannelEnabledForGroupModel ::
    "channel_env \<Rightarrow> ChannelCache \<Rightarrow> string \<Rightarrow> string \<Rightarrow> int \<Rightarrow> store \<Rightarrow> bool \<times> store" where
  "IsChannelEnabledForGroupModel ce cache g m i s =
    (if g = [] \<or> m = [] \<or> i \<le> 0 then (False, s)
     else if \<not> MemoryCacheEnabled ce then isChannelEnabledForGroupModelDB g m i s
     else if isChannelIDInList (cached_ids cache g m) i then (True, s)
     else
       let normalized = FormatMatchingModelName m in
       if normalized \<noteq> [] \<and> normalized \<noteq> m then (isChannelIDInList (cached_ids cache g normalized) i, s) else (False, s))"

fun IsChannelEnabledForAnyGroupModel ::
    "channel_env \<Rightarrow> ChannelCache \<Rightarrow> string list \<Rightarrow> string \<Rightarrow> int \<Rightarrow> store \<Rightarrow> bool \<times> store" where
  "IsChannelEnabledForAnyGroupModel ce cache [] m i s = (False, s)"
| "IsChannelEnabledForAnyGroupModel ce cache (g # gs) m i s =
    (case IsChannelEnabledForGroupModel ce cache g m i s of
       (True, s1) \<Rightarrow> (True, s1)
     | (False, s1) \<Rightarrow> IsChannelEnabledForAnyGroupModel ce cache gs m i s1)"

text \<open>The distinct models of the enabled abilities, of one group or of all; a failed query gives none.\<close>

definition GetAllEnableAbilities :: "store \<Rightarrow> Ability list \<times> store" where
  "GetAllEnableAbilities s = (case find_all abilities s of (as, s1) \<Rightarrow> (filter ab_Enabled as, s1))"

definition GetGroupEnabledModels :: "string \<Rightarrow> store \<Rightarrow> string list \<times> store" where
  "GetGroupEnabledModels g s =
    (case find_all abilities s of (as, s1) \<Rightarrow> (remdups (map ab_Model (filter (\<lambda>a. ab_Group a = g \<and> ab_Enabled a) as)), s1))"

definition GetEnabledModels :: "store \<Rightarrow> string list \<times> store" where
  "GetEnabledModels s = (case find_all abilities s of (as, s1) \<Rightarrow> (remdups (map ab_Model (filter ab_Enabled as)), s1))"

section \<open>Status of a channel\<close>

definition update_cached_status ::
    "env \<Rightarrow> channel_env \<Rightarrow> int \<Rightarrow> string \<Rightarrow> int \<Rightarrow> string \<Rightarrow> ChannelCache \<Rightarrow> bool \<times> ChannelCache" where
  "update_cached_status env ce i usingKey status reason cache =
    (case channelsIDM cache i of
       None \<Rightarrow> (False, cache)
     | Some ch \<Rightarrow>
        if ci_IsMultiKey (ch_ChannelInfo ch) then
          let ch' = handlerMultiKeyUpdate env ce usingKey status reason ch;
              cache' = cache\<lparr>channelsIDM := (channelsIDM cache)(i \<mapsto> ch')\<rparr>
          in (True, if ch_Status ch \<noteq> ch_Status ch' then CacheUpdateChannelStatus ce i (ch_Status ch') cache' else cache')
        else if ch_Status ch = status then (False, cache)
        else (True, CacheUpdateChannelStatus ce i status cache))"

definition UpdateChannelStatus ::
    "env \<Rightarrow> channel_env \<Rightarrow> int \<Rightarrow> string \<Rightarrow> int \<Rightarrow> string \<Rightarrow> ChannelCache \<Rightarrow> store \<Rightarrow> bool \<times> ChannelCache \<times> store" where
  "UpdateChannelStatus env ce i usingKey status reason cache s =
    (let (go, cache') = (if MemoryCacheEnabled ce then update_cached_status env ce i usingKey status reason cache else (True, cache)) in
     if \<not> go then (False, cache', s)
     else case update_status_row env ce i usingKey status reason s of (ok, s') \<Rightarrow> (ok, cache', s'))"

text \<open>\<open>FixAbility\<close> refreshes the cache at the end, unless it returned before.\<close>

definition FixAbility :: "channel_env \<Rightarrow> bool \<Rightarrow> ChannelCache \<Rightarrow> store \<Rightarrow> ((error + nat \<times> nat) \<times> ChannelCache \<times> store) option" where
  "FixAbility ce locked cache s =
    (case fix_rows locked s of
       (Inl e, s1) \<Rightarrow> Some (Inl e, cache, s1)
     | (Inr r, s1) \<Rightarrow>
        if channels (db s1) = [] then Some (Inr r, cache, s1)
        else map_option (\<lambda>(cache', s2). (Inr r, cache', s2)) (InitChannelCache ce cache s1))"

section \<open>Weighted choice\<close>

text \<open>The values of the random number that select an element are as many as its weight.\<close>

lemma pick_weighted_some:
  assumes "0 \<le> r" "r < sum_list (map w cs)"
  shows "\<exists>c \<in> set cs. pick_weighted w r cs = Some c"
  using assms by (induction cs arbitrary: r) auto

lemma pick_weighted_range:
  assumes "distinct cs" "c \<in> set cs" "\<And>d. d \<in> set cs \<Longrightarrow> 0 \<le> w d"
  shows "\<exists>a\<ge>0. a + w c \<le> sum_list (map w cs) \<and> (\<forall>r\<ge>0. pick_weighted w r cs = Some c \<longleftrightarrow> a \<le> r \<and> r < a + w c)"
  using assms
proof (induction cs)
  case (Cons d cs)
  have nonneg: "0 \<le> sum_list (map w cs)" using Cons.prems(3) by (intro sum_list_nonneg) auto
  show ?case
  proof (cases "c = d")
    case True
    have "d \<notin> set cs" using Cons.prems(1) by simp
    then have "pick_weighted w r cs \<noteq> Some d" for r
      by (induction cs arbitrary: r) auto
    with True nonneg show ?thesis by (intro exI [of _ 0]) auto
  next
    case False
    then have "c \<in> set cs" "distinct cs" using Cons.prems by simp_all
    then obtain a where a: "0 \<le> a" "a + w c \<le> sum_list (map w cs)"
      "\<And>r. 0 \<le> r \<Longrightarrow> pick_weighted w r cs = Some c \<longleftrightarrow> a \<le> r \<and> r < a + w c"
      using Cons.IH Cons.prems(3) by (metis list.set_intros(2))
    have "0 \<le> w d" using Cons.prems(3) by simp
    with a False show ?thesis by (intro exI [of _ "a + w d"]) auto
  qed
qed simp

lemma pick_weighted_card:
  assumes "distinct cs" "c \<in> set cs" "\<And>d. d \<in> set cs \<Longrightarrow> 0 \<le> w d" "sum_w = sum_list (map w cs)"
  shows "card {r \<in> {0..<sum_w}. pick_weighted w r cs = Some c} = nat (w c)"
proof -
  obtain a where a: "0 \<le> a" "a + w c \<le> sum_w"
    "\<And>r. 0 \<le> r \<Longrightarrow> pick_weighted w r cs = Some c \<longleftrightarrow> a \<le> r \<and> r < a + w c"
    using pick_weighted_range [of cs c w] assms by metis
  then have "{r \<in> {0..<sum_w}. pick_weighted w r cs = Some c} = {a..<a + w c}" by auto
  then show ?thesis by simp
qed

lemma effective_total:
  assumes "sumWeight = sum_list (map (\<lambda>c. int (GetWeight c)) cs)"
  shows "sum_list (map (effective_weight sumWeight (length cs)) cs) = totalWeight sumWeight (length cs)"
proof -
  have "sum_list (map (\<lambda>c. int (GetWeight c) * f + a) cs) = sum_list (map (\<lambda>c. int (GetWeight c)) cs) * f + int (length cs) * a" for f a
    by (induction cs) (simp_all add: algebra_simps)
  then show ?thesis
    by (simp add: effective_weight_def [abs_def] totalWeight_def smoothing_def flip: assms)
qed

lemma totalWeight_pos: "0 \<le> sumWeight \<Longrightarrow> 0 < n \<Longrightarrow> 0 < totalWeight sumWeight n"
  by (auto simp: totalWeight_def smoothing_def)

lemma effective_weight_nonneg: "0 \<le> effective_weight sumWeight n c"
  by (simp add: effective_weight_def smoothing_def)

lemma sum_list_sort_by: "sum_list (map (f :: 'a \<Rightarrow> int) (sort_by lt xs)) = sum_list (map f xs)"
  by (metis mset_map mset_sort_by sum_mset_sum_list)

lemma target_priority_in:
  assumes "ps \<noteq> []"
  shows "target_priority ps retry \<in> set ps"
proof -
  have "set (priorities_desc ps) \<noteq> {}" using assms by (simp add: priorities_desc_def)
  then have ne: "priorities_desc ps \<noteq> []" by auto
  have "target_priority ps retry \<in> set (priorities_desc ps)"
    using ne by (auto simp: target_priority_def Let_def intro!: nth_mem)
  then show ?thesis by (simp add: priorities_desc_def)
qed

definition at_target :: "Channel list \<Rightarrow> nat \<Rightarrow> Channel list" where
  "at_target chs retry = filter (\<lambda>c. GetPriority c = target_priority (map GetPriority chs) retry) chs"

definition weights :: "Channel list \<Rightarrow> int" where
  "weights chs = sum_list (map (\<lambda>c. int (GetWeight c)) chs)"

lemma at_target_ne: "chs \<noteq> [] \<Longrightarrow> at_target chs retry \<noteq> []"
  using target_priority_in [of "map GetPriority chs" retry] by (auto simp: at_target_def filter_empty_conv)

lemma select_weighted_eq:
  assumes "chs \<noteq> []" "cs = at_target chs retry"
  shows "select_weighted rnd chs retry =
    (case pick_weighted (effective_weight (weights cs) (length cs)) (rnd (totalWeight (weights cs) (length cs))) (sortChannelsForRouting cs) of
       Some c \<Rightarrow> (Some c, None) | None \<Rightarrow> (None, Some ErrChannelNotFound))"
  using at_target_ne [OF assms(1), of retry] assms(2)
  by (simp add: select_weighted_def Let_def weights_def at_target_def)

lemma select_weighted_exact:
  assumes ne: "chs \<noteq> []" and cs: "cs = at_target chs retry" and d: "distinct chs"
    and sum_w: "sum_w = totalWeight (weights cs) (length cs)"
  shows "0 < sum_w"
    and "\<lbrakk>0 \<le> rnd sum_w; rnd sum_w < sum_w\<rbrakk> \<Longrightarrow> \<exists>c \<in> set cs. select_weighted rnd chs retry = (Some c, None)"
    and "c \<in> set cs \<Longrightarrow> card {r \<in> {0..<sum_w}. select_weighted (\<lambda>n. r mod n) chs retry = (Some c, None)} =
           nat (effective_weight (weights cs) (length cs) c)"
proof -
  let ?w = "effective_weight (weights cs) (length cs)" and ?cs = "sortChannelsForRouting cs"
  have sum: "sum_list (map ?w ?cs) = sum_w"
    by (simp add: sortChannelsForRouting_def sum_list_sort_by effective_total sum_w weights_def)
  have sel: "select_weighted rnd chs retry = (Some c, None) \<longleftrightarrow> pick_weighted ?w (rnd sum_w) ?cs = Some c" for rnd c
    by (auto simp: select_weighted_eq [OF ne cs] sum_w split: option.splits)
  have set: "set ?cs = set cs" "distinct ?cs" using d by (simp_all add: sortChannelsForRouting_def cs at_target_def)
  show "0 < sum_w" using at_target_ne [OF ne, of retry] cs
    by (auto simp: sum_w weights_def intro!: totalWeight_pos sum_list_nonneg)
  show "\<exists>c \<in> set cs. select_weighted rnd chs retry = (Some c, None)" if "0 \<le> rnd sum_w" "rnd sum_w < sum_w"
    using pick_weighted_some [of "rnd sum_w" ?w ?cs] that by (simp add: sel sum set)
  assume c: "c \<in> set cs"
  have "{r \<in> {0..<sum_w}. select_weighted (\<lambda>n. r mod n) chs retry = (Some c, None)} =
        {r \<in> {0..<sum_w}. pick_weighted ?w r ?cs = Some c}"
    by (auto simp: sel)
  then show "card {r \<in> {0..<sum_w}. select_weighted (\<lambda>n. r mod n) chs retry = (Some c, None)} = nat (?w c)"
    using pick_weighted_card [of ?cs c ?w sum_w] c set by (simp add: sum effective_weight_nonneg)
qed

lemma lookup_all_some:
  "map (channelsIDM cache) ids = map Some chs \<Longrightarrow> lookup_all (channelsIDM cache) ids = Inr chs"
  by (induction ids arbitrary: chs) (auto simp: Cons_eq_map_conv map_eq_Cons_conv)

lemma cached_selection_many:
  assumes "candidates ce cache g m path = ids" "1 < length ids" "map (channelsIDM cache) ids = map Some chs"
  shows "cached_selection ce rnd cache g m retry path = select_weighted rnd chs retry"
proof -
  obtain i j rest where "ids = i # j # rest" using assms(2) by (cases ids rule: remdups_adj.cases) auto
  then show ?thesis
    using assms(1) lookup_all_some [OF assms(3)] by (simp add: cached_selection_def del: lookup_all.simps)
qed

text \<open>
  C17. With the memory cache on and more than one candidate for a request, every random number gives a channel among those of the
  priority that the retry asks for, and of the \<open>sum_w\<close> random numbers exactly as many give a certain channel as
  its effective weight says.
\<close>

theorem selection_proportional_to_weight:
  assumes "MemoryCacheEnabled ce" "candidates ce cache g m path = ids" "1 < length ids"
    and "map (channelsIDM cache) ids = map Some chs" "distinct chs"
    and "cs = at_target chs retry" "sum_w = totalWeight (weights cs) (length cs)"
  shows "0 < sum_w \<and>
    (\<forall>rnd. 0 \<le> rnd sum_w \<and> rnd sum_w < sum_w \<longrightarrow>
       (\<exists>c \<in> set cs. GetRandomSatisfiedChannel ce rnd cache g m retry path s = ((Some c, None), s))) \<and>
    (\<forall>c \<in> set cs. card {r \<in> {0..<sum_w}. GetRandomSatisfiedChannel ce (\<lambda>n. r mod n) cache g m retry path s = ((Some c, None), s)} =
       nat (effective_weight (weights cs) (length cs) c))"
proof -
  have "chs \<noteq> []" using assms(3,4) by auto
  note exact = select_weighted_exact [OF this assms(6,5,7)]
  have eq: "GetRandomSatisfiedChannel ce rnd cache g m retry path s = (select_weighted rnd chs retry, s)" for rnd
    using assms(1) by (simp add: GetRandomSatisfiedChannel_def cached_selection_many [OF assms(2-4)])
  show ?thesis using exact by (simp add: eq)
qed

definition demo_cache :: ChannelCache where
  "demo_cache = \<lparr>group2model2channels = [''default'' \<mapsto> [''m'' \<mapsto> [1, 2]]],
     channelsIDM = [1 \<mapsto> demo_channel 1 ''t'', 2 \<mapsto> demo_channel 2 ''u''], channel2advancedCustomConfig = Map.empty\<rparr>"

lemma demo_at_target: "at_target [demo_channel 1 ''t'', demo_channel 2 ''u''] 0 = [demo_channel 1 ''t'', demo_channel 2 ''u'']"
  by (simp add: at_target_def target_priority_def priorities_desc_def GetPriority_def demo_channel_def)

lemma demo_weights: "weights [demo_channel 1 ''t'', demo_channel 2 ''u''] = 10"
  by (simp add: weights_def GetWeight_def demo_channel_def)

theorem selection_proportional_to_weight_witness:
  "card {r \<in> {0..<1000}. GetRandomSatisfiedChannel demo_channel_env (\<lambda>n. r mod n) demo_cache ''default'' ''m'' 0 [] demo_store =
      ((Some (demo_channel 1 ''t''), None), demo_store)} = 500"
proof -
  let ?cs = "[demo_channel 1 ''t'', demo_channel 2 ''u'']"
  have "candidates demo_channel_env demo_cache ''default'' ''m'' [] = [1, 2]"
    by (simp add: candidates_def filterChannelsByRequestPathAndModel_def cached_ids_def demo_cache_def)
  moreover have "map (channelsIDM demo_cache) [1, 2] = map Some ?cs" by (simp add: demo_cache_def)
  moreover have "distinct ?cs" by (simp add: demo_channel_def)
  moreover have "1000 = totalWeight (weights ?cs) (length ?cs)"
    by (simp add: demo_weights totalWeight_def smoothing_def)
  moreover have "MemoryCacheEnabled demo_channel_env" by (simp add: demo_channel_env_def)
  ultimately show ?thesis
    using selection_proportional_to_weight [of demo_channel_env demo_cache "''default''" "''m''" "[]" "[1, 2]" ?cs ?cs 0 1000 demo_store]
    by (simp add: demo_at_target demo_weights effective_weight_def smoothing_def) (simp add: GetWeight_def demo_channel_def)
qed

section \<open>Keys are served in turn\<close>

lemma poll_reaches:
  assumes "key_enabled st (int ((p + d) mod n))" "d < k"
  shows "\<exists>e \<le> d. poll st n p k = Some ((p + e) mod n) \<and> key_enabled st (int ((p + e) mod n))"
  using assms
proof (induction st n p k arbitrary: d rule: poll.induct)
  case (2 st n p k)
  show ?case
  proof (cases "key_enabled st (int (p mod n))")
    case False
    then obtain d' where d: "d = Suc d'" using 2(2) by (cases d) auto
    then obtain e where "e \<le> d'" "poll st n (Suc p) k = Some ((Suc p + e) mod n)" "key_enabled st (int ((Suc p + e) mod n))"
      using 2(1) [OF False, of d'] 2(2,3) by auto
    then show ?thesis using False d by (intro exI [of _ "Suc e"]) simp
  qed (auto intro: exI [of _ 0])
qed simp

text \<open>The state that a polling call depends on: the channel of the cache, up to its polling index.\<close>

definition polling_channel :: "channel_env \<Rightarrow> int \<Rightarrow> string list \<Rightarrow> (int \<rightharpoonup> int) \<Rightarrow> nat \<Rightarrow> ChannelCache \<Rightarrow> bool" where
  "polling_channel ce i keys st p cache \<longleftrightarrow>
     (\<exists>ch. channelsIDM cache i = Some ch \<and> ch_Id ch = i \<and> ci_IsMultiKey (ch_ChannelInfo ch) \<and>
        ci_MultiKeyMode (ch_ChannelInfo ch) = ''polling'' \<and> GetKeys ce ch = keys \<and>
        ci_MultiKeyStatusList (ch_ChannelInfo ch) = st \<and> start_index (ci_MultiKeyPollingIndex (ch_ChannelInfo ch)) (length keys) = p)"

lemma GetKeys_info [simp]: "GetKeys ce (ch\<lparr>ch_ChannelInfo := ci\<rparr>) = GetKeys ce ch"
  by (simp add: GetKeys_def Let_def split: option.splits)

lemma polling_call:
  assumes mem: "MemoryCacheEnabled ce" and ch: "polling_channel ce i keys st p cache"
    and j: "j < length keys" "key_enabled st (int j)" and d: "(p + d) mod length keys = j" "d < length keys"
  shows "\<exists>e \<le> d. \<exists>cache'. next_cached_key ce rnd i cache s =
      (Inr (keys ! ((p + e) mod length keys), (p + e) mod length keys), cache', s) \<and>
      polling_channel ce i keys st ((p + e + 1) mod length keys) cache'"
proof -
  obtain c where c: "channelsIDM cache i = Some c" "ch_Id c = i" "ci_IsMultiKey (ch_ChannelInfo c)"
    "ci_MultiKeyMode (ch_ChannelInfo c) = ''polling''" "GetKeys ce c = keys" "ci_MultiKeyStatusList (ch_ChannelInfo c) = st"
    "start_index (ci_MultiKeyPollingIndex (ch_ChannelInfo c)) (length keys) = p"
    using ch by (auto simp: polling_channel_def)
  obtain e where e: "e \<le> d" "poll st (length keys) p (length keys) = Some ((p + e) mod length keys)"
    using poll_reaches [of st p d "length keys" "length keys"] j d by auto
  have "keys \<noteq> []" using j by auto
  moreover have "enabled_keys st keys \<noteq> []" using j by (auto simp: enabled_keys_def filter_empty_conv)
  moreover have "start_index (int (q mod length keys)) (length keys) = q mod length keys" for q
  proof -
    have "q mod length keys < length keys" using \<open>keys \<noteq> []\<close> by (intro mod_less_divisor) simp
    then show ?thesis by (simp add: start_index_def not_le)
  qed
  ultimately show ?thesis
    using mem c e
    by (intro exI [of _ e])
       (simp add: next_cached_key_def CacheGetChannel_def GetNextEnabledKey_def CacheGetChannelInfo_def polling_channel_def
          mod_Suc_eq Let_def)
qed

text \<open>The results of consecutive calls.\<close>

fun key_calls :: "channel_env \<Rightarrow> (int \<Rightarrow> int) \<Rightarrow> int \<Rightarrow> nat \<Rightarrow> ChannelCache \<Rightarrow> store \<Rightarrow> (error + string \<times> nat) list" where
  "key_calls ce rnd i 0 cache s = []"
| "key_calls ce rnd i (Suc k) cache s =
    (case next_cached_key ce rnd i cache s of (r, cache', s') \<Rightarrow> r # key_calls ce rnd i k cache' s')"

lemma key_served:
  assumes "MemoryCacheEnabled ce" "polling_channel ce i keys st p cache"
    and "j < length keys" "key_enabled st (int j)" "(p + d) mod length keys = j" "d < length keys" "d < k"
  shows "Inr (keys ! j, j) \<in> set (key_calls ce rnd i k cache s)"
  using assms(2,5-)
proof (induction d arbitrary: p cache k rule: less_induct)
  case (less d)
  obtain e cache' where e: "e \<le> d" "next_cached_key ce rnd i cache s =
      (Inr (keys ! ((p + e) mod length keys), (p + e) mod length keys), cache', s)"
    "polling_channel ce i keys st ((p + e + 1) mod length keys) cache'"
    using polling_call [OF assms(1) less.prems(1) assms(3,4) less.prems(2,3)] by blast
  obtain k' where k: "k = Suc k'" using less.prems(4) by (cases k) auto
  show ?case
  proof (cases "e = d")
    case True
    then show ?thesis using e k less.prems(2) by simp
  next
    case False
    then have "d - e - 1 < d" "d - e - 1 < k'" "d - e - 1 < length keys" using e(1) k less.prems by auto
    moreover have "((p + e + 1) mod length keys + (d - e - 1)) mod length keys = j"
    proof -
      have "p + e + 1 + (d - e - 1) = p + d" using e(1) False by simp
      then show ?thesis using less.prems(2) by (simp only: mod_add_left_eq)
    qed
    ultimately have "Inr (keys ! j, j) \<in> set (key_calls ce rnd i k' cache' s)"
      using less.IH e(3) by blast
    then show ?thesis using e(2) k by simp
  qed
qed

text \<open>Whatever the mode, the key that is returned is enabled.\<close>

lemma poll_enabled: "poll st n p k = Some i \<Longrightarrow> 0 < n \<Longrightarrow> i < n \<and> key_enabled st (int i)"
  by (induction st n p k rule: poll.induct) (auto split: if_splits)

lemma enabled_keys_nth: "k < length (enabled_keys st keys) \<Longrightarrow>
   enabled_keys st keys ! k < length keys \<and> key_enabled st (int (enabled_keys st keys ! k))"
  using nth_mem [of k "enabled_keys st keys"] by (auto simp: enabled_keys_def)

lemma key_enabled_or_error:
  assumes "GetNextEnabledKey ce rnd cache ch s = (Inr (key, idx), ch', s')" "ci_IsMultiKey (ch_ChannelInfo ch)"
    "\<And>n. 0 < n \<Longrightarrow> 0 \<le> rnd n \<and> rnd n < n"
  shows "idx < length (GetKeys ce ch) \<and> key = GetKeys ce ch ! idx \<and> key_enabled (ci_MultiKeyStatusList (ch_ChannelInfo ch)) (int idx)"
proof -
  let ?keys = "GetKeys ce ch" and ?st = "ci_MultiKeyStatusList (ch_ChannelInfo ch)"
  have hd: "hd (enabled_keys ?st ?keys) < length ?keys \<and> key_enabled ?st (int (hd (enabled_keys ?st ?keys)))"
    if "enabled_keys ?st ?keys \<noteq> []"
    using enabled_keys_nth [of 0 ?st ?keys] that by (simp add: hd_conv_nth)
  have rnd: "nat (rnd (int (length xs))) < length xs" if "xs \<noteq> []" for xs :: "nat list"
    using assms(3) [of "int (length xs)"] that by auto
  show ?thesis
    using assms(1,2) hd enabled_keys_nth [OF rnd]
    by (auto simp: GetNextEnabledKey_def Let_def dest!: poll_enabled split: if_splits prod.splits sum.splits option.splits)
qed

text \<open>
  C19. A channel that polls its keys serves every enabled key within as many calls as it has keys, from whatever position
  the polling starts, and in every mode a returned key is an enabled one.
\<close>

theorem every_enabled_key_served:
  assumes "MemoryCacheEnabled ce" "channelsIDM cache i = Some ch" "ch_Id ch = i" "ci_IsMultiKey (ch_ChannelInfo ch)"
    "ci_MultiKeyMode (ch_ChannelInfo ch) = ''polling''" "j < length (GetKeys ce ch)"
    "key_enabled (ci_MultiKeyStatusList (ch_ChannelInfo ch)) (int j)"
  shows "Inr (GetKeys ce ch ! j, j) \<in> set (key_calls ce rnd i (length (GetKeys ce ch)) cache s) \<and>
    (\<forall>rnd' cache' ch' key idx ch'' s' s''.
       GetNextEnabledKey ce rnd' cache' ch' s' = (Inr (key, idx), ch'', s'') \<and> ci_IsMultiKey (ch_ChannelInfo ch') \<and>
       (\<forall>n > 0. 0 \<le> rnd' n \<and> rnd' n < n) \<longrightarrow>
       key_enabled (ci_MultiKeyStatusList (ch_ChannelInfo ch')) (int idx))"
proof (intro conjI allI impI)
  let ?n = "length (GetKeys ce ch)"
  let ?p = "start_index (ci_MultiKeyPollingIndex (ch_ChannelInfo ch)) ?n"
  have p: "?p < ?n" using assms(6) by (auto simp: start_index_def)
  have "(?p + (j + ?n - ?p) mod ?n) mod ?n = (?p + (j + ?n - ?p)) mod ?n" by (simp add: mod_add_right_eq)
  also have "\<dots> = j" using p assms(6) by simp
  finally show "Inr (GetKeys ce ch ! j, j) \<in> set (key_calls ce rnd i ?n cache s)"
    using assms p by (intro key_served [where d = "(j + ?n - ?p) mod ?n" and p = ?p]) (auto simp: polling_channel_def intro!: mod_less_divisor)
qed (use key_enabled_or_error in blast)

definition demo_polling :: Channel where
  "demo_polling = (demo_channel 1 ''t'')\<lparr>ch_Keys := [''a'', ''b'', ''c''],
     ch_ChannelInfo := (ch_ChannelInfo (demo_channel 1 ''t''))\<lparr>ci_IsMultiKey := True, ci_MultiKeyMode := ''polling'',
       ci_MultiKeySize := 3, ci_MultiKeyStatusList := [1 \<mapsto> 3], ci_MultiKeyPollingIndex := 1\<rparr>\<rparr>"

theorem every_enabled_key_served_witness:
  "Inr (''a'', 0) \<in> set (key_calls demo_channel_env (\<lambda>_. 0) 1 3 (demo_cache\<lparr>channelsIDM := [1 \<mapsto> demo_polling]\<rparr>) demo_store)"
proof -
  have "GetKeys demo_channel_env demo_polling = [''a'', ''b'', ''c'']"
    by (simp add: GetKeys_def demo_polling_def demo_channel_def)
  moreover have "MemoryCacheEnabled demo_channel_env" by (simp add: demo_channel_env_def)
  moreover have "ch_Id demo_polling = 1" "ci_IsMultiKey (ch_ChannelInfo demo_polling)"
    "ci_MultiKeyMode (ch_ChannelInfo demo_polling) = ''polling''" "ci_MultiKeyStatusList (ch_ChannelInfo demo_polling) = [1 \<mapsto> 3]"
    by (simp_all add: demo_polling_def demo_channel_def)
  ultimately show ?thesis
    using every_enabled_key_served [of demo_channel_env "demo_cache\<lparr>channelsIDM := [1 \<mapsto> demo_polling]\<rparr>" 1 demo_polling 0 "\<lambda>_. 0" demo_store]
    by (simp add: key_enabled_def numeral_3_eq_3)
qed

section \<open>The cache agrees with the abilities\<close>

definition listed_for :: "(string \<rightharpoonup> (string \<rightharpoonup> int list)) \<Rightarrow> string \<Rightarrow> string \<Rightarrow> int list" where
  "listed_for t g m = (case t g of None \<Rightarrow> [] | Some mm \<Rightarrow> (case mm m of None \<Rightarrow> [] | Some ids \<Rightarrow> ids))"

lemma cached_ids_listed: "cached_ids cache g m = listed_for (group2model2channels cache) g m"
  by (simp add: cached_ids_def listed_for_def)

lemma add_channel_ok:
  assumes "fst gm \<in> dom t"
  shows "\<exists>t'. add_channel i gm t = Some t' \<and> dom t' = dom t \<and>
     (\<forall>g m. listed_for t' g m = listed_for t g m @ (if (g, m) = gm then [i] else []))"
  using assms by (cases gm) (auto simp: add_channel_def listed_for_def split: option.splits)

lemma add_pairs_ok:
  assumes "fst ` set gms \<subseteq> dom t"
  shows "\<exists>t'. add_pairs i gms t = Some t' \<and> dom t' = dom t \<and>
     (\<forall>g m. set (listed_for t' g m) = set (listed_for t g m) \<union> (if (g, m) \<in> set gms then {i} else {}))"
  using assms
proof (induction gms arbitrary: t)
  case (Cons gm gms)
  obtain t1 where t1: "add_channel i gm t = Some t1" "dom t1 = dom t"
    "\<And>g m. listed_for t1 g m = listed_for t g m @ (if (g, m) = gm then [i] else [])"
    using add_channel_ok [of gm t i] Cons.prems by auto
  obtain t2 where "add_pairs i gms t1 = Some t2" "dom t2 = dom t1"
    "\<And>g m. set (listed_for t2 g m) = set (listed_for t1 g m) \<union> (if (g, m) \<in> set gms then {i} else {})"
    using Cons.IH [of t1] Cons.prems t1(2) by auto
  with t1 show ?case by auto
qed simp

lemma fill_cache_ok:
  assumes "\<And>c. c \<in> set chs \<Longrightarrow> ch_Status c = ChannelStatusEnabled \<Longrightarrow> fst ` set (cache_pairs c) \<subseteq> dom t"
  shows "\<exists>t'. fill_cache chs t = Some t' \<and>
     (\<forall>g m. set (listed_for t' g m) = set (listed_for t g m) \<union>
        {ch_Id c | c. c \<in> set chs \<and> ch_Status c = ChannelStatusEnabled \<and> (g, m) \<in> set (cache_pairs c)})"
  using assms
proof (induction chs arbitrary: t)
  case (Cons c chs)
  show ?case
  proof (cases "ch_Status c = ChannelStatusEnabled")
    case True
    obtain t1 where t1: "add_pairs (ch_Id c) (cache_pairs c) t = Some t1" "dom t1 = dom t"
      "\<And>g m. set (listed_for t1 g m) = set (listed_for t g m) \<union> (if (g, m) \<in> set (cache_pairs c) then {ch_Id c} else {})"
      using add_pairs_ok [of "cache_pairs c" t "ch_Id c"] Cons.prems [of c] True by auto
    obtain t2 where t2: "fill_cache chs t1 = Some t2"
      "\<And>g m. set (listed_for t2 g m) = set (listed_for t1 g m) \<union>
        {ch_Id c | c. c \<in> set chs \<and> ch_Status c = ChannelStatusEnabled \<and> (g, m) \<in> set (cache_pairs c)}"
      using Cons.IH [of t1] Cons.prems t1(2) by auto
    show ?thesis using True t1(1) t2(1) by (intro exI [of _ t2]) (auto simp: t1(3) t2(2))
  next
    case False
    then show ?thesis using Cons.IH [of t] Cons.prems by auto
  qed
qed simp

lemma sort_cache_listed: "set (listed_for (sort_cache idm t) g m) = set (listed_for t g m)"
  by (auto simp: listed_for_def sort_cache_def split: option.splits)

lemma cache_pairs_set: "set (cache_pairs c) = set (channel_pairs c)"
  by (auto simp: cache_pairs_def channel_pairs_def)

lemma unique_pairs_all:
  "p \<in> set ps \<Longrightarrow> (\<lambda>(g, m). g @ ''|'' @ m) p \<notin> set seen \<Longrightarrow>
   (\<lambda>(g, m). g @ ''|'' @ m) p \<in> (\<lambda>(g, m). g @ ''|'' @ m) ` set (unique_pairs seen ps)"
  by (induction seen ps rule: unique_pairs.induct) (auto simp: Let_def)

lemma unique_pairs_sub: "set (unique_pairs seen ps) \<subseteq> set ps"
  by (induction seen ps rule: unique_pairs.induct) (auto simp: Let_def)

lemma bar_injective:
  assumes "g @ d # m = g' @ d # m'" "d \<notin> set g" "d \<notin> set g'"
  shows "g = g' \<and> m = m'"
  using assms by (induction g arbitrary: g') (auto simp: Cons_eq_append_conv)

lemma unique_pairs_set:
  assumes "CHR ''|'' \<notin> set (ch_Group c)"
  shows "set (unique_pairs [] (channel_pairs c)) = set (channel_pairs c)"
proof
  have bar: "CHR ''|'' \<notin> set g" if "(g, m) \<in> set (channel_pairs c)" for g m
    using that assms Split_pieces [of g "ch_Group c" "CHR '',''"] by (auto simp: channel_pairs_def)
  show "set (channel_pairs c) \<subseteq> set (unique_pairs [] (channel_pairs c))"
  proof
    fix p assume p: "p \<in> set (channel_pairs c)"
    obtain g m where gm: "p = (g, m)" by (cases p)
    obtain g' m' where g': "(g', m') \<in> set (unique_pairs [] (channel_pairs c))" "g @ ''|'' @ m = g' @ ''|'' @ m'"
      using unique_pairs_all [OF p, of "[]"] gm by auto
    then have "(g', m') \<in> set (channel_pairs c)" using unique_pairs_sub by blast
    then have "g = g' \<and> m = m'" using bar_injective [of g "CHR ''|''" m g' m'] g'(2) bar p gm by auto
    then show "p \<in> set (unique_pairs [] (channel_pairs c))" using g' gm by simp
  qed
qed (rule unique_pairs_sub)

lemma serving_channel:
  assumes ok: "abilities_ok {} s" and c: "c \<in> set (channels (db s))" and bar: "CHR ''|'' \<notin> set (ch_Group c)"
  shows "ch_Id c \<in> ab_ChannelId ` set (serving g m (abilities (db s))) \<longleftrightarrow>
     ch_Status c = ChannelStatusEnabled \<and> (g, m) \<in> set (cache_pairs c)"
proof -
  have "ch_Id c \<in> ab_ChannelId ` set (serving g m (abilities (db s))) \<longleftrightarrow>
      (\<exists>a \<in> set (own (ch_Id c) (abilities (db s))). ab_Group a = g \<and> ab_Model a = m \<and> ab_Enabled a)"
    by (auto simp: serving_def own_def image_iff)
  also have "\<dots> \<longleftrightarrow> (\<exists>a \<in> set (ability_rows c). ab_Group a = g \<and> ab_Model a = m \<and> ab_Enabled a)"
    using abilities_okD(4) [OF ok c] by simp
  also have "\<dots> \<longleftrightarrow> ch_Status c = ChannelStatusEnabled \<and> (g, m) \<in> set (cache_pairs c)"
    by (auto simp: ability_rows_def ability_of_def unique_pairs_set [OF bar] cache_pairs_set intro!: bexI [of _ "(g, m)"])
  finally show ?thesis .
qed

text \<open>Reading the settings of the channels may reset them, but changes nothing that routing looks at.\<close>

definition same_channel :: "Channel \<Rightarrow> Channel \<Rightarrow> bool" where
  "same_channel c' c \<longleftrightarrow> ch_Id c' = ch_Id c \<and> ch_Status c' = ch_Status c \<and> cache_pairs c' = cache_pairs c"

lemma advanced_config_quiet:
  assumes "faults s = []" "advanced_config ce ch s = (cfg, ch', s')"
  shows "same_channel ch' ch \<and> faults s' = [] \<and> abilities (db s') = abilities (db s)"
  using assms by (auto simp: advanced_config_def GetOtherSettings_def Channel_Save_def quiet same_channel_def cache_pairs_def Let_def
      split: if_splits prod.splits bool.splits)

lemma load_configs_quiet:
  assumes "faults s = []" "load_configs ce rows s = (chs, m, s')"
  shows "list_all2 same_channel chs rows \<and> faults s' = [] \<and> abilities (db s') = abilities (db s)"
  using assms
proof (induction rows arbitrary: s chs m s')
  case (Cons ch rows)
  obtain cfg ch' s1 where one: "advanced_config ce ch s = (cfg, ch', s1)" by (metis prod_cases3)
  obtain rest m' s2 where rest: "load_configs ce rows s1 = (rest, m', s2)" by (metis prod_cases3)
  have "same_channel ch' ch" "faults s1 = []" "abilities (db s1) = abilities (db s)"
    using advanced_config_quiet [OF Cons.prems(1) one] by simp_all
  then show ?case using Cons.IH [OF _ rest] Cons.prems(2) one rest by auto
qed simp

lemma by_id_dom: "dom (by_id chs) = ch_Id ` set chs"
proof (intro set_eqI)
  show "i \<in> dom (by_id chs) \<longleftrightarrow> i \<in> ch_Id ` set chs" for i
    by (force simp: by_id_def row_def find_None_iff domIff)
qed


lemma same_channel_in:
  assumes "list_all2 same_channel chs rows"
  shows "ch_Id ` set chs = ch_Id ` set rows"
    "{ch_Id c | c. c \<in> set chs \<and> ch_Status c = st \<and> p \<in> set (cache_pairs c)} =
     {ch_Id c | c. c \<in> set rows \<and> ch_Status c = st \<and> p \<in> set (cache_pairs c)}"
    "c \<in> set chs \<Longrightarrow> \<exists>d \<in> set rows. same_channel c d"
proof -
  show "ch_Id ` set chs = ch_Id ` set rows"
    using assms by (induction chs rows rule: list_all2_induct) (auto simp: same_channel_def)
  show "\<exists>d \<in> set rows. same_channel c d" if "c \<in> set chs"
    using assms that by (induction chs rows rule: list_all2_induct) auto
  have "(c \<in> set chs \<longrightarrow> (\<exists>d \<in> set rows. same_channel c d)) \<and> (c \<in> set rows \<longrightarrow> (\<exists>d \<in> set chs. same_channel d c))" for c
    using assms by (induction chs rows rule: list_all2_induct) auto
  then show "{ch_Id c | c. c \<in> set chs \<and> ch_Status c = st \<and> p \<in> set (cache_pairs c)} =
     {ch_Id c | c. c \<in> set rows \<and> ch_Status c = st \<and> p \<in> set (cache_pairs c)}"
    unfolding same_channel_def by (intro set_eqI) (smt (verit) mem_Collect_eq)
qed

lemma image_agree: "(\<And>c. c \<in> C \<Longrightarrow> f c \<in> A \<longleftrightarrow> P c) \<Longrightarrow> {f c | c. c \<in> C \<and> P c} = A \<inter> f ` C"
  by auto

definition served :: "store \<Rightarrow> string \<Rightarrow> string \<Rightarrow> int set" where
  "served s g m = ab_ChannelId ` set (serving g m (abilities (db s))) \<inter> ch_Id ` set (channels (db s))"

lemma InitChannelCache_ok:
  assumes ok: "abilities_ok {} s" "faults s = []" and mem: "MemoryCacheEnabled ce"
    and bar: "\<forall>c \<in> set (channels (db s)). CHR ''|'' \<notin> set (ch_Group c)"
  shows "\<exists>cache' s'. InitChannelCache ce cache s = Some (cache', s') \<and> faults s' = [] \<and>
     abilities (db s') = abilities (db s) \<and> dom (channelsIDM cache') = ch_Id ` set (channels (db s)) \<and>
     (\<forall>g m. set (cached_ids cache' g m) = served s g m)"
proof -
  obtain chs configs s2 where load: "load_configs ce (channels (db s)) s = (chs, configs, s2)" by (metis prod_cases3)
  note q = load_configs_quiet [OF ok(2) load]
  let ?empty = "\<lambda>g. if g \<in> ab_Group ` set (abilities (db s)) then Some (Map.empty :: string \<rightharpoonup> int list) else None"
  have groups: "fst ` set (cache_pairs c) \<subseteq> dom ?empty" if c: "c \<in> set chs" "ch_Status c = ChannelStatusEnabled" for c
  proof
    fix g assume "g \<in> fst ` set (cache_pairs c)"
    then obtain m where gm: "(g, m) \<in> set (cache_pairs c)" by auto
    obtain d where d: "d \<in> set (channels (db s))" "same_channel c d" using same_channel_in(3) q c by blast
    then have "ch_Id d \<in> ab_ChannelId ` set (serving g m (abilities (db s)))"
      using serving_channel [OF ok(1) d(1)] bar gm c(2) by (simp add: same_channel_def)
    then show "g \<in> dom ?empty" by (auto simp: serving_def)
  qed
  have none: "listed_for ?empty g m = []" for g m by (simp add: listed_for_def)
  obtain t where t: "fill_cache chs ?empty = Some t"
    "\<And>g m. set (listed_for t g m) = {ch_Id c | c. c \<in> set chs \<and> ch_Status c = ChannelStatusEnabled \<and> (g, m) \<in> set (cache_pairs c)}"
    using fill_cache_ok [of chs ?empty, OF groups] unfolding none by auto
  have "set (listed_for t g m) = served s g m" for g m
  proof -
    have "ch_Id c \<in> ab_ChannelId ` set (serving g m (abilities (db s))) \<longleftrightarrow>
        ch_Status c = ChannelStatusEnabled \<and> (g, m) \<in> set (cache_pairs c)" if "c \<in> set (channels (db s))" for c
      using serving_channel [OF ok(1) that] bar that by blast
    then show ?thesis unfolding t(2) same_channel_in(2) [OF conjunct1 [OF q]] served_def by (rule image_agree)
  qed
  moreover have "dom (by_id chs) = ch_Id ` set (channels (db s))"
    unfolding by_id_dom same_channel_in(1) [OF conjunct1 [OF q]] ..
  moreover have "dom (\<lambda>i. map_option f (by_id chs i)) = dom (by_id chs)" for f :: "Channel \<Rightarrow> Channel"
    by (auto simp: dom_def)
  moreover have "InitChannelCache ce cache s =
      Some (\<lparr>group2model2channels = sort_cache (by_id chs) t,
             channelsIDM = (\<lambda>i. map_option (keep_polling ce (channelsIDM cache)) (by_id chs i)),
             channel2advancedCustomConfig = configs\<rparr>, s2)"
    using mem ok(2) q load t(1) by (simp add: InitChannelCache_def find_all_def)
  ultimately show ?thesis
    using q by (intro exI conjI allI) (assumption | simp add: cached_ids_listed sort_cache_listed)+
qed

lemma has_serving_quiet:
  "faults s = [] \<Longrightarrow> has_serving g m i s = (i \<in> ab_ChannelId ` set (serving g m (abilities (db s))), s)"
  by (auto simp: has_serving_def filter_empty_conv)

lemma isChannelIDInList_iff: "isChannelIDInList ids i \<longleftrightarrow> i \<in> set ids"
  by (auto simp: isChannelIDInList_def list_ex_iff)



section \<open>When the refresh panics\<close>

lemma add_pairs_None: "add_pairs i gms t = None \<longleftrightarrow> \<not> fst ` set gms \<subseteq> dom t"
proof (induction gms arbitrary: t)
  case (Cons gm gms)
  show ?case
  proof (cases "fst gm \<in> dom t")
    case True
    then obtain t1 where "add_channel i gm t = Some t1" "dom t1 = dom t" using add_channel_ok [of gm t i] by blast
    with True Cons.IH [of t1] show ?thesis by simp
  next
    case False
    then have "add_channel i gm t = None" by (auto simp: add_channel_def domIff split: prod.splits)
    with False show ?thesis by simp
  qed
qed simp

lemma add_pairs_dom: "add_pairs i gms t = Some t' \<Longrightarrow> dom t' = dom t"
  using add_pairs_ok [of gms t i] add_pairs_None [of i gms t] by auto

lemma fill_cache_None:
  "fill_cache chs t = None \<longleftrightarrow> (\<exists>c \<in> set chs. ch_Status c = ChannelStatusEnabled \<and> \<not> fst ` set (cache_pairs c) \<subseteq> dom t)"
proof (induction chs arbitrary: t)
  case (Cons c chs)
  show ?case
  proof (cases "add_pairs (ch_Id c) (cache_pairs c) t")
    case None
    then have "\<not> fst ` set (cache_pairs c) \<subseteq> dom t" by (simp only: add_pairs_None not_False_eq_True)
    with None show ?thesis by (simp add: Cons.IH)
  next
    case (Some t1)
    then have "fst ` set (cache_pairs c) \<subseteq> dom t" using add_pairs_None [of "ch_Id c" "cache_pairs c" t] by simp
    with Some show ?thesis by (simp add: Cons.IH add_pairs_dom [OF Some])
  qed
qed simp

lemma cache_pairs_groups: "fst ` set (cache_pairs c) = set (Split (ch_Group c) (CHR '',''))"
proof -
  have "\<exists>m. m \<in> set (Split (ch_Models c) (CHR '',''))" using Split_nonempty [of "ch_Models c"] by (meson last_in_set)
  then show ?thesis by (force simp: cache_pairs_def)
qed

lemma load_configs_plain:
  "\<forall>c \<in> set rows. ch_Type c \<noteq> ChannelTypeAdvancedCustom \<Longrightarrow> load_configs ce rows s = (rows, Map.empty, s)"
  by (induction rows) (simp_all add: advanced_config_def)

text \<open>
  C35. When no channel is an advanced custom one, refreshing the cache panics exactly when an enabled channel
  lists a group for which no ability was read.  So one failed read of the abilities panics whenever a channel is enabled.
\<close>

theorem cache_refresh_panics:
  assumes "MemoryCacheEnabled ce" "\<forall>c \<in> set (channels (db s)). ch_Type c \<noteq> ChannelTypeAdvancedCustom"
    and "find_all channels s = (chs, s1)" "find_all abilities s1 = (as, s2)"
  shows "(InitChannelCache ce cache s = None \<longleftrightarrow>
       (\<exists>c \<in> set chs. ch_Status c = ChannelStatusEnabled \<and> \<not> set (Split (ch_Group c) (CHR '','')) \<subseteq> ab_Group ` set as)) \<and>
    (faults s = False # True # fs \<and> (\<exists>c \<in> set (channels (db s)). ch_Status c = ChannelStatusEnabled) \<longrightarrow>
       InitChannelCache ce cache s = None)"
proof -
  have chs: "set chs \<subseteq> set (channels (db s))"
    using assms(3) by (auto simp: find_all_def split: prod.splits bool.splits dest: stmt_eqD(1))
  then have "load_configs ce chs s1 = (chs, Map.empty, s1)" using assms(2) by (intro load_configs_plain) auto
  moreover have "dom (\<lambda>g. if g \<in> G then Some x else None) = G" for G :: "string set" and x :: "string \<rightharpoonup> int list"
    by (auto simp: dom_def)
  ultimately have iff: "InitChannelCache ce cache s = None \<longleftrightarrow>
       (\<exists>c \<in> set chs. ch_Status c = ChannelStatusEnabled \<and> \<not> set (Split (ch_Group c) (CHR '','')) \<subseteq> ab_Group ` set as)"
    using assms(1,3,4) fill_cache_None [of chs "\<lambda>g. if g \<in> ab_Group ` set as then Some Map.empty else None"]
    by (cases "fill_cache chs (\<lambda>g. if g \<in> ab_Group ` set as then Some Map.empty else None)")
       (simp_all add: InitChannelCache_def cache_pairs_groups)
  moreover have "as = [] \<and> chs = channels (db s)" if "faults s = False # True # fs"
    using that assms(3,4) by (auto simp: find_all_def stmt_def)
  ultimately show ?thesis by auto
qed

theorem cache_refresh_panics_witness:
  "InitChannelCache demo_channel_env demo_cache (demo_channels\<lparr>faults := [False, True]\<rparr>) = None"
proof -
  have "channels (db demo_channels) = [demo_channel 1 ''t'']" by (simp add: demo_channels_def)
  moreover have "ch_Type (demo_channel 1 ''t'') \<noteq> ChannelTypeAdvancedCustom" "ch_Status (demo_channel 1 ''t'') = ChannelStatusEnabled"
    by (simp_all add: demo_channel_def ChannelTypeAdvancedCustom_def ChannelStatusEnabled_def)
  moreover have "MemoryCacheEnabled demo_channel_env" by (simp add: demo_channel_env_def)
  ultimately show ?thesis
    using cache_refresh_panics [of demo_channel_env "demo_channels\<lparr>faults := [False, True]\<rparr>" _ _ _ _ demo_cache "[]"]
    by (cases "find_all channels (demo_channels\<lparr>faults := [False, True]\<rparr>)",
        cases "find_all abilities (snd (find_all channels (demo_channels\<lparr>faults := [False, True]\<rparr>)))") auto
qed

section \<open>Only enabled channels are selected\<close>

text \<open>The channels of the lists are cached under their identifier, are enabled, and are listed once.\<close>

definition listed_ok :: "int set \<Rightarrow> ChannelCache \<Rightarrow> bool" where
  "listed_ok except cache \<longleftrightarrow>
     (\<forall>i c. channelsIDM cache i = Some c \<longrightarrow> ch_Id c = i) \<and>
     (\<forall>g m. distinct (cached_ids cache g m)) \<and>
     (\<forall>g m i. i \<in> set (cached_ids cache g m) \<longrightarrow>
        (\<exists>c. channelsIDM cache i = Some c \<and> (i \<in> except \<or> ch_Status c = ChannelStatusEnabled)))"

lemma listed_okI:
  assumes "\<And>i c. channelsIDM cache i = Some c \<Longrightarrow> ch_Id c = i" "\<And>g m. distinct (cached_ids cache g m)"
    "\<And>g m i. i \<in> set (cached_ids cache g m) \<Longrightarrow> \<exists>c. channelsIDM cache i = Some c \<and> (i \<in> except \<or> ch_Status c = ChannelStatusEnabled)"
  shows "listed_ok except cache"
  using assms by (simp add: listed_ok_def)

lemma listed_okD:
  assumes "listed_ok except cache"
  shows "channelsIDM cache i = Some c \<Longrightarrow> ch_Id c = i" "distinct (cached_ids cache g m)"
    "i \<in> set (cached_ids cache g m) \<Longrightarrow> \<exists>c. channelsIDM cache i = Some c \<and> (i \<in> except \<or> ch_Status c = ChannelStatusEnabled)"
  using assms by (simp_all add: listed_ok_def)

text \<open>The table that makes a refresh good: distinct identifiers, and no channel lists a model or group twice.\<close>

definition tidy :: "store \<Rightarrow> bool" where
  "tidy s \<longleftrightarrow> distinct (map ch_Id (channels (db s))) \<and> (\<forall>c \<in> set (channels (db s)). distinct (cache_pairs c))"

subsection \<open>Refresh\<close>

lemma add_channel_listed:
  "add_channel i gm t = Some t' \<Longrightarrow> listed_for t' g m = listed_for t g m @ (if (g, m) = gm then [i] else [])"
  using add_channel_ok [of gm t i] by (cases "fst gm \<in> dom t") (auto simp: add_channel_def domIff split: prod.splits)

lemma add_pairs_listed:
  "add_pairs i gms t = Some t' \<Longrightarrow> distinct gms \<Longrightarrow>
   listed_for t' g m = listed_for t g m @ (if (g, m) \<in> set gms then [i] else [])"
  by (induction gms arbitrary: t) (auto simp: add_channel_listed split: bind_splits)

lemma fill_cache_listed:
  "fill_cache chs t = Some t' \<Longrightarrow> \<forall>c \<in> set chs. distinct (cache_pairs c) \<Longrightarrow>
   listed_for t' g m = listed_for t g m @ map ch_Id (filter (\<lambda>c. ch_Status c = ChannelStatusEnabled \<and> (g, m) \<in> set (cache_pairs c)) chs)"
  by (induction chs arbitrary: t) (auto simp: add_pairs_listed split: bind_splits if_splits)

lemma sort_cache_distinct: "distinct (listed_for (sort_cache idm t) g m) = distinct (listed_for t g m)"
  by (auto simp: listed_for_def sort_cache_def split: option.splits)

lemma by_id_Id: "by_id chs i = Some c \<Longrightarrow> ch_Id c = i \<and> c \<in> set chs"
  by (auto simp: by_id_def dest: row_key row_mem)

lemma by_id_mem: "distinct (map ch_Id chs) \<Longrightarrow> c \<in> set chs \<Longrightarrow> by_id chs (ch_Id c) = Some c"
  using row_unique [of ch_Id "rev chs" c] by (simp add: by_id_def rev_map [symmetric])

lemma keep_polling_sel [simp]: "ch_Id (keep_polling ce old c) = ch_Id c" "ch_Status (keep_polling ce old c) = ch_Status c"
  by (simp_all add: keep_polling_def Let_def split: option.splits)

lemma save_tidy:
  assumes "tidy s" "distinct (cache_pairs c)" "same_channel r c"
  shows "tidy (set_channels (save_row ch_Id r) s)"
  using assms set_save_row [of ch_Id r "channels (db s)"]
  by (auto simp: tidy_def distinct_save_row same_channel_def)

lemma stmt_tidy: "stmt s = (b, s') \<Longrightarrow> tidy s' = tidy s"
  using stmt_eqD(1) [of s b s'] by (simp add: tidy_def)

lemma exec_stmt_tidy:
  assumes "tidy s" "\<And>s1. tidy s1 \<Longrightarrow> tidy (f s1)"
  shows "tidy (snd (exec_stmt f s))"
  using assms stmt_tidy [of s] by (auto simp: exec_stmt_def split: prod.splits bool.splits)

lemma advanced_config_tidy:
  assumes "tidy s" "distinct (cache_pairs ch)" "advanced_config ce ch s = (cfg, ch', s')"
  shows "same_channel ch' ch \<and> tidy s'"
proof -
  let ?c = "ch\<lparr>ch_OtherSettings := ''{}''\<rparr>"
  have "same_channel (stored ?c) ch" "same_channel ?c ch" "same_channel ch ch"
    by (simp_all add: same_channel_def stored_def cache_pairs_def)
  moreover from this have "tidy (snd (Channel_Save ?c s))"
    unfolding Channel_Save_def using assms(1,2) by (intro exec_stmt_tidy save_tidy)
  ultimately show ?thesis using assms
    by (auto simp: advanced_config_def GetOtherSettings_def Let_def split: if_splits prod.splits bool.splits)
qed

lemma load_configs_tidy:
  assumes "tidy s" "\<forall>c \<in> set rows. distinct (cache_pairs c)" "load_configs ce rows s = (chs, m, s')"
  shows "list_all2 same_channel chs rows \<and> tidy s'"
  using assms
proof (induction rows arbitrary: s chs m s')
  case (Cons ch rows)
  obtain cfg ch' s1 where one: "advanced_config ce ch s = (cfg, ch', s1)" by (metis prod_cases3)
  obtain rest m' s2 where rest: "load_configs ce rows s1 = (rest, m', s2)" by (metis prod_cases3)
  have "same_channel ch' ch" "tidy s1"
    using advanced_config_tidy [OF Cons.prems(1) _ one] Cons.prems(2) by simp_all
  then show ?case using Cons.IH [OF _ _ rest] Cons.prems(2,3) one rest by auto
qed simp

lemma same_channel_ids: "list_all2 same_channel chs rows \<Longrightarrow> map ch_Id chs = map ch_Id rows"
  by (induction chs rows rule: list_all2_induct) (simp_all add: same_channel_def)

lemma find_all_tidy:
  assumes "find_all tab s = (rows, s1)"
  shows "db s1 = db s" "tidy s1 = tidy s" "rows = tab (db s) \<or> rows = []"
  using assms by (auto simp: find_all_def tidy_def split: prod.splits bool.splits dest: stmt_eqD(1))

lemma refresh_listed_ok:
  assumes "MemoryCacheEnabled ce" "tidy s" "InitChannelCache ce cache s = Some (cache', s')"
  shows "listed_ok {} cache' \<and> tidy s'"
proof -
  obtain rows s1 where rows: "find_all channels s = (rows, s1)" by (metis surj_pair)
  obtain chs cfgs s2 where load: "load_configs ce rows s1 = (chs, cfgs, s2)" by (metis prod_cases3)
  obtain as s3 where as: "find_all abilities s2 = (as, s3)" by (metis surj_pair)
  let ?empty = "\<lambda>g. if g \<in> ab_Group ` set as then Some (Map.empty :: string \<rightharpoonup> int list) else None"
  obtain t where t: "fill_cache chs ?empty = Some t"
    and res: "cache' = \<lparr>group2model2channels = sort_cache (by_id chs) t,
       channelsIDM = (\<lambda>i. map_option (keep_polling ce (channelsIDM cache)) (by_id chs i)), channel2advancedCustomConfig = cfgs\<rparr>" "s' = s3"
    using assms(1,3) by (cases "fill_cache chs ?empty") (simp_all add: InitChannelCache_def rows load as)
  have rows_ok: "distinct (map ch_Id rows)" "\<forall>c \<in> set rows. distinct (cache_pairs c)"
    using find_all_tidy(3) [OF rows] assms(2) by (auto simp: tidy_def)
  note l = load_configs_tidy [OF _ rows_ok(2) load] 
  have chs: "list_all2 same_channel chs rows" "tidy s2" using l find_all_tidy(2) [OF rows] assms(2) by simp_all
  have ids: "distinct (map ch_Id chs)" using rows_ok(1) same_channel_ids [OF chs(1)] by simp
  have "distinct (cache_pairs c)" if "c \<in> set chs" for c
    using same_channel_in(3) [OF chs(1) that] rows_ok(2) by (auto simp: same_channel_def)
  then have ent: "listed_for t g m = map ch_Id (filter (\<lambda>c. ch_Status c = ChannelStatusEnabled \<and> (g, m) \<in> set (cache_pairs c)) chs)" for g m
    using fill_cache_listed [OF t, of g m] by (simp add: listed_for_def)
  have "listed_ok {} cache'"
  proof (rule listed_okI)
    show "ch_Id c = i" if "channelsIDM cache' i = Some c" for i c using that by (auto simp: res dest: by_id_Id)
    show "distinct (cached_ids cache' g m)" for g m
      using ids by (simp add: cached_ids_listed res sort_cache_distinct ent distinct_map_filter)
    show "\<exists>c. channelsIDM cache' i = Some c \<and> (i \<in> {} \<or> ch_Status c = ChannelStatusEnabled)"
      if "i \<in> set (cached_ids cache' g m)" for g m i
      using that by_id_mem [OF ids] by (auto simp: cached_ids_listed res sort_cache_listed ent)
  qed
  then show ?thesis using find_all_tidy(2) [OF as] chs(2) res(2) by simp
qed

subsection \<open>Changes of status\<close>

lemma CacheUpdateChannelStatus_listed:
  assumes "MemoryCacheEnabled ce" "listed_ok {i} cache" "channelsIDM cache i = Some c"
  shows "listed_ok {} (CacheUpdateChannelStatus ce i status cache)"
proof (rule listed_okI)
  let ?cache = "CacheUpdateChannelStatus ce i status cache"
  have ids: "cached_ids ?cache g m = (if status = ChannelStatusEnabled then cached_ids cache g m else remove1 i (cached_ids cache g m))" for g m
    using assms(1) by (simp add: CacheUpdateChannelStatus_def cached_ids_def Let_def split: option.splits)
  have idm: "channelsIDM ?cache = (channelsIDM cache)(i \<mapsto> c\<lparr>ch_Status := status\<rparr>)"
    using assms(1,3) by (simp add: CacheUpdateChannelStatus_def Let_def)
  show "ch_Id d = j" if "channelsIDM ?cache j = Some d" for j d
    using that listed_okD(1) [OF assms(2)] assms(3) by (auto simp: idm split: if_splits)
  show "distinct (cached_ids ?cache g m)" for g m using listed_okD(2) [OF assms(2)] by (simp add: ids)
  show "\<exists>d. channelsIDM ?cache j = Some d \<and> (j \<in> {} \<or> ch_Status d = ChannelStatusEnabled)"
    if "j \<in> set (cached_ids ?cache g m)" for g m j
  proof -
    have "j \<in> set (cached_ids cache g m)" using that set_remove1_subset [of i "cached_ids cache g m"] by (auto simp: ids split: if_splits)
    moreover have "j = i \<Longrightarrow> status = ChannelStatusEnabled"
      using that listed_okD(2) [OF assms(2), of g m] by (auto simp: ids split: if_splits)
    moreover note listed_okD(3) [OF assms(2), of j g m]
    ultimately show ?thesis unfolding idm by (cases "j = i") auto
  qed
qed

lemma put_listed:
  assumes "listed_ok {} cache" "channelsIDM cache i = Some c" "ch_Id c' = i" "ch_Status c' = ch_Status c \<or> i \<in> except"
  shows "listed_ok except (cache\<lparr>channelsIDM := (channelsIDM cache)(i \<mapsto> c')\<rparr>)"
proof (rule listed_okI)
  let ?cache = "cache\<lparr>channelsIDM := (channelsIDM cache)(i \<mapsto> c')\<rparr>"
  have ids: "cached_ids ?cache g m = cached_ids cache g m" for g m by (simp add: cached_ids_def)
  show "ch_Id d = j" if "channelsIDM ?cache j = Some d" for j d
    using that listed_okD(1) [OF assms(1)] assms(3) by (auto split: if_splits)
  show "distinct (cached_ids ?cache g m)" for g m using listed_okD(2) [OF assms(1)] by (simp add: ids)
  show "\<exists>d. channelsIDM ?cache j = Some d \<and> (j \<in> except \<or> ch_Status d = ChannelStatusEnabled)"
    if "j \<in> set (cached_ids ?cache g m)" for g m j
    using that listed_okD(3) [OF assms(1), of j g m] assms(2,4) by (auto simp: ids)
qed

lemma listed_ok_mono: "listed_ok {} cache \<Longrightarrow> listed_ok except cache"
  unfolding listed_ok_def by blast

lemma update_cached_status_listed:
  assumes "MemoryCacheEnabled ce" "listed_ok {} cache"
  shows "listed_ok {} (snd (update_cached_status env ce i key status reason cache))"
proof (cases "channelsIDM cache i")
  case (Some c)
  let ?c = "handlerMultiKeyUpdate env ce key status reason c"
  let ?cache = "cache\<lparr>channelsIDM := (channelsIDM cache)(i \<mapsto> ?c)\<rparr>"
  have id: "ch_Id ?c = i"
    using handlerMultiKeyUpdate_sel(1) [of env ce key status reason c] listed_okD(1) [OF assms(2) Some] by (simp add: same_routing_def)
  have "listed_ok {} (CacheUpdateChannelStatus ce i (ch_Status ?c) ?cache)"
    using put_listed [OF assms(2) Some id, of "{i}"] by (intro CacheUpdateChannelStatus_listed [OF assms(1)]) auto
  moreover have "listed_ok {} ?cache" if "ch_Status c = ch_Status ?c" using put_listed [OF assms(2) Some id] that by simp
  moreover have "listed_ok {} (CacheUpdateChannelStatus ce i status cache)"
    using CacheUpdateChannelStatus_listed [OF assms(1) listed_ok_mono [OF assms(2)] Some] .
  ultimately show ?thesis using assms(2) Some by (simp add: update_cached_status_def Let_def)
qed (use assms in \<open>simp add: update_cached_status_def\<close>)

lemma SaveWithoutKey_tidy:
  assumes "tidy s" "distinct (cache_pairs c)" "same_routing c' c"
  shows "tidy (snd (SaveWithoutKey c' s))"
proof (cases "ch_Id c' = 0")
  case False
  have "tidy (set_channels (\<lambda>rows. save_row ch_Id (keep_key c' rows) rows) s1)" if "tidy s1" for s1
  proof -
    have "cache_pairs (keep_key c' (channels (db s1))) = cache_pairs c"
      using assms(3) by (simp add: keep_key_def stored_def cache_pairs_def same_routing_def)
    then show ?thesis
      using that assms(2) set_save_row [of ch_Id "keep_key c' (channels (db s1))" "channels (db s1)"]
      by (auto simp: tidy_def distinct_save_row)
  qed
  then show ?thesis using assms(1) False by (auto simp: SaveWithoutKey_def intro!: exec_stmt_tidy)
qed (use assms(1) in \<open>simp add: SaveWithoutKey_def\<close>)

lemma UpdateAbilityStatus_tidy: "tidy s \<Longrightarrow> tidy (snd (UpdateAbilityStatus i b s))"
  unfolding UpdateAbilityStatus_def by (rule exec_stmt_tidy) (simp_all add: tidy_def)

lemma update_status_row_tidy:
  assumes "tidy s"
  shows "tidy (snd (update_status_row env ce i key status reason s))"
proof -
  obtain r s1 where get: "GetChannelById i True s = (r, s1)" by (metis surj_pair)
  have s1: "tidy s1" using get assms stmt_tidy [of s]
    by (auto simp: GetChannelById_def split: prod.splits bool.splits option.splits)
  show ?thesis
  proof (cases r)
    case (Inr c)
    have "c \<in> set (channels (db s1))"
      using get Inr by (auto simp: GetChannelById_def split: prod.splits bool.splits option.splits dest: row_mem)
    then have d: "distinct (cache_pairs c)" using s1 by (simp add: tidy_def)
    let ?c = "if ci_IsMultiKey (ch_ChannelInfo c) then handlerMultiKeyUpdate env ce key status reason c
              else (status_info env reason c)\<lparr>ch_Status := status\<rparr>"
    have "tidy (snd (SaveWithoutKey ?c s1))"
      using handlerMultiKeyUpdate_sel(1) [of env ce key status reason c]
      by (intro SaveWithoutKey_tidy [OF s1 d]) (simp add: same_routing_def)
    then show ?thesis using get Inr s1
      by (simp add: update_status_row_def Let_def case_prod_beta UpdateAbilityStatus_tidy)
  qed (use get s1 in \<open>simp add: update_status_row_def\<close>)
qed

lemma next_cached_key_listed:
  assumes "MemoryCacheEnabled ce" "listed_ok {} cache" "next_cached_key ce rnd i cache s = (r, cache', s')"
  shows "listed_ok {} cache' \<and> s' = s"
proof (cases "channelsIDM cache i")
  case (Some c)
  obtain r' c' s1 where key: "GetNextEnabledKey ce rnd cache c s = (r', c', s1)" by (metis prod_cases3)
  have "ch_Id c' = ch_Id c \<and> ch_Status c' = ch_Status c \<and> s1 = s"
    using key assms(1)
    by (auto simp: GetNextEnabledKey_def CacheGetChannelInfo_def Let_def split: if_splits option.splits)
  moreover have "cache' = cache\<lparr>channelsIDM := (channelsIDM cache)(i \<mapsto> c')\<rparr>" "s' = s1"
    using assms(1,3) Some key by (simp_all add: next_cached_key_def CacheGetChannel_def)
  ultimately show ?thesis
    using put_listed [OF assms(2) Some] listed_okD(1) [OF assms(2) Some] by simp
qed (use assms in \<open>auto simp: next_cached_key_def CacheGetChannel_def\<close>)

subsection \<open>Operations in sequence\<close>

datatype cache_op = Refresh | SetStatus int string int string | NextKey int

fun run_cache_op :: "env \<Rightarrow> channel_env \<Rightarrow> (int \<Rightarrow> int) \<Rightarrow> cache_op \<Rightarrow> ChannelCache \<times> store \<Rightarrow> (ChannelCache \<times> store) option" where
  "run_cache_op env ce rnd Refresh (cache, s) = InitChannelCache ce cache s"
| "run_cache_op env ce rnd (SetStatus i key status reason) (cache, s) = Some (snd (UpdateChannelStatus env ce i key status reason cache s))"
| "run_cache_op env ce rnd (NextKey i) (cache, s) = Some (snd (next_cached_key ce rnd i cache s))"

fun run_cache_ops :: "env \<Rightarrow> channel_env \<Rightarrow> (int \<Rightarrow> int) \<Rightarrow> cache_op list \<Rightarrow> ChannelCache \<times> store \<Rightarrow> (ChannelCache \<times> store) option" where
  "run_cache_ops env ce rnd [] st = Some st"
| "run_cache_ops env ce rnd (op # ops) st = Option.bind (run_cache_op env ce rnd op st) (run_cache_ops env ce rnd ops)"

lemma run_cache_op_listed:
  assumes "MemoryCacheEnabled ce" "listed_ok {} cache" "tidy s" "run_cache_op env ce rnd op (cache, s) = Some (cache', s')"
  shows "listed_ok {} cache' \<and> tidy s'"
proof (cases op)
  case Refresh
  then show ?thesis using refresh_listed_ok assms by simp
next
  case (SetStatus i key status reason)
  obtain go c1 where upd: "update_cached_status env ce i key status reason cache = (go, c1)" by (metis surj_pair)
  have "listed_ok {} c1" using update_cached_status_listed [OF assms(1,2), of env i key status reason] upd by simp
  then show ?thesis
    using assms(1,3,4) SetStatus update_status_row_tidy [OF assms(3), of env ce i key status reason]
    by (auto simp: UpdateChannelStatus_def upd case_prod_beta split: if_splits)
next
  case (NextKey i)
  obtain r c1 s1 where key: "next_cached_key ce rnd i cache s = (r, c1, s1)" by (metis prod_cases3)
  then show ?thesis using next_cached_key_listed [OF assms(1,2) key] NextKey assms(3,4) by simp
qed

lemma run_cache_ops_listed:
  "MemoryCacheEnabled ce \<Longrightarrow> listed_ok {} (fst st) \<Longrightarrow> tidy (snd st) \<Longrightarrow> run_cache_ops env ce rnd ops st = Some st' \<Longrightarrow>
   listed_ok {} (fst st') \<and> tidy (snd st')"
proof (induction ops arbitrary: st)
  case (Cons op ops)
  obtain st1 where st1: "run_cache_op env ce rnd op st = Some st1" "run_cache_ops env ce rnd ops st1 = Some st'"
    using Cons.prems(4) by (auto split: bind_splits)
  then have "listed_ok {} (fst st1) \<and> tidy (snd st1)"
    using run_cache_op_listed [of ce "fst st" "snd st" env rnd op "fst st1" "snd st1"] Cons.prems by simp
  then show ?case using Cons.IH st1(2) Cons.prems(1) by blast
qed simp

lemma candidates_listed: "i \<in> set (candidates ce cache g m path) \<Longrightarrow> \<exists>m'. i \<in> set (cached_ids cache g m')"
  by (auto simp: candidates_def Let_def filterChannelsByRequestPathAndModel_def split: if_splits)

lemma lookup_all_in: "lookup_all idm ids = Inr chs \<Longrightarrow> c \<in> set chs \<Longrightarrow> \<exists>i \<in> set ids. idm i = Some c"
  by (induction ids arbitrary: chs) (auto split: option.splits sum.splits)

lemma pick_weighted_in: "pick_weighted w r cs = Some c \<Longrightarrow> c \<in> set cs"
  by (induction cs arbitrary: r) (auto split: if_splits)

lemma select_weighted_in: "select_weighted rnd chs retry = (Some c, e) \<Longrightarrow> c \<in> set chs"
  by (auto simp: select_weighted_def Let_def sortChannelsForRouting_def split: if_splits option.splits dest!: pick_weighted_in)

lemma cached_selection_in:
  assumes "cached_selection ce rnd cache g m retry path = (Some c, e)"
  shows "\<exists>i \<in> set (candidates ce cache g m path). channelsIDM cache i = Some c"
proof (cases "candidates ce cache g m path" rule: remdups_adj.cases)
  case (3 i j rest)
  then obtain chs where "lookup_all (channelsIDM cache) (i # j # rest) = Inr chs" "select_weighted rnd chs retry = (Some c, e)"
    using assms by (auto simp: cached_selection_def simp del: lookup_all.simps split: sum.splits)
  then show ?thesis using lookup_all_in [of _ "i # j # rest" chs c] select_weighted_in 3 by metis
qed (use assms in \<open>auto simp: cached_selection_def split: option.splits\<close>)


lemma demo_cache_listed: "listed_ok {} demo_cache"
proof (rule listed_okI)
  have ids: "cached_ids demo_cache g m = (if g = ''default'' \<and> m = ''m'' then [1, 2] else [])" for g m
    by (simp add: cached_ids_def demo_cache_def)
  show "ch_Id c = i" if "channelsIDM demo_cache i = Some c" for i c
    using that by (auto simp: demo_cache_def demo_channel_def split: if_splits)
  show "distinct (cached_ids demo_cache g m)" for g m by (simp add: ids)
  show "\<exists>c. channelsIDM demo_cache i = Some c \<and> (i \<in> {} \<or> ch_Status c = ChannelStatusEnabled)"
    if "i \<in> set (cached_ids demo_cache g m)" for g m i
  proof -
    have "i = 1 \<or> i = 2" using that by (simp add: ids split: if_splits)
    then show ?thesis by (auto simp: demo_cache_def demo_channel_def ChannelStatusEnabled_def)
  qed
qed


section \<open>Selection in the database\<close>

lemma pick_ability_in: "0 < r \<Longrightarrow> r < weight_sum as \<Longrightarrow> pick_ability r as \<in> ab_ChannelId ` set as"
  by (induction as arbitrary: r) (auto simp: weight_sum_def)

text \<open>
  The choice in the database stops when the remaining weight is not positive, so that the first of
  several abilities is chosen by one random number more than its weight.
\<close>

theorem first_ability_favoured:
  assumes "distinct (map ab_ChannelId (a # as))" "as \<noteq> []"
  shows "card {r \<in> {0..<weight_sum (a # as)}. pick_ability r (a # as) = ab_ChannelId a} = ab_Weight a + 10 + 1"
proof -
  have ne: "pick_ability (r - (int (ab_Weight a) + 10)) as \<noteq> ab_ChannelId a"
    if "r < weight_sum (a # as)" "\<not> r - (int (ab_Weight a) + 10) \<le> 0" for r
    using pick_ability_in [of "r - (int (ab_Weight a) + 10)" as] that assms(1) by (auto simp: weight_sum_def)
  obtain b bs where "as = b # bs" using assms(2) by (cases as) auto
  then have "int (ab_Weight a) + 10 < weight_sum (a # as)"
    using sum_list_nonneg [of "map (\<lambda>a. int (ab_Weight a) + 10) bs"] by (fastforce simp: weight_sum_def)
  then have "{r \<in> {0..<weight_sum (a # as)}. pick_ability r (a # as) = ab_ChannelId a} = {0..<int (ab_Weight a) + 11}"
  proof (intro set_eqI iffI)
    fix r assume "r \<in> {r \<in> {0..<weight_sum (a # as)}. pick_ability r (a # as) = ab_ChannelId a}"
    then show "r \<in> {0..<int (ab_Weight a) + 11}" using ne [of r] by (cases "r - (int (ab_Weight a) + 10) \<le> 0") auto
  qed auto
  then show ?thesis by simp
qed

text \<open>
  A model that is served only under its normalised name is found with the memory cache and not found without it.
\<close>

theorem normalised_name_only_in_cache:
  assumes "MemoryCacheEnabled ce" "faults s = []" "serving g m (abilities (db s)) = []"
    and "cached_ids cache g m = []" "cached_ids cache g (FormatMatchingModelName m) = [i]" "channelsIDM cache i = Some ch"
  shows "fst (GetRandomSatisfiedChannel ce rnd cache g m 0 [] s) = (Some ch, None) \<and>
    fst (GetRandomSatisfiedChannel (ce\<lparr>MemoryCacheEnabled := False\<rparr>) rnd cache g m 0 [] s) = (None, None)"
  using assms
  by (simp add: GetRandomSatisfiedChannel_def cached_selection_def candidates_def filterChannelsByRequestPathAndModel_def
      GetChannel_def getChannelQuery_def filterAbilitiesByRequestPathAndModel_def order_abilities_def Let_def)

end
