(* ===== verification/Api_Error.thy ===== *)
theory Api_Error
  imports Go_Prelude
begin

text \<open>
  The error value of the relay (src/types/error.go): its constructors, its options and the
  predicates that decide whether a request is retried and a channel disabled.  An error is
  given by its text.  \<open>None\<close> is the nil pointer.  The rendering of an error for a client
  (\<open>ToOpenAIError\<close>, \<open>ToClaudeError\<close>) and the masking of its text are not modelled: they
  only format.
\<close>

section \<open>Values\<close>

text \<open>The code of an upstream error: missing, a string, or another value by what \<open>%v\<close> prints.\<close>

datatype any_code = NilCode | StringCode string | OtherCode string

record OpenAIError =
  oai_Message :: string
  oai_Type :: string
  oai_Param :: string
  oai_Code :: any_code
  oai_Metadata :: string

record ClaudeError =
  cla_Type :: string
  cla_Message :: string

datatype relay_error = NoRelayError | RelayOpenAI OpenAIError | RelayClaude ClaudeError

record NewAPIError =
  api_Err :: "string option"
  api_RelayError :: relay_error
  api_skipRetry :: bool
  api_recordErrorLog :: "bool option"
  api_errorType :: string
  api_errorCode :: string
  api_StatusCode :: int
  api_Metadata :: string

text \<open>An error passed up: a plain one, or one that wraps a \<open>NewAPIError\<close> (\<open>errors.As\<close>).\<close>

datatype go_error = Plain string | Wrapped NewAPIError

section \<open>Options\<close>

datatype NewAPIErrorOption =
    ErrOptionWithSkipRetry
  | ErrOptionWithNoRecordErrorLog
  | ErrOptionWithStatusCode int
  | ErrOptionWithHideErrMsg string

fun apply_option :: "NewAPIErrorOption \<Rightarrow> NewAPIError \<Rightarrow> NewAPIError" where
  "apply_option ErrOptionWithSkipRetry e = e\<lparr>api_skipRetry := True\<rparr>"
| "apply_option ErrOptionWithNoRecordErrorLog e = e\<lparr>api_recordErrorLog := Some False\<rparr>"
| "apply_option (ErrOptionWithStatusCode statusCode) e = e\<lparr>api_StatusCode := statusCode\<rparr>"
| "apply_option (ErrOptionWithHideErrMsg replaceStr) e = e\<lparr>api_Err := Some replaceStr\<rparr>"

definition apply_options :: "NewAPIErrorOption list \<Rightarrow> NewAPIError \<Rightarrow> NewAPIError" where
  "apply_options ops e = fold apply_option ops e"

section \<open>Texts\<close>

definition Error :: "NewAPIError option \<Rightarrow> string" where
  "Error e = (case e of None \<Rightarrow> '''' | Some e \<Rightarrow> (case api_Err e of None \<Rightarrow> api_errorCode e | Some msg \<Rightarrow> msg))"

definition ErrorWithStatusCode :: "NewAPIError option \<Rightarrow> string" where
  "ErrorWithStatusCode e =
    (case e of
       None \<Rightarrow> ''''
     | Some x \<Rightarrow>
         let msg = Error e
         in if api_StatusCode x = 0 then msg
            else if msg = '''' then ''status_code='' @ Itoa (api_StatusCode x)
            else ''status_code='' @ Itoa (api_StatusCode x) @ '', '' @ msg)"

definition SetMessage :: "string \<Rightarrow> NewAPIError \<Rightarrow> NewAPIError" where
  "SetMessage message e = e\<lparr>api_Err := Some message\<rparr>"

definition GetErrorCode :: "NewAPIError option \<Rightarrow> string" where
  "GetErrorCode e = (case e of None \<Rightarrow> '''' | Some e \<Rightarrow> api_errorCode e)"

definition GetErrorType :: "NewAPIError option \<Rightarrow> string" where
  "GetErrorType e = (case e of None \<Rightarrow> '''' | Some e \<Rightarrow> api_errorType e)"

section \<open>Constructors\<close>

definition NewError :: "go_error \<Rightarrow> string \<Rightarrow> NewAPIErrorOption list \<Rightarrow> NewAPIError" where
  "NewError err errorCode ops =
    (case err of
       Wrapped newErr \<Rightarrow> apply_options ops newErr
     | Plain msg \<Rightarrow>
         apply_options ops \<lparr>api_Err = Some msg, api_RelayError = NoRelayError, api_skipRetry = False,
           api_recordErrorLog = None, api_errorType = ''new_api_error'', api_errorCode = errorCode,
           api_StatusCode = 500, api_Metadata = ''''\<rparr>)"

definition go_error_text :: "go_error \<Rightarrow> string" where
  "go_error_text err = (case err of Plain msg \<Rightarrow> msg | Wrapped e \<Rightarrow> Error (Some e))"

definition NewErrorWithStatusCode :: "go_error \<Rightarrow> string \<Rightarrow> int \<Rightarrow> NewAPIErrorOption list \<Rightarrow> NewAPIError" where
  "NewErrorWithStatusCode err errorCode statusCode ops =
    apply_options ops \<lparr>api_Err = Some (go_error_text err),
      api_RelayError = RelayOpenAI \<lparr>oai_Message = go_error_text err, oai_Type = errorCode, oai_Param = '''',
        oai_Code = NilCode, oai_Metadata = ''''\<rparr>,
      api_skipRetry = False, api_recordErrorLog = None, api_errorType = ''new_api_error'',
      api_errorCode = errorCode, api_StatusCode = statusCode, api_Metadata = ''''\<rparr>"

definition code_text :: "any_code \<Rightarrow> string" where
  "code_text c = (case c of NilCode \<Rightarrow> ''unknown_error'' | StringCode t \<Rightarrow> t | OtherCode t \<Rightarrow> t)"

definition WithOpenAIError :: "OpenAIError \<Rightarrow> int \<Rightarrow> NewAPIErrorOption list \<Rightarrow> NewAPIError" where
  "WithOpenAIError openAIError statusCode ops =
    (let typed = (if oai_Type openAIError = '''' then openAIError\<lparr>oai_Type := ''upstream_error''\<rparr> else openAIError);
         full = (if oai_Metadata openAIError \<noteq> '''' then
                   typed\<lparr>oai_Message := oai_Message typed @ '' ('' @ oai_Metadata typed @ '')''\<rparr> else typed)
     in apply_options ops \<lparr>api_Err = Some (oai_Message full), api_RelayError = RelayOpenAI full,
          api_skipRetry = False, api_recordErrorLog = None, api_errorType = ''openai_error'',
          api_errorCode = code_text (oai_Code openAIError), api_StatusCode = statusCode,
          api_Metadata = oai_Metadata full\<rparr>)"

definition WithClaudeError :: "ClaudeError \<Rightarrow> int \<Rightarrow> NewAPIErrorOption list \<Rightarrow> NewAPIError" where
  "WithClaudeError claudeError statusCode ops =
    (let typed = (if cla_Type claudeError = '''' then claudeError\<lparr>cla_Type := ''upstream_error''\<rparr> else claudeError)
     in apply_options ops \<lparr>api_Err = Some (cla_Message typed), api_RelayError = RelayClaude typed,
          api_skipRetry = False, api_recordErrorLog = None, api_errorType = ''claude_error'',
          api_errorCode = cla_Type typed, api_StatusCode = statusCode, api_Metadata = ''''\<rparr>)"

definition NewOpenAIError :: "go_error \<Rightarrow> string \<Rightarrow> int \<Rightarrow> NewAPIErrorOption list \<Rightarrow> NewAPIError" where
  "NewOpenAIError err errorCode statusCode ops =
    (let openaiError = (\<lambda>msg. \<lparr>oai_Message = msg, oai_Type = errorCode, oai_Param = '''',
                               oai_Code = OtherCode errorCode, oai_Metadata = ''''\<rparr>)
     in case err of
          Wrapped newErr \<Rightarrow>
            apply_options ops
              (if api_RelayError newErr = NoRelayError
               then newErr\<lparr>api_RelayError := RelayOpenAI (openaiError (Error (Some newErr)))\<rparr> else newErr)
        | Plain msg \<Rightarrow> WithOpenAIError (openaiError msg) statusCode ops)"

definition InitOpenAIError :: "string \<Rightarrow> int \<Rightarrow> NewAPIErrorOption list \<Rightarrow> NewAPIError" where
  "InitOpenAIError errorCode statusCode ops =
    WithOpenAIError \<lparr>oai_Message = '''', oai_Type = errorCode, oai_Param = '''', oai_Code = OtherCode errorCode,
      oai_Metadata = ''''\<rparr> statusCode ops"

section \<open>Predicates\<close>

definition IsChannelError :: "NewAPIError option \<Rightarrow> bool" where
  "IsChannelError err = (case err of None \<Rightarrow> False | Some e \<Rightarrow> HasPrefix (api_errorCode e) ''channel:'')"

definition IsSkipRetryError :: "NewAPIError option \<Rightarrow> bool" where
  "IsSkipRetryError err = (case err of None \<Rightarrow> False | Some e \<Rightarrow> api_skipRetry e)"

definition IsRecordErrorLog :: "NewAPIError option \<Rightarrow> bool" where
  "IsRecordErrorLog err =
    (case err of
       None \<Rightarrow> False
     | Some e \<Rightarrow> (case api_recordErrorLog e of None \<Rightarrow> True | Some b \<Rightarrow> b))"

lemmas api_error_defs = NewError_def NewErrorWithStatusCode_def apply_options_def GetErrorCode_def
  IsSkipRetryError_def IsRecordErrorLog_def IsChannelError_def

lemma option_keeps [simp]:
  "api_errorCode (apply_option op e) = api_errorCode e" "api_errorType (apply_option op e) = api_errorType e"
  by (cases op; simp)+

lemma options_keep [simp]:
  "api_errorCode (apply_options ops e) = api_errorCode e" "api_errorType (apply_options ops e) = api_errorType e"
  by (induction ops arbitrary: e) (simp_all add: apply_options_def)

lemma skipRetry_option [simp]:
  "api_skipRetry (apply_options ops e) \<longleftrightarrow> api_skipRetry e \<or> ErrOptionWithSkipRetry \<in> set ops"
proof (induction ops arbitrary: e)
  case (Cons op ops)
  then show ?case by (cases op) (auto simp: apply_options_def)
qed (simp add: apply_options_def)

end
