(* ===== verification/Billing.thy ===== *)
theory Billing
  imports Api_Error Token_Auth Subscription_Admin
begin

text \<open>
  Billing of one request (src/service/billing_session.go, src/service/funding_source.go,
  src/service/billing.go, the quota functions of src/service/quota.go): a session reserves quota from a
  funding source and from the token before the request is sent upstream, settles the difference
  to the real cost afterwards, or gives everything back when the request failed.

  A funding source is the user's wallet or one of the user's subscriptions.  The session and the
  \<open>RelayInfo\<close> it points to are one value here, the session holding the fields of
  \<open>RelayInfo\<close> that billing reads and writes.  \<open>Refund\<close> hands its work to a
  goroutine: it returns the job, and \<open>run_refund\<close> is the goroutine's body.  A call that
  pre-consumes from a subscription may not return (see the theory of subscriptions), so
  the operations that do are options.  The mutex of the session makes every operation atomic.  Log
  lines are left out; the two quota notifications are effects.
\<close>

section \<open>Data\<close>

record RelayInfo =
  ri_TokenId :: int
  ri_TokenKey :: string
  ri_TokenUnlimited :: bool
  ri_UserId :: int
  ri_UserQuota :: int
  ri_IsPlayground :: bool
  ri_RequestId :: string
  ri_OriginModelName :: string
  ri_ForcePreConsume :: bool
  ri_BillingPreference :: string
  ri_QuotaClamp :: "QuotaClamp option"
  ri_FinalPreConsumedQuota :: int
  ri_BillingSource :: string
  ri_SubscriptionId :: int
  ri_SubscriptionPreConsumed :: int
  ri_SubscriptionPostDelta :: int
  ri_SubscriptionAmountTotal :: int
  ri_SubscriptionAmountUsedAfterPreConsume :: int
  ri_SubscriptionPlanId :: int
  ri_SubscriptionPlanTitle :: string

record WalletFunding =
  wf_userId :: int
  wf_consumed :: int

record SubscriptionFunding =
  sf_requestId :: string
  sf_userId :: int
  sf_modelName :: string
  sf_amount :: int
  sf_subscriptionId :: int
  sf_preConsumed :: int
  sf_AmountTotal :: int
  sf_AmountUsedAfter :: int
  sf_PlanId :: int
  sf_PlanTitle :: string

datatype FundingSource = Wallet WalletFunding | Subs SubscriptionFunding

record BillingSession =
  bs_relayInfo :: RelayInfo
  bs_funding :: FundingSource
  bs_preConsumedQuota :: int
  bs_tokenConsumed :: int
  bs_extraReserved :: int
  bs_trusted :: bool
  bs_fundingSettled :: bool
  bs_settled :: bool
  bs_refunded :: bool

section \<open>Funding sources\<close>

fun Source :: "FundingSource \<Rightarrow> string" where
  "Source (Wallet w) = ''wallet''"
| "Source (Subs f) = ''subscription''"

definition Wallet_PreConsume ::
    "env \<Rightarrow> WalletFunding \<Rightarrow> int \<Rightarrow> store \<Rightarrow> (error option \<times> WalletFunding) \<times> store" where
  "Wallet_PreConsume env w amount s =
    (if amount \<le> 0 then ((None, w), s)
     else case DecreaseUserQuota env (wf_userId w) amount False s of
       (Some e, s1) \<Rightarrow> ((Some e, w), s1)
     | (None, s1) \<Rightarrow> ((None, w\<lparr>wf_consumed := amount\<rparr>), s1))"

definition Wallet_Settle :: "env \<Rightarrow> WalletFunding \<Rightarrow> int \<Rightarrow> store \<Rightarrow> error option \<times> store" where
  "Wallet_Settle env w delta s =
    (if delta = 0 then (None, s)
     else if 0 < delta then DecreaseUserQuota env (wf_userId w) delta False s
     else IncreaseUserQuota env (wf_userId w) (- delta) False s)"

definition Wallet_Refund :: "env \<Rightarrow> WalletFunding \<Rightarrow> store \<Rightarrow> error option \<times> store" where
  "Wallet_Refund env w s =
    (if wf_consumed w \<le> 0 then (None, s) else IncreaseUserQuota env (wf_userId w) (wf_consumed w) False s)"

definition Subscription_PreConsume ::
    "env \<Rightarrow> SubscriptionFunding \<Rightarrow> store \<Rightarrow> ((error option \<times> SubscriptionFunding) \<times> store) option" where
  "Subscription_PreConsume env f s =
    (case PreConsumeUserSubscription env (sf_requestId f) (sf_userId f) (sf_amount f) s of
       None \<Rightarrow> None
     | Some (Inl e, s1) \<Rightarrow> Some ((Some e, f), s1)
     | Some (Inr res, s1) \<Rightarrow>
         (let f1 = f\<lparr>sf_subscriptionId := res_UserSubscriptionId res, sf_preConsumed := res_PreConsumed res,
                     sf_AmountTotal := res_AmountTotal res, sf_AmountUsedAfter := res_AmountUsedAfter res\<rparr>
          in case GetSubscriptionPlanInfoByUserSubscriptionId env (res_UserSubscriptionId res) s1 of
               (Inl _, s2) \<Rightarrow> Some ((None, f1), s2)
             | (Inr (planId, planTitle), s2) \<Rightarrow>
                 Some ((None, f1\<lparr>sf_PlanId := planId, sf_PlanTitle := planTitle\<rparr>), s2)))"

definition Subscription_Settle :: "env \<Rightarrow> SubscriptionFunding \<Rightarrow> int \<Rightarrow> store \<Rightarrow> error option \<times> store" where
  "Subscription_Settle env f delta s =
    (if delta = 0 then (None, s) else PostConsumeUserSubscriptionDelta env (sf_subscriptionId f) delta s)"

text \<open>At most three attempts; the pauses between them do not matter here.\<close>

fun refund_attempts :: "nat \<Rightarrow> (store \<Rightarrow> error option \<times> store) \<Rightarrow> error option \<Rightarrow> store \<Rightarrow> error option \<times> store" where
  "refund_attempts 0 fn lastErr s = (lastErr, s)"
| "refund_attempts (Suc n) fn lastErr s =
    (case fn s of
       (None, s1) \<Rightarrow> (None, s1)
     | (Some e, s1) \<Rightarrow> refund_attempts n fn (Some e) s1)"

definition refundWithRetry :: "(store \<Rightarrow> error option \<times> store) \<Rightarrow> store \<Rightarrow> error option \<times> store" where
  "refundWithRetry fn s = refund_attempts 3 fn None s"

definition Subscription_Refund :: "env \<Rightarrow> SubscriptionFunding \<Rightarrow> store \<Rightarrow> error option \<times> store" where
  "Subscription_Refund env f s =
    (if sf_preConsumed f \<le> 0 then (None, s)
     else refundWithRetry (RefundSubscriptionPreConsume env (sf_requestId f)) s)"

fun Funding_PreConsume ::
    "env \<Rightarrow> FundingSource \<Rightarrow> int \<Rightarrow> store \<Rightarrow> ((error option \<times> FundingSource) \<times> store) option" where
  "Funding_PreConsume env (Wallet w) amount s =
    (case Wallet_PreConsume env w amount s of ((e, w'), s1) \<Rightarrow> Some ((e, Wallet w'), s1))"
| "Funding_PreConsume env (Subs f) amount s =
    map_option (\<lambda>((e, f'), s1). ((e, Subs f'), s1)) (Subscription_PreConsume env f s)"

fun Funding_Settle :: "env \<Rightarrow> FundingSource \<Rightarrow> int \<Rightarrow> store \<Rightarrow> error option \<times> store" where
  "Funding_Settle env (Wallet w) delta s = Wallet_Settle env w delta s"
| "Funding_Settle env (Subs f) delta s = Subscription_Settle env f delta s"

fun Funding_Refund :: "env \<Rightarrow> FundingSource \<Rightarrow> store \<Rightarrow> error option \<times> store" where
  "Funding_Refund env (Wallet w) s = Wallet_Refund env w s"
| "Funding_Refund env (Subs f) s = Subscription_Refund env f s"

section \<open>Token quota\<close>

definition PreConsumeTokenQuota :: "env \<Rightarrow> RelayInfo \<Rightarrow> int \<Rightarrow> store \<Rightarrow> error option \<times> store" where
  "PreConsumeTokenQuota env relayInfo quota s =
    (if quota < 0 then (Some ErrNegativeQuota, s)
     else if ri_IsPlayground relayInfo then (None, s)
     else case GetTokenByKey env (ri_TokenKey relayInfo) False s of
       (Inl e, s1) \<Rightarrow> (Some e, s1)
     | (Inr token, s1) \<Rightarrow>
         if \<not> ri_TokenUnlimited relayInfo \<and> tok_RemainQuota token < quota
         then (Some (ErrTokenQuotaNotEnough (tok_RemainQuota token) quota), s1)
         else DecreaseTokenQuota env (ri_TokenId relayInfo) (ri_TokenKey relayInfo) quota s1)"

text \<open>Charge the token a positive difference, give it back a negative one.\<close>

definition adjust_token :: "env \<Rightarrow> RelayInfo \<Rightarrow> int \<Rightarrow> store \<Rightarrow> error option \<times> store" where
  "adjust_token env relayInfo delta s =
    (if 0 < delta then DecreaseTokenQuota env (ri_TokenId relayInfo) (ri_TokenKey relayInfo) delta s
     else IncreaseTokenQuota env (ri_TokenId relayInfo) (ri_TokenKey relayInfo) (- delta) s)"

section \<open>The session\<close>

definition Settle :: "env \<Rightarrow> int \<Rightarrow> BillingSession \<Rightarrow> store \<Rightarrow> (error option \<times> BillingSession) \<times> store" where
  "Settle env actualQuota b s =
    (if bs_settled b then ((None, b), s)
     else
       let delta = actualQuota - bs_preConsumedQuota b
       in if delta = 0 then ((None, b\<lparr>bs_settled := True\<rparr>), s)
          else case (if bs_fundingSettled b then (None, s) else Funding_Settle env (bs_funding b) delta s) of
            (Some e, s1) \<Rightarrow> ((Some e, b), s1)
          | (None, s1) \<Rightarrow>
              (let (tokenErr, s2) = (if ri_IsPlayground (bs_relayInfo b) then (None, s1)
                                     else adjust_token env (bs_relayInfo b) delta s1);
                   info = bs_relayInfo b;
                   info' = (if Source (bs_funding b) = ''subscription''
                            then info\<lparr>ri_SubscriptionPostDelta := ri_SubscriptionPostDelta info + delta\<rparr> else info)
               in ((tokenErr, b\<lparr>bs_relayInfo := info', bs_fundingSettled := True, bs_settled := True\<rparr>), s2)))"

definition needsRefundLocked :: "BillingSession \<Rightarrow> bool" where
  "needsRefundLocked b \<longleftrightarrow>
    \<not> (bs_settled b \<or> bs_refunded b \<or> bs_fundingSettled b) \<and>
    (0 < bs_tokenConsumed b \<or> (case bs_funding b of Subs f \<Rightarrow> 0 < sf_preConsumed f | Wallet _ \<Rightarrow> False))"

definition NeedsRefund :: "BillingSession \<Rightarrow> bool" where
  "NeedsRefund b = needsRefundLocked b"

definition GetPreConsumedQuota :: "BillingSession \<Rightarrow> int" where
  "GetPreConsumedQuota b = bs_preConsumedQuota b"

record refund_job =
  rj_tokenId :: int
  rj_tokenKey :: string
  rj_isPlayground :: bool
  rj_tokenConsumed :: int
  rj_extraReserved :: int
  rj_subscriptionId :: int
  rj_funding :: FundingSource

definition Refund :: "BillingSession \<Rightarrow> BillingSession \<times> refund_job option" where
  "Refund b =
    (if bs_settled b \<or> bs_refunded b \<or> \<not> needsRefundLocked b then (b, None)
     else (b\<lparr>bs_refunded := True\<rparr>,
           Some \<lparr>rj_tokenId = ri_TokenId (bs_relayInfo b), rj_tokenKey = ri_TokenKey (bs_relayInfo b),
                 rj_isPlayground = ri_IsPlayground (bs_relayInfo b), rj_tokenConsumed = bs_tokenConsumed b,
                 rj_extraReserved = bs_extraReserved b, rj_subscriptionId = ri_SubscriptionId (bs_relayInfo b),
                 rj_funding = bs_funding b\<rparr>))"

definition run_refund :: "env \<Rightarrow> refund_job \<Rightarrow> store \<Rightarrow> store" where
  "run_refund env j s =
    (let s1 = snd (Funding_Refund env (rj_funding j) s);
         s2 = (if 0 < rj_extraReserved j \<and> Source (rj_funding j) = ''subscription'' \<and> 0 < rj_subscriptionId j
               then snd (PostConsumeUserSubscriptionDelta env (rj_subscriptionId j) (- rj_extraReserved j) s1) else s1)
     in if 0 < rj_tokenConsumed j \<and> \<not> rj_isPlayground j
        then snd (IncreaseTokenQuota env (rj_tokenId j) (rj_tokenKey j) (rj_tokenConsumed j) s2) else s2)"

definition syncRelayInfo :: "BillingSession \<Rightarrow> BillingSession" where
  "syncRelayInfo b =
    (let info = (bs_relayInfo b)\<lparr>ri_FinalPreConsumedQuota := bs_preConsumedQuota b,
                                 ri_BillingSource := Source (bs_funding b)\<rparr>
     in b\<lparr>bs_relayInfo :=
       (case bs_funding b of
          Subs f \<Rightarrow> info\<lparr>ri_SubscriptionId := sf_subscriptionId f,
                         ri_SubscriptionPreConsumed := sf_preConsumed f + bs_extraReserved b,
                         ri_SubscriptionPostDelta := 0,
                         ri_SubscriptionAmountTotal := sf_AmountTotal f,
                         ri_SubscriptionAmountUsedAfterPreConsume := sf_AmountUsedAfter f + bs_extraReserved b,
                         ri_SubscriptionPlanId := sf_PlanId f,
                         ri_SubscriptionPlanTitle := sf_PlanTitle f\<rparr>
        | Wallet _ \<Rightarrow> info\<lparr>ri_SubscriptionId := 0, ri_SubscriptionPreConsumed := 0\<rparr>)\<rparr>)"

section \<open>Reserving more\<close>

definition plain :: "env \<Rightarrow> error \<Rightarrow> go_error" where
  "plain env e = Plain (error_text env e)"

definition reserveFunding ::
    "env \<Rightarrow> int \<Rightarrow> BillingSession \<Rightarrow> store \<Rightarrow> (NewAPIError option \<times> BillingSession) \<times> store" where
  "reserveFunding env delta b s =
    (case bs_funding b of
       Wallet w \<Rightarrow>
         (case DecreaseUserQuota env (wf_userId w) delta False s of
            (Some e, s1) \<Rightarrow> ((Some (NewError (plain env e) ''update_data_error'' [ErrOptionWithSkipRetry]), b), s1)
          | (None, s1) \<Rightarrow> ((None, b\<lparr>bs_funding := Wallet (w\<lparr>wf_consumed := wf_consumed w + delta\<rparr>)\<rparr>), s1))
     | Subs f \<Rightarrow>
         (case PostConsumeUserSubscriptionDelta env (sf_subscriptionId f) delta s of
            (Some e, s1) \<Rightarrow>
              ((Some (NewErrorWithStatusCode (plain env (ErrSubscriptionUnavailable e)) ''insufficient_user_quota'' 403
                   [ErrOptionWithSkipRetry, ErrOptionWithNoRecordErrorLog]), b), s1)
          | (None, s1) \<Rightarrow> ((None, b), s1)))"

definition rollbackFundingReserve :: "env \<Rightarrow> int \<Rightarrow> BillingSession \<Rightarrow> store \<Rightarrow> BillingSession \<times> store" where
  "rollbackFundingReserve env delta b s =
    (case bs_funding b of
       Wallet w \<Rightarrow>
         (case IncreaseUserQuota env (wf_userId w) delta False s of
            (Some _, s1) \<Rightarrow> (b, s1)
          | (None, s1) \<Rightarrow> (b\<lparr>bs_funding := Wallet (w\<lparr>wf_consumed := wf_consumed w - delta\<rparr>)\<rparr>, s1))
     | Subs f \<Rightarrow> (b, snd (PostConsumeUserSubscriptionDelta env (sf_subscriptionId f) (- delta) s)))"

definition reserveToken :: "env \<Rightarrow> int \<Rightarrow> BillingSession \<Rightarrow> store \<Rightarrow> NewAPIError option \<times> store" where
  "reserveToken env delta b s =
    (if delta \<le> 0 \<or> ri_IsPlayground (bs_relayInfo b) then (None, s)
     else case PreConsumeTokenQuota env (bs_relayInfo b) delta s of
       (Some e, s1) \<Rightarrow>
         (Some (NewErrorWithStatusCode (plain env e) ''pre_consume_token_quota_failed'' 403
            [ErrOptionWithSkipRetry, ErrOptionWithNoRecordErrorLog]), s1)
     | (None, s1) \<Rightarrow> (None, s1))"

definition Reserve :: "env \<Rightarrow> int \<Rightarrow> BillingSession \<Rightarrow> store \<Rightarrow> (NewAPIError option \<times> BillingSession) \<times> store" where
  "Reserve env targetQuota b s =
    (if bs_settled b \<or> bs_refunded b \<or> bs_trusted b \<or> targetQuota \<le> bs_preConsumedQuota b then ((None, b), s)
     else
       let delta = targetQuota - bs_preConsumedQuota b
       in case reserveFunding env delta b s of
            ((Some e, b1), s1) \<Rightarrow> ((Some e, b1), s1)
          | ((None, b1), s1) \<Rightarrow>
              (case reserveToken env delta b1 s1 of
                 (Some e, s2) \<Rightarrow> (case rollbackFundingReserve env delta b1 s2 of (b2, s3) \<Rightarrow> ((Some e, b2), s3))
               | (None, s2) \<Rightarrow>
                   ((None, syncRelayInfo (b1\<lparr>bs_preConsumedQuota := bs_preConsumedQuota b1 + delta,
                                            bs_tokenConsumed := bs_tokenConsumed b1 + delta,
                                            bs_extraReserved := bs_extraReserved b1 + delta\<rparr>)), s2)))"

section \<open>The first reservation\<close>

definition GetTrustQuota :: "env \<Rightarrow> int" where
  "GetTrustQuota env = trunc_rat (10 * env_QuotaPerUnit env)"

definition shouldTrust :: "env \<Rightarrow> int \<Rightarrow> BillingSession \<Rightarrow> bool" where
  "shouldTrust env token_quota b \<longleftrightarrow>
    \<not> ri_ForcePreConsume (bs_relayInfo b) \<and> 0 < GetTrustQuota env \<and>
    (ri_TokenUnlimited (bs_relayInfo b) \<or> GetTrustQuota env < token_quota) \<and>
    Source (bs_funding b) = ''wallet'' \<and> GetTrustQuota env < ri_UserQuota (bs_relayInfo b)"

definition funding_failed :: "env \<Rightarrow> error \<Rightarrow> NewAPIError" where
  "funding_failed env e =
    (let errMsg = error_text env e
     in if Contains errMsg ''no active subscription'' \<or> Contains errMsg ''subscription quota insufficient''
        then NewErrorWithStatusCode (plain env (ErrSubscriptionUnavailable e)) ''insufficient_user_quota'' 403
               [ErrOptionWithSkipRetry, ErrOptionWithNoRecordErrorLog]
        else NewError (plain env e) ''update_data_error'' [ErrOptionWithSkipRetry])"

definition preConsume_funding ::
    "env \<Rightarrow> int \<Rightarrow> BillingSession \<Rightarrow> store \<Rightarrow> ((NewAPIError option \<times> BillingSession) \<times> store) option" where
  "preConsume_funding env effectiveQuota b s =
    (case Funding_PreConsume env (bs_funding b) effectiveQuota s of
       None \<Rightarrow> None
     | Some ((Some e, f), s1) \<Rightarrow>
         (if 0 < bs_tokenConsumed b \<and> \<not> ri_IsPlayground (bs_relayInfo b)
          then Some ((Some (funding_failed env e), b\<lparr>bs_funding := f, bs_tokenConsumed := 0\<rparr>),
                 snd (IncreaseTokenQuota env (ri_TokenId (bs_relayInfo b)) (ri_TokenKey (bs_relayInfo b))
                        (bs_tokenConsumed b) s1))
          else Some ((Some (funding_failed env e), b\<lparr>bs_funding := f\<rparr>), s1))
     | Some ((None, f), s1) \<Rightarrow>
         Some ((None, syncRelayInfo (b\<lparr>bs_funding := f, bs_preConsumedQuota := effectiveQuota\<rparr>)), s1))"

definition preConsume ::
    "env \<Rightarrow> int \<Rightarrow> int \<Rightarrow> BillingSession \<Rightarrow> store \<Rightarrow> ((NewAPIError option \<times> BillingSession) \<times> store) option" where
  "preConsume env token_quota quota b0 s =
    (let b = b0\<lparr>bs_trusted := bs_trusted b0 \<or> shouldTrust env token_quota b0\<rparr>;
         effectiveQuota = (if shouldTrust env token_quota b0 then 0 else quota)
     in if 0 < effectiveQuota then
          (case PreConsumeTokenQuota env (bs_relayInfo b) effectiveQuota s of
             (Some e, s1) \<Rightarrow>
               Some ((Some (NewErrorWithStatusCode (plain env e) ''pre_consume_token_quota_failed'' 403
                  [ErrOptionWithSkipRetry, ErrOptionWithNoRecordErrorLog]), b), s1)
           | (None, s1) \<Rightarrow> preConsume_funding env effectiveQuota (b\<lparr>bs_tokenConsumed := effectiveQuota\<rparr>) s1)
        else preConsume_funding env effectiveQuota b s)"

section \<open>Creating a session\<close>

definition new_session :: "RelayInfo \<Rightarrow> FundingSource \<Rightarrow> BillingSession" where
  "new_session info f = \<lparr>bs_relayInfo = info, bs_funding = f, bs_preConsumedQuota = 0, bs_tokenConsumed = 0,
     bs_extraReserved = 0, bs_trusted = False, bs_fundingSettled = False, bs_settled = False, bs_refunded = False\<rparr>"

definition session_result ::
    "(NewAPIError option \<times> BillingSession) \<times> store \<Rightarrow> (NewAPIError + BillingSession) \<times> store" where
  "session_result r = (case r of ((Some e, b), s1) \<Rightarrow> (Inl e, s1) | ((None, b), s1) \<Rightarrow> (Inr b, s1))"

definition tryWallet ::
    "env \<Rightarrow> int \<Rightarrow> RelayInfo \<Rightarrow> int \<Rightarrow> store \<Rightarrow> ((NewAPIError + BillingSession) \<times> store) option" where
  "tryWallet env token_quota info preConsumedQuota s =
    (case GetUserQuota env (ri_UserId info) False s of
       (Inl e, s1) \<Rightarrow> Some (Inl (NewError (plain env e) ''query_data_error'' [ErrOptionWithSkipRetry]), s1)
     | (Inr userQuota, s1) \<Rightarrow>
         if userQuota \<le> 0 then
           Some (Inl (NewErrorWithStatusCode (plain env (ErrUserQuotaExhausted userQuota)) ''insufficient_user_quota'' 403
             [ErrOptionWithSkipRetry, ErrOptionWithNoRecordErrorLog]), s1)
         else if userQuota - preConsumedQuota < 0 then
           Some (Inl (NewErrorWithStatusCode (plain env (ErrUserQuotaNotEnough userQuota preConsumedQuota))
             ''insufficient_user_quota'' 403 [ErrOptionWithSkipRetry, ErrOptionWithNoRecordErrorLog]), s1)
         else
           map_option session_result
             (preConsume env token_quota preConsumedQuota
               (new_session (info\<lparr>ri_UserQuota := userQuota\<rparr>) (Wallet \<lparr>wf_userId = ri_UserId info, wf_consumed = 0\<rparr>)) s1))"

definition trySubscription ::
    "env \<Rightarrow> int \<Rightarrow> RelayInfo \<Rightarrow> int \<Rightarrow> store \<Rightarrow> ((NewAPIError + BillingSession) \<times> store) option" where
  "trySubscription env token_quota info preConsumedQuota s =
    (let subConsume = (if preConsumedQuota \<le> 0 then 1 else preConsumedQuota)
     in map_option session_result
          (preConsume env token_quota subConsume
            (new_session info (Subs \<lparr>sf_requestId = ri_RequestId info, sf_userId = ri_UserId info,
               sf_modelName = ri_OriginModelName info, sf_amount = subConsume, sf_subscriptionId = 0,
               sf_preConsumed = 0, sf_AmountTotal = 0, sf_AmountUsedAfter = 0, sf_PlanId = 0, sf_PlanTitle = ''''\<rparr>)) s))"

definition NormalizeBillingPreference :: "string \<Rightarrow> string" where
  "NormalizeBillingPreference pref =
    (if TrimSpace pref \<in> {''subscription_first'', ''wallet_first'', ''subscription_only'', ''wallet_only''}
     then TrimSpace pref else ''subscription_first'')"

definition wallet_first ::
    "env \<Rightarrow> int \<Rightarrow> RelayInfo \<Rightarrow> int \<Rightarrow> store \<Rightarrow> ((NewAPIError + BillingSession) \<times> store) option" where
  "wallet_first env token_quota info q s =
    (case tryWallet env token_quota info q s of
       Some (Inl e, s1) \<Rightarrow>
         if GetErrorCode (Some e) = ''insufficient_user_quota'' then trySubscription env token_quota info q s1
         else Some (Inl e, s1)
     | r \<Rightarrow> r)"

definition subscription_first ::
    "env \<Rightarrow> int \<Rightarrow> RelayInfo \<Rightarrow> int \<Rightarrow> store \<Rightarrow> ((NewAPIError + BillingSession) \<times> store) option" where
  "subscription_first env token_quota info q s =
    (case HasActiveUserSubscription env (ri_UserId info) s of
       (Inl e, s1) \<Rightarrow> Some (Inl (NewError (plain env e) ''query_data_error'' [ErrOptionWithSkipRetry]), s1)
     | (Inr hasSub, s1) \<Rightarrow>
         if \<not> hasSub then tryWallet env token_quota info q s1
         else case trySubscription env token_quota info q s1 of
           Some (Inl apiErr, s2) \<Rightarrow>
             if GetErrorCode (Some apiErr) = ''insufficient_user_quota'' then
               (case UserActiveSubscriptionsAllowWalletOverflow env (ri_UserId info) s2 of
                  (Inl e, s3) \<Rightarrow> Some (Inl (NewError (plain env e) ''query_data_error'' [ErrOptionWithSkipRetry]), s3)
                | (Inr allowOverflow, s3) \<Rightarrow>
                    if allowOverflow then tryWallet env token_quota info q s3 else Some (Inl apiErr, s3))
             else Some (Inl apiErr, s2)
         | r \<Rightarrow> r)"

definition NewBillingSession ::
    "env \<Rightarrow> int \<Rightarrow> RelayInfo \<Rightarrow> int \<Rightarrow> store \<Rightarrow> ((NewAPIError + BillingSession) \<times> store) option" where
  "NewBillingSession env token_quota info preConsumedQuota s =
    (let pref = NormalizeBillingPreference (ri_BillingPreference info)
     in if pref = ''subscription_only'' then trySubscription env token_quota info preConsumedQuota s
        else if pref = ''wallet_only'' then tryWallet env token_quota info preConsumedQuota s
        else if pref = ''wallet_first'' then wallet_first env token_quota info preConsumedQuota s
        else subscription_first env token_quota info preConsumedQuota s)"

definition PreConsumeBilling ::
    "env \<Rightarrow> int \<Rightarrow> int \<Rightarrow> RelayInfo \<Rightarrow> store \<Rightarrow> ((NewAPIError + BillingSession) \<times> store) option" where
  "PreConsumeBilling env token_quota preConsumedQuota info s =
    (case ri_QuotaClamp info of
       Some clamp \<Rightarrow>
         Some (Inl (NewErrorWithStatusCode (plain env (ErrQuotaClamp clamp)) ''model_price_error'' 400
           [ErrOptionWithSkipRetry]), s)
     | None \<Rightarrow>
         if preConsumedQuota < 0 then
           Some (Inl (NewErrorWithStatusCode (plain env (ErrPreConsumeNegative preConsumedQuota)) ''model_price_error'' 400
             [ErrOptionWithSkipRetry]), s)
         else NewBillingSession env token_quota info preConsumedQuota s)"

section \<open>After the request\<close>

definition PostConsumeQuota ::
    "env \<Rightarrow> RelayInfo \<Rightarrow> int \<Rightarrow> int \<Rightarrow> bool \<Rightarrow> store \<Rightarrow> (error option \<times> RelayInfo) \<times> store" where
  "PostConsumeQuota env info quota preConsumedQuota sendEmail s =
    (let funding =
       (if ri_BillingSource info = ''subscription'' then
          (if ri_SubscriptionId info = 0 then ((Some ErrSubscriptionIdMissing, info), s)
           else if quota = 0 then ((None, info), s)
           else case PostConsumeUserSubscriptionDelta env (ri_SubscriptionId info) quota s of
             (Some e, s1) \<Rightarrow> ((Some e, info), s1)
           | (None, s1) \<Rightarrow>
               ((None, info\<lparr>ri_SubscriptionPostDelta := ri_SubscriptionPostDelta info + quota\<rparr>), s1))
        else
          (case (if 0 < quota then DecreaseUserQuota env (ri_UserId info) quota False s
                 else IncreaseUserQuota env (ri_UserId info) (- quota) False s) of
             (e, s1) \<Rightarrow> ((e, info), s1)))
     in case funding of
          ((Some e, info1), s1) \<Rightarrow> ((Some e, info1), s1)
        | ((None, info1), s1) \<Rightarrow>
            (case (if ri_IsPlayground info1 then (None, s1) else adjust_token env info1 quota s1) of
               (Some e, s2) \<Rightarrow> ((Some e, info1), s2)
             | (None, s2) \<Rightarrow>
                 ((None, info1),
                  if sendEmail \<and> quota + preConsumedQuota \<noteq> 0
                  then emit (QuotaNotify (ri_UserId info1) quota preConsumedQuota) s2 else s2)))"

text \<open>\<open>Inr\<close> is a \<open>RelayInfo\<close> with a session on it, \<open>Inl\<close> one without.\<close>

definition SettleBilling ::
    "env \<Rightarrow> RelayInfo + BillingSession \<Rightarrow> int \<Rightarrow> store \<Rightarrow> (error option \<times> (RelayInfo + BillingSession)) \<times> store" where
  "SettleBilling env billing actualQuota s =
    (case billing of
       Inr b \<Rightarrow>
         (let preConsumed = GetPreConsumedQuota b
          in case Settle env actualQuota b s of
               ((Some e, b1), s1) \<Rightarrow> ((Some e, Inr b1), s1)
             | ((None, b1), s1) \<Rightarrow>
                 ((None, Inr b1),
                  if actualQuota = 0 then s1
                  else if ri_BillingSource (bs_relayInfo b1) = ''subscription''
                  then emit (SubscriptionQuotaNotify (ri_UserId (bs_relayInfo b1))) s1
                  else emit (QuotaNotify (ri_UserId (bs_relayInfo b1)) (actualQuota - preConsumed) preConsumed) s1))
     | Inl info \<Rightarrow>
         (let quotaDelta = actualQuota - ri_FinalPreConsumedQuota info
          in if quotaDelta \<noteq> 0
             then (case PostConsumeQuota env info quotaDelta (ri_FinalPreConsumedQuota info) True s of
                     ((e, info1), s1) \<Rightarrow> ((e, Inl info1), s1))
             else ((None, Inl info), s)))"

section \<open>The contract of a funding source\<close>

text \<open>
  What a session relies on, whichever source pays: a settlement that succeeds moves the amount
  spent by exactly the difference, one that fails moves nothing, and neither touches what
  lies beside the source.  \<open>fits\<close> tells that the source is not given back more than was taken.
\<close>

locale funding_contract =
  fixes settle :: "int \<Rightarrow> store \<Rightarrow> error option \<times> store"
    and spent :: "store \<Rightarrow> int"
    and fits :: "store \<Rightarrow> int \<Rightarrow> bool"
    and side :: "store \<Rightarrow> 'f"
  assumes settle_ok: "fst (settle d s) = None \<Longrightarrow> fits s d \<Longrightarrow> spent (snd (settle d s)) = spent s + d"
    and settle_err: "fst (settle d s) \<noteq> None \<Longrightarrow> spent (snd (settle d s)) = spent s"
    and settle_side: "side (snd (settle d s)) = side s"
    and settle_up: "faults s = [] \<Longrightarrow> faults (snd (settle d s)) = []"
begin

lemma settle_outcome:
  "fits s d \<Longrightarrow> spent (snd (settle d s)) = spent s + (if fst (settle d s) = None then d else 0)"
  by (auto simp: settle_ok settle_err)

lemma settle_to_actual:
  assumes "spent s = base + pre" "fits s (actual - pre)" "fst (settle (actual - pre) s) = None"
  shows "spent (snd (settle (actual - pre) s)) = base + actual"
  using assms by (simp add: settle_ok)

end

section \<open>Wallets and subscriptions keep it\<close>

text \<open>The token accounts: what no funding source touches.\<close>

definition token_side :: "store \<Rightarrow> Token list \<times> (int \<times> int) list" where
  "token_side s = (tokens (db s), batchUpdateStores s BatchUpdateTypeTokenQuota)"

lemma token_balance_side: "token_side s' = token_side s \<Longrightarrow> token_balance s' i = token_balance s i"
  by (simp add: token_side_def token_balance_def)

lemma token_side_users: "beside_users s' = beside_users s \<Longrightarrow> token_side s' = token_side s"
proof -
  assume a: "beside_users s' = beside_users s"
  then have "tokens ((db s')\<lparr>users := []\<rparr>) = tokens ((db s)\<lparr>users := []\<rparr>)" by (simp add: beside_users_def)
  moreover have "(batchUpdateStores s')(BatchUpdateTypeUserQuota := []) = (batchUpdateStores s)(BatchUpdateTypeUserQuota := [])"
    using a by (simp add: beside_users_def)
  from fun_cong [OF this, of BatchUpdateTypeTokenQuota]
  have "batchUpdateStores s' BatchUpdateTypeTokenQuota = batchUpdateStores s BatchUpdateTypeTokenQuota" by simp
  ultimately show ?thesis by (simp add: token_side_def)
qed

lemma token_side_subs: "beside_subs s' = beside_subs s \<Longrightarrow> token_side s' = token_side s"
  using beside_subsD(2,3) [of s' s] by (simp add: token_side_def)

lemma user_balance_subs: "beside_subs s' = beside_subs s \<Longrightarrow> user_balance s' i = user_balance s i"
  using beside_subsD(1,3) [of s' s] by (simp add: user_balance_def)

lemma account_faults:
  "faults s = [] \<Longrightarrow> faults (snd (IncreaseUserQuota env i q direct s)) = []"
  "faults s = [] \<Longrightarrow> faults (snd (DecreaseUserQuota env i q direct s)) = []"
  "faults s = [] \<Longrightarrow> faults (snd (IncreaseTokenQuota env i key q s)) = []"
  "faults s = [] \<Longrightarrow> faults (snd (DecreaseTokenQuota env i key q s)) = []"
  by (simp_all add: account_ops update_user_eq update_token_eq on_success addNewRecord_def)

lemma transaction_faults:
  "faults s = [] \<Longrightarrow> faults (snd (body s)) = [] \<Longrightarrow> faults (snd (transaction body s)) = []"
  by (simp add: transaction_eq tx_end_eq split: sum.splits)

lemma PostConsume_faults: "faults s = [] \<Longrightarrow> faults (snd (PostConsumeUserSubscriptionDelta env i d s)) = []"
  by (simp add: PostConsume_eq delta_body_eq save_sub_eq set_subs_def Let_def transaction_faults split: option.split)

lemma PostConsume_used:
  "fst (PostConsumeUserSubscriptionDelta env i d s) = None \<Longrightarrow> 0 \<le> sub_used s i + d \<Longrightarrow>
    sub_used (snd (PostConsumeUserSubscriptionDelta env i d s)) i = sub_used s i + d"
  "fst (PostConsumeUserSubscriptionDelta env i d s) \<noteq> None \<Longrightarrow>
    sub_used (snd (PostConsumeUserSubscriptionDelta env i d s)) j = sub_used s j"
proof -
  obtain e s' where p: "PostConsumeUserSubscriptionDelta env i d s = (e, s')" by fastforce
  show "fst (PostConsumeUserSubscriptionDelta env i d s) = None \<Longrightarrow> 0 \<le> sub_used s i + d \<Longrightarrow>
      sub_used (snd (PostConsumeUserSubscriptionDelta env i d s)) i = sub_used s i + d"
    using PostConsume_ok [of env i d s s'] p
    by (cases "d = 0") (auto simp: sub_used_def PostConsume_eq split: if_splits)
  show "fst (PostConsumeUserSubscriptionDelta env i d s) \<noteq> None \<Longrightarrow>
      sub_used (snd (PostConsumeUserSubscriptionDelta env i d s)) j = sub_used s j"
    using p PostConsume_err by (auto simp: sub_used_def)
qed

interpretation wallet_fund: funding_contract
    "Wallet_Settle env w" "\<lambda>s. - user_balance s (wf_userId w)" "\<lambda>s d. True" beside_users for env w
  by unfold_locales
    (auto simp: Wallet_Settle_def user_acct.inc_ok user_acct.decr_ok user_acct.inc_err user_acct.decr_err
      user_acct.inc_beside user_acct.decr_beside account_faults)

interpretation sub_fund: funding_contract
    "Subscription_Settle env f" "\<lambda>s. sub_used s (sf_subscriptionId f)"
    "\<lambda>s d. 0 \<le> sub_used s (sf_subscriptionId f) + d" beside_subs for env f
  by unfold_locales
    (auto simp: Subscription_Settle_def PostConsume_used PostConsume_facts PostConsume_faults)

text \<open>Either of them, beside the token accounts.\<close>

fun funding_spent :: "FundingSource \<Rightarrow> store \<Rightarrow> int" where
  "funding_spent (Wallet w) s = - user_balance s (wf_userId w)"
| "funding_spent (Subs f) s = sub_used s (sf_subscriptionId f)"

fun funding_fits :: "FundingSource \<Rightarrow> store \<Rightarrow> int \<Rightarrow> bool" where
  "funding_fits (Wallet w) s d = True"
| "funding_fits (Subs f) s d \<longleftrightarrow> 0 \<le> sub_used s (sf_subscriptionId f) + d"

interpretation fund: funding_contract
    "Funding_Settle env f" "funding_spent f" "funding_fits f" token_side for env f
proof (unfold_locales, goal_cases)
  case (1 d s)
  then show ?case by (cases f) (simp_all add: wallet_fund.settle_ok sub_fund.settle_ok)
next
  case (2 d s)
  then show ?case
    using wallet_fund.settle_err [of env _ d s] by (cases f) (auto simp: sub_fund.settle_err)
next
  case (3 d s)
  show ?case
  proof (cases f)
    case (Wallet w)
    then show ?thesis using token_side_users [OF wallet_fund.settle_side] by simp
  next
    case (Subs g)
    then show ?thesis using token_side_subs [OF sub_fund.settle_side] by simp
  qed
next
  case (4 s d)
  then show ?case by (cases f) (simp_all add: wallet_fund.settle_up sub_fund.settle_up)
qed

end
