(* ===== verification/Billing_Session.thy ===== *)
theory Billing_Session
  imports Billing
begin

text \<open>
  Correctness of billing sessions.  A session charges two accounts, its funding source and the
  token of the request; \<open>reserved\<close> says how an open session and these accounts agree, and every
  operation keeps it: opening (with its fallbacks between wallet and subscription), reserving more,
  settling and refunding.  \<open>billing_step\<close> is the life of a session as a step relation.
\<close>

section \<open>Accounting of a session\<close>

definition token_spent :: "BillingSession \<Rightarrow> store \<Rightarrow> int" where
  "token_spent b s = - token_balance s (ri_TokenId (bs_relayInfo b))"

text \<open>
  The rows behind a funding source: the user, or the subscription with the record of the
  request that a refund looks up.
\<close>

fun held :: "FundingSource \<Rightarrow> store \<Rightarrow> bool" where
  "held (Wallet w) s \<longleftrightarrow> row user_Id (users (db s)) (wf_userId w) \<noteq> None"
| "held (Subs f) s \<longleftrightarrow> 0 < sf_subscriptionId f \<and> TrimSpace (sf_requestId f) \<noteq> '''' \<and>
    (\<exists>p x. row pre_RequestId (preRecords (db s)) (sf_requestId f) = Some p \<and> pre_Status p = ''consumed''
      \<and> pre_UserSubscriptionId p = sf_subscriptionId f \<and> pre_PreConsumed p = sf_preConsumed f
      \<and> row sub_Id (subs (db s)) (sf_subscriptionId f) = Some x \<and> sub_ok x)"

text \<open>How the parts of the session add up to what it reserved.\<close>

fun parts :: "FundingSource \<Rightarrow> BillingSession \<Rightarrow> bool" where
  "parts (Wallet w) b \<longleftrightarrow> wf_consumed w = bs_preConsumedQuota b"
| "parts (Subs f) b \<longleftrightarrow> sf_preConsumed f + bs_extraReserved b = bs_preConsumedQuota b \<and> 0 < sf_preConsumed f
     \<and> 0 \<le> bs_extraReserved b \<and> ri_SubscriptionId (bs_relayInfo b) = sf_subscriptionId f"

text \<open>
  An open session: the source has spent \<open>F\<close> and the token \<open>T\<close> without it, and both have spent what it
  reserved on top.
\<close>

definition reserved :: "int \<Rightarrow> int \<Rightarrow> BillingSession \<Rightarrow> store \<Rightarrow> bool" where
  "reserved F T b s \<longleftrightarrow>
    funding_spent (bs_funding b) s = F + bs_preConsumedQuota b \<and>
    (\<not> ri_IsPlayground (bs_relayInfo b) \<longrightarrow> token_spent b s = T + bs_preConsumedQuota b) \<and>
    bs_tokenConsumed b = bs_preConsumedQuota b \<and> 0 \<le> bs_preConsumedQuota b \<and>
    held (bs_funding b) s \<and> parts (bs_funding b) b \<and> (Source (bs_funding b) = ''subscription'' \<longrightarrow> 0 \<le> F)"

text \<open>The database is up and the token of the request exists.\<close>

definition up :: "BillingSession \<Rightarrow> store \<Rightarrow> bool" where
  "up b s \<longleftrightarrow> faults s = [] \<and>
    (\<not> ri_IsPlayground (bs_relayInfo b) \<longrightarrow> row tok_Id (tokens (db s)) (ri_TokenId (bs_relayInfo b)) \<noteq> None)"

section \<open>Frames\<close>

lemma beside_tokensD:
  assumes "beside_tokens s' = beside_tokens s"
  shows "users (db s') = users (db s)" "subs (db s') = subs (db s)" "preRecords (db s') = preRecords (db s)"
    "t \<noteq> BatchUpdateTypeTokenQuota \<Longrightarrow> batchUpdateStores s' t = batchUpdateStores s t"
proof -
  have d: "(db s')\<lparr>tokens := []\<rparr> = (db s)\<lparr>tokens := []\<rparr>" using assms by (simp add: beside_tokens_def)
  show "users (db s') = users (db s)" using arg_cong [OF d, of users] by simp
  show "subs (db s') = subs (db s)" using arg_cong [OF d, of subs] by simp
  show "preRecords (db s') = preRecords (db s)" using arg_cong [OF d, of preRecords] by simp
  have "(batchUpdateStores s')(BatchUpdateTypeTokenQuota := []) = (batchUpdateStores s)(BatchUpdateTypeTokenQuota := [])"
    using assms by (simp add: beside_tokens_def)
  from fun_cong [OF this, of t] show "t \<noteq> BatchUpdateTypeTokenQuota \<Longrightarrow> batchUpdateStores s' t = batchUpdateStores s t"
    by simp
qed

lemma token_op_keeps:
  assumes "beside_tokens s' = beside_tokens s"
  shows "funding_spent f s' = funding_spent f s" "held f s' = held f s"
  using beside_tokensD [OF assms]
  by (cases f; simp add: user_balance_def sub_used_def)+

lemma funding_op_keeps:
  assumes "token_side s' = token_side s"
  shows "token_spent b s' = token_spent b s" "faults s' = [] \<Longrightarrow> up b s \<Longrightarrow> up b s'"
  using assms token_balance_side [OF assms] by (auto simp: token_spent_def up_def token_side_def)

lemma reserved_cong:
  assumes "db s' = db s" "batchUpdateStores s' = batchUpdateStores s"
  shows "reserved F T b s' = reserved F T b s"
proof -
  have "funding_spent f s' = funding_spent f s" "held f s' = held f s" for f
    using assms by (cases f; simp add: user_balance_def sub_used_def)+
  moreover have "token_spent b s' = token_spent b s" using assms by (simp add: token_spent_def token_balance_def)
  ultimately show ?thesis by (simp add: reserved_def)
qed

section \<open>Funding sources in detail\<close>

lemma wallet_settle_live:
  assumes "held (Wallet w) s" "faults s = []"
  shows "fst (Wallet_Settle env w d s) = None" "held (Wallet w) (snd (Wallet_Settle env w d s))"
proof -
  have l: "user_live s (wf_userId w)" using assms by (simp add: user_live_def)
  show "fst (Wallet_Settle env w d s) = None"
    using user_acct.inc_live [OF l, of "- d"] user_acct.decr_live [OF l, of d] by (simp add: Wallet_Settle_def)
  have "user_live (snd (Wallet_Settle env w d s)) (wf_userId w)"
    using user_acct.inc_keeps_live [OF l] user_acct.decr_keeps_live [OF l] l by (simp add: Wallet_Settle_def)
  then show "held (Wallet w) (snd (Wallet_Settle env w d s))" by (simp add: user_live_def)
qed

lemma held_settle:
  assumes "held f s" "faults s = []"
  shows "held f (snd (Funding_Settle env f d s))"
proof (cases f)
  case (Wallet w)
  then show ?thesis using wallet_settle_live(2) assms by simp
next
  case (Subs g)
  obtain e s' where p: "PostConsumeUserSubscriptionDelta env (sf_subscriptionId g) d s = (e, s')" by fastforce
  show ?thesis
  proof (cases "d = 0 \<or> e \<noteq> None")
    case True
    then show ?thesis using assms Subs p PostConsume_err [of env "sf_subscriptionId g" d s _ s']
      by (auto simp: Subscription_Settle_def)
  next
    case False
    then have n: "d \<noteq> 0" "PostConsumeUserSubscriptionDelta env (sf_subscriptionId g) d s = (None, s')" using p by auto
    show ?thesis
      using PostConsume_ok [OF n(2,1)] assms Subs n
      by (auto simp: Subscription_Settle_def sub_ok_def)
  qed
qed

lemma settle_back:
  assumes "held f s" "faults s = []" "0 \<le> d"
  shows "fst (Funding_Settle env f (- d) s) = None"
proof (cases f)
  case (Wallet w)
  then show ?thesis using wallet_settle_live(1) assms by simp
next
  case (Subs g)
  then obtain x where "row sub_Id (subs (db s)) (sf_subscriptionId g) = Some x" "sub_ok x" "0 < sf_subscriptionId g"
    using assms(1) by auto
  moreover then have "\<not> (0 < sub_AmountTotal x \<and> sub_AmountTotal x < max 0 (sub_AmountUsed x + - d))"
    using assms(3) by (auto simp: sub_ok_def)
  ultimately show ?thesis
    using PostConsume_up [OF assms(2), of "sf_subscriptionId g" x "- d" env] Subs by (simp add: Subscription_Settle_def)
qed

lemma settle_err_same:
  assumes "held f s" "faults s = []" "fst (Funding_Settle env f d s) \<noteq> None"
  shows "db (snd (Funding_Settle env f d s)) = db s
    \<and> batchUpdateStores (snd (Funding_Settle env f d s)) = batchUpdateStores s"
proof (cases f)
  case (Wallet w)
  then show ?thesis using wallet_settle_live(1) [of w s env d] assms by simp
next
  case (Subs g)
  obtain e s' where p: "PostConsumeUserSubscriptionDelta env (sf_subscriptionId g) d s = (e, s')" by fastforce
  then have "beside_subs s' = beside_subs s" using PostConsume_facts(1) [of env "sf_subscriptionId g" d s] by simp
  from beside_subsD(3) [OF this] show ?thesis
    using assms(3) Subs p PostConsume_err [of env "sf_subscriptionId g" d s _ s']
    by (auto simp: Subscription_Settle_def split: if_splits)
qed

section \<open>The token\<close>

lemma up_token:
  assumes "up b s" "\<not> ri_IsPlayground (bs_relayInfo b)"
  shows "token_live s (ri_TokenId (bs_relayInfo b))"
  using assms by (simp add: up_def token_live_def)

lemma adjust_token_up:
  assumes "up b s" "\<not> ri_IsPlayground (bs_relayInfo b)"
  shows "fst (adjust_token env (bs_relayInfo b) d s) = None"
    "token_spent b (snd (adjust_token env (bs_relayInfo b) d s)) = token_spent b s + d"
    "beside_tokens (snd (adjust_token env (bs_relayInfo b) d s)) = beside_tokens s"
    "up b (snd (adjust_token env (bs_relayInfo b) d s))"
proof -
  note l = up_token [OF assms]
  let ?i = "ri_TokenId (bs_relayInfo b)" and ?k = "ri_TokenKey (bs_relayInfo b)"
  show n: "fst (adjust_token env (bs_relayInfo b) d s) = None"
    using token_acct.inc_live [OF l, of "- d"] token_acct.decr_live [OF l, of d] by (simp add: adjust_token_def)
  then show "token_spent b (snd (adjust_token env (bs_relayInfo b) d s)) = token_spent b s + d"
    using token_acct.inc_ok [of env ?i ?k "- d" s ?i] token_acct.decr_ok [of env ?i ?k d s ?i]
    by (simp add: adjust_token_def token_spent_def split: if_splits)
  show "beside_tokens (snd (adjust_token env (bs_relayInfo b) d s)) = beside_tokens s"
    by (simp add: adjust_token_def token_acct.inc_beside token_acct.decr_beside)
  have "token_live (snd (adjust_token env (bs_relayInfo b) d s)) ?i"
    using l by (simp add: adjust_token_def token_acct.inc_keeps_live token_acct.decr_keeps_live)
  then show "up b (snd (adjust_token env (bs_relayInfo b) d s))" by (simp add: up_def token_live_def)
qed

section \<open>Settling\<close>

definition after_settle :: "int \<Rightarrow> BillingSession \<Rightarrow> BillingSession" where
  "after_settle d b = b\<lparr>bs_fundingSettled := True, bs_settled := True, bs_relayInfo :=
     (if Source (bs_funding b) = ''subscription''
      then (bs_relayInfo b)\<lparr>ri_SubscriptionPostDelta := ri_SubscriptionPostDelta (bs_relayInfo b) + d\<rparr>
      else bs_relayInfo b)\<rparr>"

lemma after_settle_simps [simp]:
  "bs_settled (after_settle d b)" "bs_funding (after_settle d b) = bs_funding b"
  "bs_refunded (after_settle d b) = bs_refunded b"
  "ri_TokenId (bs_relayInfo (after_settle d b)) = ri_TokenId (bs_relayInfo b)"
  "ri_IsPlayground (bs_relayInfo (after_settle d b)) = ri_IsPlayground (bs_relayInfo b)"
  by (simp_all add: after_settle_def)

lemma Settle_eq:
  assumes "\<not> bs_settled b" "\<not> bs_fundingSettled b" "actual - bs_preConsumedQuota b = d" "d \<noteq> 0"
  shows "Settle env actual b s =
    (let r = Funding_Settle env (bs_funding b) d s;
         t = (if ri_IsPlayground (bs_relayInfo b) then (None, snd r) else adjust_token env (bs_relayInfo b) d (snd r))
     in if fst r = None then ((fst t, after_settle d b), snd t) else ((fst r, b), snd r))"
  using assms unfolding Settle_def after_settle_def
  by (cases "Funding_Settle env (bs_funding b) d s"; cases "fst (Funding_Settle env (bs_funding b) d s)")
    (auto simp: Let_def split: prod.splits)

lemma same_token:
  assumes "ri_TokenId (bs_relayInfo b') = ri_TokenId (bs_relayInfo b)"
    "ri_IsPlayground (bs_relayInfo b') = ri_IsPlayground (bs_relayInfo b)"
  shows "token_spent b' s = token_spent b s" "up b' s = up b s"
  using assms by (simp_all add: token_spent_def up_def)

lemma reserved_fits:
  assumes "reserved F T b s" "0 \<le> actual"
  shows "funding_fits (bs_funding b) s (actual - bs_preConsumedQuota b)"
  using assms by (cases "bs_funding b") (auto simp: reserved_def)

lemma Settle_open:
  assumes "reserved F T b s" "up b s" "\<not> bs_settled b" "\<not> bs_fundingSettled b" "0 \<le> actual"
    and "Settle env actual b s = ((e, b'), s')"
  shows "(case e of
      None \<Rightarrow> bs_settled b' \<and> bs_refunded b' = bs_refunded b \<and> up b' s'
        \<and> funding_spent (bs_funding b') s' = F + actual
        \<and> (\<not> ri_IsPlayground (bs_relayInfo b') \<longrightarrow> token_spent b' s' = T + actual)
    | Some _ \<Rightarrow> b' = b \<and> reserved F T b s' \<and> up b s')"
proof (cases "actual = bs_preConsumedQuota b")
  case True
  then show ?thesis
    using assms same_token [of "b\<lparr>bs_settled := True\<rparr>" b] by (auto simp: Settle_def reserved_def)
next
  case False
  let ?d = "actual - bs_preConsumedQuota b"
  define r where "r = Funding_Settle env (bs_funding b) ?d s"
  define t where "t = (if ri_IsPlayground (bs_relayInfo b) then (None, snd r) else adjust_token env (bs_relayInfo b) ?d (snd r))"
  have f0: "faults s = []" "held (bs_funding b) s" using assms(1,2) by (auto simp: up_def reserved_def)
  have side: "token_side (snd r) = token_side s" "faults (snd r) = []"
    using fund.settle_side fund.settle_up [OF f0(1)] by (simp_all add: r_def)
  note tok = funding_op_keeps [OF side(1)]
  have up1: "up b (snd r)" using tok(2) side(2) assms(2) by simp
  have eq: "Settle env actual b s = (if fst r = None then ((fst t, after_settle ?d b), snd t) else ((fst r, b), snd r))"
    using Settle_eq [OF assms(3,4) refl, of actual env s] False unfolding r_def t_def Let_def by simp
  show ?thesis
  proof (cases "fst r")
    case (Some e1)
    then have "db (snd r) = db s \<and> batchUpdateStores (snd r) = batchUpdateStores s"
      using settle_err_same [OF f0(2,1), of env ?d] by (simp add: r_def)
    then have "reserved F T b (snd r)" using assms(1) reserved_cong [of "snd r" s F T b] by simp
    then show ?thesis using Some eq assms(6) up1 by auto
  next
    case None
    then have spent: "funding_spent (bs_funding b) (snd r) = F + actual"
      using fund.settle_to_actual [OF _ reserved_fits [OF assms(1,5)]] assms(1) by (simp add: r_def reserved_def)
    have "fst t = None \<and> funding_spent (bs_funding b) (snd t) = F + actual \<and> up b (snd t)
        \<and> (\<not> ri_IsPlayground (bs_relayInfo b) \<longrightarrow> token_spent b (snd t) = T + actual)"
    proof (cases "ri_IsPlayground (bs_relayInfo b)")
      case True
      then show ?thesis using spent up1 by (simp add: t_def)
    next
      case False
      note at = adjust_token_up [OF up1 False, of env ?d]
      show ?thesis
        using spent at token_op_keeps(1) [OF at(3), of "bs_funding b"] False assms(1) tok(1) [of b]
        by (simp add: t_def reserved_def)
    qed
    then show ?thesis using None eq assms(6) same_token [of "after_settle ?d b" b] by auto
  qed
qed

section \<open>Reserving more\<close>

fun reserve_more :: "int \<Rightarrow> FundingSource \<Rightarrow> FundingSource" where
  "reserve_more d (Wallet w) = Wallet (w\<lparr>wf_consumed := wf_consumed w + d\<rparr>)"
| "reserve_more d (Subs f) = Subs f"

lemma reserve_more_simps [simp]:
  "funding_spent (reserve_more d f) = funding_spent f" "held (reserve_more d f) = held f"
  "Source (reserve_more d f) = Source f" "Funding_Settle env (reserve_more d f) = Funding_Settle env f"
  "reserve_more d (reserve_more c f) = reserve_more (c + d) f" "reserve_more 0 f = f"
  by (cases f; simp add: fun_eq_iff Wallet_Settle_def algebra_simps)+

lemma reserveFunding_settle:
  assumes "0 < d"
  shows "\<exists>e. reserveFunding env d b s =
    ((e, if e = None then b\<lparr>bs_funding := reserve_more d (bs_funding b)\<rparr> else b),
     snd (Funding_Settle env (bs_funding b) d s))
    \<and> (e = None \<longleftrightarrow> fst (Funding_Settle env (bs_funding b) d s) = None)"
  using assms
  by (cases "bs_funding b")
    (auto simp: reserveFunding_def Wallet_Settle_def Subscription_Settle_def split: prod.splits option.splits)

lemma rollback_settle:
  assumes "0 < d" "fst (Funding_Settle env (bs_funding b) (- d) s) = None"
  shows "rollbackFundingReserve env d b s =
    (b\<lparr>bs_funding := reserve_more (- d) (bs_funding b)\<rparr>, snd (Funding_Settle env (bs_funding b) (- d) s))"
  using assms
  by (cases "bs_funding b")
    (auto simp: rollbackFundingReserve_def Wallet_Settle_def Subscription_Settle_def split: prod.splits option.splits)

lemma GetTokenByKey_same:
  "db (snd (GetTokenByKey env key fromDB s)) = db s"
  "batchUpdateStores (snd (GetTokenByKey env key fromDB s)) = batchUpdateStores s"
  "faults s = [] \<Longrightarrow> faults (snd (GetTokenByKey env key fromDB s)) = []"
  by (simp_all add: GetTokenByKey_def cache_token_def first_token_eq split: option.splits)

lemma beside_tokens_same:
  "db s' = db s \<Longrightarrow> batchUpdateStores s' = batchUpdateStores s \<Longrightarrow> beside_tokens s' = beside_tokens s"
  by (simp add: beside_tokens_def)

lemma PreConsumeTokenQuota_facts:
  assumes "PreConsumeTokenQuota env info q s = (e, s')" "\<not> ri_IsPlayground info"
  shows "beside_tokens s' = beside_tokens s"
    "token_balance s' i = token_balance s i - (if e = None \<and> i = ri_TokenId info then q else 0)"
    "faults s = [] \<Longrightarrow> faults s' = []"
    "faults s = [] \<Longrightarrow> row tok_Id (tokens (db s)) i \<noteq> None \<Longrightarrow> row tok_Id (tokens (db s')) i \<noteq> None"
proof -
  define s1 where "s1 = snd (GetTokenByKey env (ri_TokenKey info) False s)"
  define dt where "dt = DecreaseTokenQuota env (ri_TokenId info) (ri_TokenKey info) q s1"
  have same: "db s1 = db s" "batchUpdateStores s1 = batchUpdateStores s" "faults s = [] \<Longrightarrow> faults s1 = []"
    by (simp_all add: s1_def GetTokenByKey_same)
  then have b1: "beside_tokens s1 = beside_tokens s" "token_balance s1 i = token_balance s i"
    using beside_tokens_same [OF same(1,2)] by (simp_all add: token_balance_def)
  consider "s' = s" "e \<noteq> None" | "s' = s1" "e \<noteq> None" | "dt = (e, s')"
    using assms unfolding dt_def s1_def
    by (auto simp: PreConsumeTokenQuota_def split: if_splits prod.splits sum.splits)
  note cases = this
  have dtb: "beside_tokens (snd dt) = beside_tokens s" using b1(1) by (simp add: dt_def token_acct.decr_beside)
  have dtk: "token_balance (snd dt) i = token_balance s i - (if fst dt = None \<and> i = ri_TokenId info then q else 0)"
    using b1(2) by (simp add: dt_def token_acct.decr_all_or_nothing)
  have dtf: "faults s = [] \<Longrightarrow> faults (snd dt) = []" using same(3) by (simp add: dt_def account_faults)
  have dtr: "row tok_Id (tokens (db (snd dt))) i \<noteq> None" if "faults s = []" "row tok_Id (tokens (db s)) i \<noteq> None"
  proof -
    have "token_live s1 i" using that same by (simp add: token_live_def)
    then have "token_live (snd dt) i" unfolding dt_def by (rule token_acct.decr_keeps_live)
    then show ?thesis by (simp add: token_live_def)
  qed
  show "beside_tokens s' = beside_tokens s" using cases b1(1) dtb by (cases rule: cases) auto
  show "token_balance s' i = token_balance s i - (if e = None \<and> i = ri_TokenId info then q else 0)"
    using cases b1(2) dtk by (cases rule: cases) auto
  show "faults s = [] \<Longrightarrow> faults s' = []" using cases same(3) dtf by (cases rule: cases) auto
  show "faults s = [] \<Longrightarrow> row tok_Id (tokens (db s)) i \<noteq> None \<Longrightarrow> row tok_Id (tokens (db s')) i \<noteq> None"
    using cases same dtr by (cases rule: cases) auto
qed

lemma syncRelayInfo_simps [simp]:
  "bs_funding (syncRelayInfo b) = bs_funding b" "bs_preConsumedQuota (syncRelayInfo b) = bs_preConsumedQuota b"
  "bs_tokenConsumed (syncRelayInfo b) = bs_tokenConsumed b" "bs_extraReserved (syncRelayInfo b) = bs_extraReserved b"
  "bs_settled (syncRelayInfo b) = bs_settled b" "bs_refunded (syncRelayInfo b) = bs_refunded b"
  "bs_fundingSettled (syncRelayInfo b) = bs_fundingSettled b" "bs_trusted (syncRelayInfo b) = bs_trusted b"
  "ri_TokenId (bs_relayInfo (syncRelayInfo b)) = ri_TokenId (bs_relayInfo b)"
  "ri_IsPlayground (bs_relayInfo (syncRelayInfo b)) = ri_IsPlayground (bs_relayInfo b)"
  "bs_funding b = Subs f \<Longrightarrow> ri_SubscriptionId (bs_relayInfo (syncRelayInfo b)) = sf_subscriptionId f"
  by (simp_all add: syncRelayInfo_def Let_def split: FundingSource.splits)

lemma reserved_shift:
  assumes "reserved F T b s" "0 \<le> d" "funding_spent (bs_funding b) s' = F + bs_preConsumedQuota b + d"
    "\<not> ri_IsPlayground (bs_relayInfo b) \<Longrightarrow> token_spent b s' = T + bs_preConsumedQuota b + d"
    "held (bs_funding b) s'"
  shows "reserved F T (syncRelayInfo (b\<lparr>bs_funding := reserve_more d (bs_funding b),
    bs_preConsumedQuota := bs_preConsumedQuota b + d, bs_tokenConsumed := bs_tokenConsumed b + d,
    bs_extraReserved := bs_extraReserved b + d\<rparr>)) s'"
  using assms by (cases "bs_funding b") (auto simp: reserved_def token_spent_def)

lemma reserveToken_facts:
  assumes "reserveToken env d b s = (e, s')" "up b s" "0 < d"
  shows "beside_tokens s' = beside_tokens s" "up b s'"
    "\<not> ri_IsPlayground (bs_relayInfo b) \<Longrightarrow> token_spent b s' = token_spent b s + (if e = None then d else 0)"
    "ri_IsPlayground (bs_relayInfo b) \<Longrightarrow> e = None"
proof -
  have pg: "e = None" "s' = s" if "ri_IsPlayground (bs_relayInfo b)" using assms(1) that by (simp_all add: reserveToken_def)
  have np: "\<exists>e1. PreConsumeTokenQuota env (bs_relayInfo b) d s = (e1, s') \<and> (e1 = None \<longleftrightarrow> e = None)"
    if "\<not> ri_IsPlayground (bs_relayInfo b)"
    using assms(1,3) that by (auto simp: reserveToken_def split: prod.splits option.splits)
  show "beside_tokens s' = beside_tokens s"
    using pg np PreConsumeTokenQuota_facts(1) by (metis (full_types))
  show "\<not> ri_IsPlayground (bs_relayInfo b) \<Longrightarrow> token_spent b s' = token_spent b s + (if e = None then d else 0)"
    using np PreConsumeTokenQuota_facts(2) [of env "bs_relayInfo b" d s _ s' "ri_TokenId (bs_relayInfo b)"]
    by (auto simp: token_spent_def)
  show "ri_IsPlayground (bs_relayInfo b) \<Longrightarrow> e = None" by (rule pg(1))
  show "up b s'"
  proof (cases "ri_IsPlayground (bs_relayInfo b)")
    case False
    then obtain e1 where p: "PreConsumeTokenQuota env (bs_relayInfo b) d s = (e1, s')" using np by blast
    show ?thesis
      using PreConsumeTokenQuota_facts(3,4) [OF p False] assms(2) by (simp add: up_def)
  qed (use pg assms(2) in simp)
qed

lemma Reserve_open:
  assumes "reserved F T b s" "up b s" "\<not> bs_settled b" "\<not> bs_refunded b"
    and "Reserve env target b s = ((e, b'), s')"
  shows "reserved F T b' s' \<and> up b' s' \<and> bs_settled b' = bs_settled b \<and> bs_refunded b' = bs_refunded b
    \<and> bs_fundingSettled b' = bs_fundingSettled b
    \<and> (if e = None then bs_trusted b \<or> bs_preConsumedQuota b' = max (bs_preConsumedQuota b) target else b' = b)"
proof (cases "bs_trusted b \<or> target \<le> bs_preConsumedQuota b")
  case True
  then show ?thesis using assms by (auto simp: Reserve_def)
next
  case False
  define d where "d = target - bs_preConsumedQuota b"
  have d: "0 < d" using False by (simp add: d_def)
  let ?f = "bs_funding b"
  define r where "r = Funding_Settle env ?f d s"
  have f0: "faults s = []" "held ?f s" "0 \<le> bs_preConsumedQuota b" using assms(1,2) by (auto simp: up_def reserved_def)
  have "0 \<le> target" using d f0(3) by (simp add: d_def)
  from reserved_fits [OF assms(1) this] have fits: "funding_fits ?f s d" by (simp add: d_def)
  have side: "token_side (snd r) = token_side s" "faults (snd r) = []"
    using fund.settle_side fund.settle_up [OF f0(1)] by (simp_all add: r_def)
  have up1: "up b (snd r)" using funding_op_keeps(2) [OF side] assms(2) .
  have held1: "held ?f (snd r)" using held_settle [OF f0(2,1)] by (simp add: r_def)
  obtain e1 where rf: "reserveFunding env d b s =
      ((e1, if e1 = None then b\<lparr>bs_funding := reserve_more d ?f\<rparr> else b), snd r)" "e1 = None \<longleftrightarrow> fst r = None"
    using reserveFunding_settle [OF d, of env b s] by (auto simp: r_def)
  note run = assms(5) [unfolded Reserve_def Let_def, folded d_def]
  show ?thesis
  proof (cases e1)
    case (Some x)
    then have "e = Some x" "b' = b" "s' = snd r" using run rf assms(3,4) False by auto
    moreover have "db (snd r) = db s \<and> batchUpdateStores (snd r) = batchUpdateStores s"
      using settle_err_same [OF f0(2,1), of env d] rf(2) Some by (auto simp: r_def)
    then have "reserved F T b (snd r)" using assms(1) reserved_cong [of "snd r" s F T b] by simp
    ultimately show ?thesis using up1 by simp
  next
    case None
    define b1 where "b1 = b\<lparr>bs_funding := reserve_more d ?f\<rparr>"
    obtain e2 s2 where rt: "reserveToken env d b1 (snd r) = (e2, s2)" by fastforce
    have up_b1: "up b1 (snd r)" using up1 same_token(2) [of b1 b] by (simp add: b1_def)
    note tf = reserveToken_facts [OF rt up_b1 d]
    have spent2: "funding_spent ?f s2 = F + bs_preConsumedQuota b + d"
      using fund.settle_ok [of env ?f d s] fits rf(2) None assms(1) token_op_keeps(1) [OF tf(1), of ?f]
      by (simp add: r_def reserved_def)
    have held2: "held ?f s2" using held1 token_op_keeps(2) [OF tf(1), of ?f] by simp
    have up2: "up b s2" using tf(2) same_token(2) [of b1 b s2] by (simp add: b1_def)
    have tok2: "token_spent b s2 = T + bs_preConsumedQuota b + (if e2 = None then d else 0)"
      if "\<not> ri_IsPlayground (bs_relayInfo b)"
      using tf(3) that funding_op_keeps(1) [OF side(1), of b] assms(1) same_token(1) [of b1 b]
      by (simp add: b1_def reserved_def)
    show ?thesis
    proof (cases e2)
      case None
      note n2 = None
      have "e = None" "s' = s2" and b': "b' = syncRelayInfo (b\<lparr>bs_funding := reserve_more d ?f,
          bs_preConsumedQuota := bs_preConsumedQuota b + d, bs_tokenConsumed := bs_tokenConsumed b + d,
          bs_extraReserved := bs_extraReserved b + d\<rparr>)"
        using run rf \<open>e1 = None\<close> rt n2 assms(3,4) False by (auto simp: b1_def)
      moreover have "reserved F T b' s2"
        unfolding b' by (rule reserved_shift [OF assms(1)]) (use d spent2 held2 tok2 n2 in auto)
      ultimately show ?thesis
        using up2 same_token(2) [of b' b s2] d by (simp add: d_def)
    next
      case (Some x)
      then have np: "\<not> ri_IsPlayground (bs_relayInfo b)" using tf(4) by (auto simp: b1_def)
      have ok: "fst (Funding_Settle env (bs_funding b1) (- d) s2) = None"
        using settle_back [OF held2 _ order_less_imp_le [OF d]] up2 by (simp add: b1_def up_def)
      define r2 where "r2 = Funding_Settle env ?f (- d) s2"
      have "b' = b" "e = Some x" "s' = snd r2"
        using run rf \<open>e1 = None\<close> rt Some assms(3,4) False rollback_settle [OF d ok]
        by (auto simp: b1_def r2_def)
      moreover have "funding_fits ?f s2 (- d)" using spent2 assms(1) f0(3) by (cases ?f) (auto simp: reserved_def)
      then have "funding_spent ?f (snd r2) = F + bs_preConsumedQuota b"
        using fund.settle_ok [of env ?f "- d" s2] ok spent2 by (simp add: r2_def b1_def)
      moreover have side2: "token_side (snd r2) = token_side s2" "faults (snd r2) = []"
        using fund.settle_side fund.settle_up up2 by (simp_all add: r2_def up_def)
      moreover have "held ?f (snd r2)" using held_settle [OF held2] up2 by (simp add: r2_def up_def)
      ultimately show ?thesis
        using funding_op_keeps(1) [OF side2(1), of b] funding_op_keeps(2) [OF side2 up2] tok2 [OF np] Some assms(1)
        by (simp add: reserved_def)
    qed
  qed
qed

section \<open>Refunding\<close>

lemma refundWithRetry_ok: "fn s = (None, s') \<Longrightarrow> refundWithRetry fn s = (None, s')"
  by (simp add: refundWithRetry_def numeral_3_eq_3)

text \<open>The subscription part of a refund: the recorded amount, then what was reserved on top.\<close>

lemma subscription_refund_open:
  fixes env :: env
  assumes "held (Subs f) s" "faults s = []" "0 < sf_preConsumed f" "0 \<le> extra"
    "sub_used s (sf_subscriptionId f) = F + sf_preConsumed f + extra" "0 \<le> F"
  defines "s1 \<equiv> snd (Subscription_Refund env f s)"
  defines "s2 \<equiv> (if 0 < extra then snd (PostConsumeUserSubscriptionDelta env (sf_subscriptionId f) (- extra) s1) else s1)"
  shows "sub_used s2 (sf_subscriptionId f) = F" "beside_subs s2 = beside_subs s" "faults s2 = []"
proof -
  let ?i = "sf_subscriptionId f"
  obtain p x where p: "row pre_RequestId (preRecords (db s)) (sf_requestId f) = Some p" "pre_Status p = ''consumed''"
    "pre_UserSubscriptionId p = ?i" "pre_PreConsumed p = sf_preConsumed f"
    and x: "row sub_Id (subs (db s)) ?i = Some x" "sub_ok x" and i: "0 < ?i" "TrimSpace (sf_requestId f) \<noteq> ''''"
    using assms(1) by auto
  let ?x = "x\<lparr>sub_AmountUsed := F + extra, sub_UpdatedAt := GetTimestamp env\<rparr>"
  have used: "sub_AmountUsed x = F + sf_preConsumed f + extra" using x(1) assms(5) by (simp add: sub_used_def)
  obtain s' where r: "RefundSubscriptionPreConsume env (sf_requestId f) s = (None, s')" "faults s' = []"
    "row sub_Id (subs (db s')) ?i = Some ?x"
    using Refund_up [OF assms(2) i(2) p(1)] p(2-4) x assms(3,4,6) i(1) used by force
  have s1: "s1 = s'" using refundWithRetry_ok [of "RefundSubscriptionPreConsume env (sf_requestId f)" s s'] r(1) assms(3) by (simp add: s1_def Subscription_Refund_def)
  have b1: "beside_subs s1 = beside_subs s" using Refund_facts(1) [of env "sf_requestId f" s] r(1) s1 by simp
  have used1: "sub_used s1 ?i = F + extra" using r(3) s1 by (simp add: sub_used_def)
  have "sub_ok ?x" using x(2) used assms(3,4,6) by (auto simp: sub_ok_def)
  then have fits: "\<not> (0 < sub_AmountTotal ?x \<and> sub_AmountTotal ?x < max 0 (sub_AmountUsed ?x + - extra))"
    using assms(4) by (auto simp: sub_ok_def)
  note post = PostConsume_up [OF r(2) i(1) r(3) fits, of env]
  show "sub_used s2 ?i = F"
    using post PostConsume_used(1) [of env ?i "- extra" s1] used1 assms(4,6) s1 by (auto simp: s2_def)
  show "beside_subs s2 = beside_subs s" using b1 PostConsume_facts(1) by (simp add: s2_def)
  show "faults s2 = []" using post r(2) s1 by (simp add: s2_def)
qed

lemma RefundD:
  assumes "Refund b = (b', Some j)"
  shows "needsRefundLocked b" "\<not> bs_settled b" "\<not> bs_refunded b" "b' = b\<lparr>bs_refunded := True\<rparr>"
    "rj_tokenId j = ri_TokenId (bs_relayInfo b)" "rj_tokenKey j = ri_TokenKey (bs_relayInfo b)"
    "rj_isPlayground j = ri_IsPlayground (bs_relayInfo b)" "rj_tokenConsumed j = bs_tokenConsumed b"
    "rj_extraReserved j = bs_extraReserved b" "rj_subscriptionId j = ri_SubscriptionId (bs_relayInfo b)"
    "rj_funding j = bs_funding b"
  using assms by (auto simp: Refund_def split: if_splits)

text \<open>The goroutine's work on the funding source, before it gives the token its quota back.\<close>

definition refund_funding :: "env \<Rightarrow> refund_job \<Rightarrow> store \<Rightarrow> store" where
  "refund_funding env j s =
    (let s1 = snd (Funding_Refund env (rj_funding j) s)
     in if 0 < rj_extraReserved j \<and> Source (rj_funding j) = ''subscription'' \<and> 0 < rj_subscriptionId j
        then snd (PostConsumeUserSubscriptionDelta env (rj_subscriptionId j) (- rj_extraReserved j) s1) else s1)"

lemma run_refund_eq:
  "run_refund env j s =
    (if 0 < rj_tokenConsumed j \<and> \<not> rj_isPlayground j
     then snd (IncreaseTokenQuota env (rj_tokenId j) (rj_tokenKey j) (rj_tokenConsumed j) (refund_funding env j s))
     else refund_funding env j s)"
  by (simp add: run_refund_def refund_funding_def Let_def)

lemma refund_funding_open:
  assumes "reserved F T b s" "up b s" "Refund b = (b', Some j)"
  shows "funding_spent (bs_funding b) (refund_funding env j s) = F"
    "token_side (refund_funding env j s) = token_side s" "faults (refund_funding env j s) = []"
proof -
  note j = RefundD [OF assms(3)]
  have f0: "faults s = []" "held (bs_funding b) s" using assms(1,2) by (auto simp: up_def reserved_def)
  have "funding_spent (bs_funding b) (refund_funding env j s) = F
    \<and> token_side (refund_funding env j s) = token_side s \<and> faults (refund_funding env j s) = []"
  proof (cases "bs_funding b")
    case (Wallet w)
    then have c: "wf_consumed w = bs_preConsumedQuota b" "0 < wf_consumed w"
      using assms(1) j(1) by (auto simp: reserved_def needsRefundLocked_def)
    then have eq: "refund_funding env j s = snd (Funding_Settle env (Wallet w) (- wf_consumed w) s)"
      using j Wallet by (simp add: refund_funding_def Wallet_Refund_def Wallet_Settle_def)
    have "fst (Funding_Settle env (Wallet w) (- wf_consumed w) s) = None"
      using settle_back [of "Wallet w" s "wf_consumed w" env] f0 Wallet c(2) by simp
    then show ?thesis
      using fund.settle_ok [of env "Wallet w" "- wf_consumed w" s] fund.settle_side [of env "Wallet w" "- wf_consumed w" s]
        fund.settle_up [OF f0(1), of env "Wallet w"] assms(1) Wallet c(1) unfolding eq by (simp add: reserved_def)
  next
    case (Subs f)
    then have p: "sf_preConsumed f + bs_extraReserved b = bs_preConsumedQuota b" "0 < sf_preConsumed f"
      "0 \<le> bs_extraReserved b" "ri_SubscriptionId (bs_relayInfo b) = sf_subscriptionId f" "0 \<le> F" "0 < sf_subscriptionId f"
      "sub_used s (sf_subscriptionId f) = F + sf_preConsumed f + bs_extraReserved b"
      using assms(1) by (auto simp: reserved_def)
    note r = subscription_refund_open [OF f0(2) [unfolded Subs] f0(1) p(2,3,7,5), of env]
    have eq: "refund_funding env j s = (if 0 < bs_extraReserved b then snd (PostConsumeUserSubscriptionDelta env
        (sf_subscriptionId f) (- bs_extraReserved b) (snd (Subscription_Refund env f s))) else snd (Subscription_Refund env f s))"
      using j Subs p(4,6) by (simp add: refund_funding_def)
    show ?thesis using r token_side_subs [OF r(2)] Subs unfolding eq by simp
  qed
  then show "funding_spent (bs_funding b) (refund_funding env j s) = F"
    "token_side (refund_funding env j s) = token_side s" "faults (refund_funding env j s) = []" by simp_all
qed

lemma run_refund_open:
  assumes "reserved F T b s" "up b s" "Refund b = (b', Some j)"
  shows "funding_spent (bs_funding b) (run_refund env j s) = F"
    "\<not> ri_IsPlayground (bs_relayInfo b) \<Longrightarrow> token_spent b (run_refund env j s) = T" "up b (run_refund env j s)"
proof -
  note j = RefundD [OF assms(3)] and f = refund_funding_open [OF assms, of env]
  let ?s = "refund_funding env j s" and ?i = "ri_TokenId (bs_relayInfo b)" and ?k = "ri_TokenKey (bs_relayInfo b)"
  have up1: "up b ?s" using funding_op_keeps(2) [OF f(2,3) assms(2)] .
  have tc: "bs_tokenConsumed b = bs_preConsumedQuota b" "0 \<le> bs_preConsumedQuota b"
    using assms(1) by (auto simp: reserved_def)
  show "funding_spent (bs_funding b) (run_refund env j s) = F"
    using f(1) token_op_keeps(1) [OF token_acct.inc_beside] by (simp add: run_refund_eq)
  show "token_spent b (run_refund env j s) = T" if np: "\<not> ri_IsPlayground (bs_relayInfo b)"
  proof -
    have "fst (IncreaseTokenQuota env ?i ?k (bs_tokenConsumed b) ?s) = None"
      using token_acct.inc_live [OF up_token [OF up1 np]] tc by simp
    then have "token_spent b (snd (IncreaseTokenQuota env ?i ?k (bs_tokenConsumed b) ?s)) = token_spent b ?s - bs_tokenConsumed b"
      using token_acct.inc_ok [of env ?i ?k "bs_tokenConsumed b" ?s ?i] by (simp add: token_spent_def)
    then show ?thesis
      using j np tc funding_op_keeps(1) [OF f(2), of b] assms(1) by (auto simp: run_refund_eq reserved_def)
  qed
  have "token_live (snd (IncreaseTokenQuota env ?i ?k (bs_tokenConsumed b) ?s)) ?i" if "\<not> ri_IsPlayground (bs_relayInfo b)"
    using token_acct.inc_keeps_live [OF up_token [OF up1 that]] .
  then show "up b (run_refund env j s)" using up1 j by (auto simp: run_refund_eq up_def token_live_def)
qed

section \<open>The life of a session\<close>

text \<open>
  A session, the refund that is still to run, and the store.  Reservations and refunds may
  come at any time; the relay settles a session only while it has not refunded it.
\<close>

inductive billing_step ::
    "env \<Rightarrow> BillingSession \<times> refund_job option \<times> store \<Rightarrow> BillingSession \<times> refund_job option \<times> store \<Rightarrow> bool" for env where
  reserve: "Reserve env target b s = ((e, b'), s') \<Longrightarrow> billing_step env (b, j, s) (b', j, s')"
| settle: "\<not> bs_refunded b \<Longrightarrow> 0 \<le> actual \<Longrightarrow> Settle env actual b s = ((e, b'), s') \<Longrightarrow>
    billing_step env (b, j, s) (b', j, s')"
| refund: "Refund b = (b', Some j) \<Longrightarrow> billing_step env (b, None, s) (b', Some j, s)"
| refund_nothing: "Refund b = (b', None) \<Longrightarrow> billing_step env (b, j, s) (b', j, s)"
| run: "billing_step env (b, Some j, s) (b, None, run_refund env j s)"

inductive_cases billing_stepE: "billing_step env x y"

text \<open>
  The accounts of a session at any moment of its life, and what they have been charged by it:
  what it reserved while it is open, the same amount on both once it is settled, nothing once its refund
  has run.
\<close>

fun session_inv :: "int \<Rightarrow> int \<Rightarrow> BillingSession \<times> refund_job option \<times> store \<Rightarrow> bool" where
  "session_inv F T (b, j, s) \<longleftrightarrow> up b s \<and>
    (if bs_settled b then \<not> bs_refunded b \<and> j = None \<and>
       (\<exists>a. funding_spent (bs_funding b) s = F + a \<and> (\<not> ri_IsPlayground (bs_relayInfo b) \<longrightarrow> token_spent b s = T + a))
     else if bs_refunded b then
       (case j of
          Some job \<Rightarrow> reserved F T b s \<and> Refund (b\<lparr>bs_refunded := False\<rparr>) = (b, Some job)
        | None \<Rightarrow> funding_spent (bs_funding b) s = F \<and> (\<not> ri_IsPlayground (bs_relayInfo b) \<longrightarrow> token_spent b s = T))
     else j = None \<and> reserved F T b s \<and> \<not> bs_fundingSettled b)"

lemma refunded_flag [simp]:
  "parts f (b\<lparr>bs_refunded := v\<rparr>) = parts f b" "token_spent (b\<lparr>bs_refunded := v\<rparr>) s = token_spent b s"
  "up (b\<lparr>bs_refunded := v\<rparr>) s = up b s" "reserved F T (b\<lparr>bs_refunded := v\<rparr>) s = reserved F T b s"
proof -
  show p: "parts f (b\<lparr>bs_refunded := v\<rparr>) = parts f b" for f by (cases f) simp_all
  show "token_spent (b\<lparr>bs_refunded := v\<rparr>) s = token_spent b s" "up (b\<lparr>bs_refunded := v\<rparr>) s = up b s"
    by (simp_all add: token_spent_def up_def)
  then show "reserved F T (b\<lparr>bs_refunded := v\<rparr>) s = reserved F T b s" by (simp add: reserved_def p)
qed

lemma billing_step_inv:
  assumes "billing_step env x y" "session_inv F T x"
  shows "session_inv F T y"
  using assms
proof (induction rule: billing_step.induct)
  case (reserve target b s e b' s' j)
  show ?case
  proof (cases "bs_settled b \<or> bs_refunded b")
    case True
    then show ?thesis using reserve by (auto simp: Reserve_def)
  next
    case False
    then show ?thesis using reserve Reserve_open [of F T b s env target e b' s'] by auto
  qed
next
  case (settle b actual s e b' s' j)
  show ?case
  proof (cases "bs_settled b")
    case True
    then show ?thesis using settle by (simp add: Settle_def)
  next
    case False
    then show ?thesis
      using settle Settle_open [of F T b s actual env e b' s'] by (cases e) auto
  qed
next
  case (refund b b' j s)
  note r = RefundD [OF refund.hyps]
  have "b\<lparr>bs_refunded := False\<rparr> = b" using r(3) by simp
  then have "Refund (b\<lparr>bs_refunded := False\<rparr>) = (b\<lparr>bs_refunded := True\<rparr>, Some j)"
    using refund.hyps r(4) by (simp only:)
  then show ?case using refund.prems r(2-4) by simp
next
  case (refund_nothing b b' j s)
  then show ?case by (auto simp: Refund_def split: if_splits)
next
  case (run b j s)
  then have i: "reserved F T (b\<lparr>bs_refunded := False\<rparr>) s" "up (b\<lparr>bs_refunded := False\<rparr>) s" "bs_refunded b" "\<not> bs_settled b"
    "Refund (b\<lparr>bs_refunded := False\<rparr>) = (b, Some j)"
    by (auto split: if_splits)
  show ?case using run_refund_open [OF i(1,2,5), of env] i(3,4) by simp
qed

section \<open>Statements that do not fail\<close>

lemma maybeReset_faults:
  assumes "maybeResetUserSubscriptionWithPlanTx env sub plan now s = Some (e, sub', s')" "faults s = []"
  shows "faults s' = []"
  using assms
  by (auto simp: maybeResetUserSubscriptionWithPlanTx_def save_sub_eq Let_def set_subs_def
      split: if_splits option.splits bool.splits)

lemma plan_faults: "faults s = [] \<Longrightarrow> faults (snd (getSubscriptionPlanByIdTx env i s)) = []"
  by (simp add: getSubscriptionPlanByIdTx_def split: option.splits)

lemma consume_from_faults: "faults s = [] \<Longrightarrow> faults (snd (consume_from env requestId userId amount sub s)) = []"
  by (simp add: consume_from_def create_preRecord_eq duplicate_result_def save_sub_eq fresh_id_def set_preRecords_def
      set_subs_def Let_def split: option.splits)

lemma preConsume_candidates_faults:
  assumes "preConsume_candidates env requestId userId amount now cs s = Some (r, s')" "faults s = []"
  shows "faults s' = []"
  using assms
proof (induction cs arbitrary: s)
  case (Cons c cs)
  obtain p s1 where p: "getSubscriptionPlanByIdTx env (sub_PlanId c) s = (p, s1)" by fastforce
  have f1: "faults s1 = []" using plan_faults [OF Cons.prems(2), of env "sub_PlanId c"] p by simp
  show ?case
  proof (cases p)
    case (Inl e)
    then show ?thesis using Cons.prems p f1 by simp
  next
    case (Inr plan)
    then obtain err sub s2 where m: "maybeResetUserSubscriptionWithPlanTx env c plan now s1 = Some (err, sub, s2)"
      using Cons.prems p by (cases "maybeResetUserSubscriptionWithPlanTx env c plan now s1") auto
    note f2 = maybeReset_faults [OF m f1]
    show ?thesis
      using Cons.prems p Inr m f2 Cons.IH [of s2] consume_from_faults [OF f2, of env requestId userId amount sub]
      by (cases err) (auto split: if_splits)
  qed
qed simp

lemma PreConsume_faults:
  assumes "PreConsumeUserSubscription env requestId userId amount s = Some (r, s')" "faults s = []"
  shows "faults s' = []"
proof -
  have "faults s1 = []" if "preConsume_body env requestId userId amount now s = Some (x, s1)" for now x s1
    using that assms(2) preConsume_candidates_faults [of env requestId userId amount now _ s x s1]
    by (auto simp: preConsume_body_def Let_def split: option.splits if_splits)
  note body = this
  show ?thesis
  proof (cases "userId \<le> 0 \<or> TrimSpace requestId = '''' \<or> amount \<le> 0")
    case True
    then show ?thesis using assms by (auto simp: PreConsumeUserSubscription_def split: if_splits)
  next
    case False
    then obtain now x s1 where b: "preConsume_body env requestId userId amount now s = Some (x, s1)"
      and t: "(r, s') = tx_end (db s) (x, s1)"
      using assms by (auto simp: PreConsumeUserSubscription_def GetDBTimestamp_def transaction_opt_eq)
    then show ?thesis using body [OF b] by (cases x) (auto simp: tx_end_eq)
  qed
qed

text \<open>What the pre-consumption started from was not negative.\<close>

lemma preConsume_candidates_before:
  assumes "preConsume_candidates env requestId userId amount now cs s = Some (Inr r, s')"
    "row pre_RequestId (preRecords (db s)) requestId = None" "\<forall>c \<in> set cs. 0 \<le> sub_AmountUsed c"
  shows "0 \<le> res_AmountUsedBefore r"
  using assms
proof (induction cs arbitrary: s)
  case (Cons c cs)
  obtain p s1 where p: "getSubscriptionPlanByIdTx env (sub_PlanId c) s = (p, s1)" by fastforce
  have db1: "db s1 = db s" using getSubscriptionPlanByIdTx_db [of env "sub_PlanId c" s] p by simp
  obtain plan where plan: "p = Inr plan" using Cons.prems p by (cases p) auto
  then obtain err sub s2 where m: "maybeResetUserSubscriptionWithPlanTx env c plan now s1 = Some (err, sub, s2)"
    using Cons.prems p by (cases "maybeResetUserSubscriptionWithPlanTx env c plan now s1") auto
  note mf = maybeReset_facts(2,5) [OF m]
  have none2: "row pre_RequestId (preRecords (db s2)) requestId = None" using mf db1 Cons.prems by simp
  consider (skip) "preConsume_candidates env requestId userId amount now cs s2 = Some (Inr r, s')"
    | (take) "consume_from env requestId userId amount sub s2 = (Inr r, s')"
    using Cons.prems p plan m by (cases err) (auto split: if_splits)
  then show ?case
  proof cases
    case skip
    then show ?thesis using Cons.IH [OF skip none2] Cons.prems(3) by simp
  next
    case take
    then show ?thesis using consume_from_ok [OF take none2] mf(2) Cons.prems(3) by (auto simp: result_of_def)
  qed
qed simp

lemma PreConsume_before:
  assumes "PreConsumeUserSubscription env requestId userId amount s = Some (Inr r, s')"
    "row pre_RequestId (preRecords (db s)) requestId = None" "subs_ok s"
  shows "0 \<le> res_AmountUsedBefore r"
proof -
  obtain now s1 where n: "GetDBTimestamp env s = (now, s1)" by fastforce
  have db1: "db s1 = db s" using GetDBTimestamp_db [of env s] n by simp
  have "transaction_opt (preConsume_body env requestId userId amount now) s1 = Some (Inr r, s')"
    using assms(1) n by (auto simp: PreConsumeUserSubscription_def split: if_splits)
  from transaction_optD [OF this]
  obtain s2 where b: "preConsume_body env requestId userId amount now (snd (stmt s1)) = Some (Inr r, s2)" by auto
  let ?cs = "sort_by end_before (filter (active_for userId now) (subs (db s)))"
  have "preConsume_candidates env requestId userId amount now ?cs (snd (stmt (snd (stmt (snd (stmt s1)))))) = Some (Inr r, s2)"
    using b assms(2) db1 by (auto simp: preConsume_body_def case_stmt Let_def split: if_splits)
  then show ?thesis
    using preConsume_candidates_before assms(2,3) db1 by (fastforce simp: subs_ok_def sub_ok_def)
qed

section \<open>Reads\<close>

lemma GetUserQuota_same:
  "db (snd (GetUserQuota env i fromDB s)) = db s"
  "batchUpdateStores (snd (GetUserQuota env i fromDB s)) = batchUpdateStores s"
  "faults s = [] \<Longrightarrow> faults (snd (GetUserQuota env i fromDB s)) = []"
  by (simp_all add: GetUserQuota_def GetUserCache_def GetUserById_def find_user_eq case_stmt Let_def
      split: option.splits sum.splits prod.splits)

lemma plan_info_same:
  "db (snd (GetSubscriptionPlanInfoByUserSubscriptionId env i s)) = db s"
  "batchUpdateStores (snd (GetSubscriptionPlanInfoByUserSubscriptionId env i s)) = batchUpdateStores s"
  "faults s = [] \<Longrightarrow> faults (snd (GetSubscriptionPlanInfoByUserSubscriptionId env i s)) = []"
proof -
  obtain a s1 where a: "find_sub i s = (a, s1)" by fastforce
  have s1: "db s1 = db s" "batchUpdateStores s1 = batchUpdateStores s" "faults s = [] \<Longrightarrow> faults s1 = []"
    using a by (auto simp: find_sub_def case_stmt split: if_splits option.splits)
  have "db s' = db s \<and> batchUpdateStores s' = batchUpdateStores s \<and> (faults s = [] \<longrightarrow> faults s' = [])"
    if "GetSubscriptionPlanInfoByUserSubscriptionId env i s = (r, s')" for r s'
  proof (cases a)
    case (Inl e)
    then show ?thesis
      using that a s1 by (auto simp: GetSubscriptionPlanInfoByUserSubscriptionId_def split: if_splits option.splits)
  next
    case (Inr x)
    obtain p s2 where p: "getSubscriptionPlanByIdTx env (sub_PlanId x) s1 = (p, s2)" by fastforce
    have "db s2 = db s1" "batchUpdateStores s2 = batchUpdateStores s1" "faults s1 = [] \<Longrightarrow> faults s2 = []"
      using getSubscriptionPlanByIdTx_db [of env "sub_PlanId x" s1] plan_faults [of s1 env "sub_PlanId x"] p by simp_all
    then show ?thesis
      using that a Inr p s1
      by (cases p) (auto simp: GetSubscriptionPlanInfoByUserSubscriptionId_def split: if_splits option.splits)
  qed
  then show "db (snd (GetSubscriptionPlanInfoByUserSubscriptionId env i s)) = db s"
    "batchUpdateStores (snd (GetSubscriptionPlanInfoByUserSubscriptionId env i s)) = batchUpdateStores s"
    "faults s = [] \<Longrightarrow> faults (snd (GetSubscriptionPlanInfoByUserSubscriptionId env i s)) = []"
    by (metis prod.collapse)+
qed

lemma active_same:
  "db (snd (HasActiveUserSubscription env i s)) = db s"
  "batchUpdateStores (snd (HasActiveUserSubscription env i s)) = batchUpdateStores s"
  "faults s = [] \<Longrightarrow> faults (snd (HasActiveUserSubscription env i s)) = []"
  "db (snd (UserActiveSubscriptionsAllowWalletOverflow env i s)) = db s"
  "batchUpdateStores (snd (UserActiveSubscriptionsAllowWalletOverflow env i s)) = batchUpdateStores s"
  "faults s = [] \<Longrightarrow> faults (snd (UserActiveSubscriptionsAllowWalletOverflow env i s)) = []"
  by (simp_all add: HasActiveUserSubscription_def UserActiveSubscriptionsAllowWalletOverflow_def case_stmt)

section \<open>The first reservation in detail\<close>

text \<open>The token's share of the first reservation was taken, or there was none to take.\<close>

definition token_taken :: "env \<Rightarrow> RelayInfo \<Rightarrow> int \<Rightarrow> store \<Rightarrow> store \<Rightarrow> bool" where
  "token_taken env info eff s s1 \<longleftrightarrow>
    (if 0 < eff then PreConsumeTokenQuota env info eff s = (None, s1) else s1 = s)"

lemma token_takenD:
  assumes "token_taken env info eff s s1" "0 \<le> eff"
  shows "beside_tokens s1 = beside_tokens s"
    "token_balance s1 i = token_balance s i - (if \<not> ri_IsPlayground info \<and> i = ri_TokenId info then eff else 0)"
    "faults s = [] \<Longrightarrow> faults s1 = []"
    "faults s = [] \<Longrightarrow> row tok_Id (tokens (db s)) i \<noteq> None \<Longrightarrow> row tok_Id (tokens (db s1)) i \<noteq> None"
proof -
  consider "eff = 0" "s1 = s" | "0 < eff" "ri_IsPlayground info" "s1 = s"
    | (np) "0 < eff" "\<not> ri_IsPlayground info" "PreConsumeTokenQuota env info eff s = (None, s1)"
    using assms by (cases "ri_IsPlayground info") (auto simp: token_taken_def PreConsumeTokenQuota_def split: if_splits)
  note cases = this
  show "beside_tokens s1 = beside_tokens s"
    using cases PreConsumeTokenQuota_facts(1) [of env info eff s None s1] by (cases rule: cases) auto
  show "token_balance s1 i = token_balance s i - (if \<not> ri_IsPlayground info \<and> i = ri_TokenId info then eff else 0)"
    using cases PreConsumeTokenQuota_facts(2) [of env info eff s None s1 i] by (cases rule: cases) auto
  show "faults s = [] \<Longrightarrow> faults s1 = []"
    using cases PreConsumeTokenQuota_facts(3) [of env info eff s None s1] by (cases rule: cases) auto
  show "faults s = [] \<Longrightarrow> row tok_Id (tokens (db s)) i \<noteq> None \<Longrightarrow> row tok_Id (tokens (db s1)) i \<noteq> None"
    using cases PreConsumeTokenQuota_facts(4) [of env info eff s None s1 i] by (cases rule: cases) auto
qed

definition opened :: "RelayInfo \<Rightarrow> bool \<Rightarrow> FundingSource \<Rightarrow> int \<Rightarrow> BillingSession" where
  "opened info trusted f eff = syncRelayInfo ((new_session info f)\<lparr>bs_trusted := trusted, bs_tokenConsumed := eff,
     bs_preConsumedQuota := eff\<rparr>)"

lemma preConsume_cases:
  assumes "preConsume env tq q (new_session info f) s = Some ((e, b), s')" "0 \<le> q"
  defines "eff \<equiv> (if shouldTrust env tq (new_session info f) then 0 else q)"
  obtains (no_token) e1 where "e \<noteq> None" "\<not> ri_IsPlayground info" "PreConsumeTokenQuota env info eff s = (Some e1, s')"
  | (no_funding) s1 e1 f' s2 where "e \<noteq> None" "token_taken env info eff s s1"
      "Funding_PreConsume env f eff s1 = Some ((Some e1, f'), s2)"
      "s' = (if 0 < eff \<and> \<not> ri_IsPlayground info
             then snd (IncreaseTokenQuota env (ri_TokenId info) (ri_TokenKey info) eff s2) else s2)"
  | (ok) s1 f' where "e = None" "token_taken env info eff s s1" "Funding_PreConsume env f eff s1 = Some ((None, f'), s')"
      "b = opened info (shouldTrust env tq (new_session info f)) f' eff"
proof -
  let ?t = "shouldTrust env tq (new_session info f)"
  let ?b = "(new_session info f)\<lparr>bs_trusted := ?t, bs_tokenConsumed := eff\<rparr>"
  have eff: "0 \<le> eff" using assms(2) by (simp add: eff_def)
  have fund: "thesis" if "token_taken env info eff s s1" "preConsume_funding env eff ?b s1 = Some ((e, b), s')" for s1
    using that no_funding [of s1] ok [of s1]
    by (cases "Funding_PreConsume env f eff s1")
      (auto simp: preConsume_funding_def new_session_def opened_def split: option.splits if_splits prod.splits)
  show thesis
  proof (cases "0 < eff")
    case False
    then have "eff = 0" using eff by simp
    moreover have "preConsume_funding env eff ?b s = Some ((e, b), s')"
      using assms(1) False \<open>eff = 0\<close> unfolding preConsume_def Let_def eff_def [symmetric] by (simp add: new_session_def)
    ultimately show thesis using fund [of s] by (simp add: token_taken_def)
  next
    case True
    obtain e1 s1 where p: "PreConsumeTokenQuota env info eff s = (e1, s1)" by fastforce
    show thesis
    proof (cases e1)
      case None
      then have "preConsume_funding env eff ?b s1 = Some ((e, b), s')"
        using assms(1) True p unfolding preConsume_def Let_def eff_def [symmetric] by (simp add: new_session_def)
      then show thesis using fund [of s1] True p None by (simp add: token_taken_def)
    next
      case (Some x)
      have "\<not> ri_IsPlayground info" using p Some eff by (auto simp: PreConsumeTokenQuota_def)
      moreover have "e \<noteq> None" "s1 = s'"
        using assms(1) True p Some unfolding preConsume_def Let_def eff_def [symmetric] by (auto simp: new_session_def)
      ultimately show thesis using no_token p Some by simp
    qed
  qed
qed

text \<open>The database is up and the token of the request, if it has one, exists.\<close>

definition token_there :: "RelayInfo \<Rightarrow> store \<Rightarrow> bool" where
  "token_there info s \<longleftrightarrow> faults s = [] \<and>
    (\<not> ri_IsPlayground info \<longrightarrow> row tok_Id (tokens (db s)) (ri_TokenId info) \<noteq> None)"

lemma token_taken_there:
  assumes "token_taken env info eff s s1" "0 \<le> eff" "token_there info s"
    "token_side s2 = token_side s1" "faults s1 = [] \<Longrightarrow> faults s2 = []"
  shows "token_there info s2"
  using token_takenD(3,4) [OF assms(1,2)] assms(3-5) by (auto simp: token_there_def token_side_def)

lemma rolled_back:
  assumes "token_taken env info eff s s1" "0 \<le> eff" "token_there info s"
    "token_side s2 = token_side s1" "faults s1 = [] \<Longrightarrow> faults s2 = []"
    and "s' = (if 0 < eff \<and> \<not> ri_IsPlayground info
      then snd (IncreaseTokenQuota env (ri_TokenId info) (ri_TokenKey info) eff s2) else s2)"
  shows "token_balance s' i = token_balance s i" "token_there info s'"
proof -
  note there = token_taken_there [OF assms(1-5)]
  have bal: "token_balance s2 i = token_balance s i - (if \<not> ri_IsPlayground info \<and> i = ri_TokenId info then eff else 0)"
    using token_balance_side [OF assms(4), of i] token_takenD(2) [OF assms(1,2), of i] by simp
  have "token_balance s' i = token_balance s i \<and> token_there info s'"
  proof (cases "0 < eff \<and> \<not> ri_IsPlayground info")
    case True
    then have live: "token_live s2 (ri_TokenId info)" using there by (simp add: token_there_def token_live_def)
    note inc = token_acct.inc_live [OF live assms(2), of env "ri_TokenKey info"]
    show ?thesis
      using True token_acct.inc_ok [OF inc, of i] bal
        token_acct.inc_keeps_live [OF live, of env "ri_TokenId info" "ri_TokenKey info" eff] assms(6)
      by (simp add: token_there_def token_live_def)
  next
    case False
    then show ?thesis using bal there assms(2,6) by auto
  qed
  then show "token_balance s' i = token_balance s i" "token_there info s'" by simp_all
qed

lemma IncreaseTokenQuota_side:
  "users (db (snd (IncreaseTokenQuota env i key q s))) = users (db s)"
  "subs (db (snd (IncreaseTokenQuota env i key q s))) = subs (db s)"
  "preRecords (db (snd (IncreaseTokenQuota env i key q s))) = preRecords (db s)"
  "user_balance (snd (IncreaseTokenQuota env i key q s)) j = user_balance s j"
  using beside_tokensD [OF token_acct.inc_beside [of env i key q s]]
  by (simp_all add: user_balance_def)

lemma beside_usersD:
  assumes "beside_users s' = beside_users s"
  shows "subs (db s') = subs (db s)" "preRecords (db s') = preRecords (db s)"
proof -
  have d: "(db s')\<lparr>users := []\<rparr> = (db s)\<lparr>users := []\<rparr>" using assms by (simp add: beside_users_def)
  show "subs (db s') = subs (db s)" using arg_cong [OF d, of subs] by simp
  show "preRecords (db s') = preRecords (db s)" using arg_cong [OF d, of preRecords] by simp
qed

lemma DecreaseUserQuota_row:
  "row user_Id (users (db (snd (DecreaseUserQuota env i q direct s)))) j = None \<longleftrightarrow> row user_Id (users (db s)) j = None"
  by (simp add: DecreaseUserQuota_def decreaseUserQuota_def update_user_eq on_success user_row_update)

lemma wallet_preConsume:
  assumes "Funding_PreConsume env (Wallet w) eff s = Some ((e, f), s')" "0 \<le> eff" "wf_consumed w = 0"
  shows "e = None \<Longrightarrow> f = Wallet (w\<lparr>wf_consumed := eff\<rparr>)"
    "user_balance s' j = user_balance s j - (if e = None \<and> j = wf_userId w then eff else 0)"
    "beside_users s' = beside_users s" "faults s = [] \<Longrightarrow> faults s' = []"
    "row user_Id (users (db s')) j = None \<longleftrightarrow> row user_Id (users (db s)) j = None"
proof -
  let ?d = "DecreaseUserQuota env (wf_userId w) eff False s"
  have "eff = 0 \<and> e = None \<and> f = Wallet w \<and> s' = s \<or>
    0 < eff \<and> e = fst ?d \<and> s' = snd ?d \<and> (e = None \<longrightarrow> f = Wallet (w\<lparr>wf_consumed := eff\<rparr>))"
    using assms by (auto simp: Wallet_PreConsume_def split: if_splits prod.splits option.splits)
  then consider "eff = 0" "e = None" "f = Wallet w" "s' = s"
    | "0 < eff" "e = fst ?d" "s' = snd ?d" "e = None \<longrightarrow> f = Wallet (w\<lparr>wf_consumed := eff\<rparr>)" by blast
  note cases = this
  show "e = None \<Longrightarrow> f = Wallet (w\<lparr>wf_consumed := eff\<rparr>)" using cases assms(3) by (cases rule: cases) auto
  show "user_balance s' j = user_balance s j - (if e = None \<and> j = wf_userId w then eff else 0)"
    using cases by (cases rule: cases) (auto simp: user_acct.decr_all_or_nothing)
  show "beside_users s' = beside_users s" using cases by (cases rule: cases) (auto simp: user_acct.decr_beside)
  show "faults s = [] \<Longrightarrow> faults s' = []" using cases by (cases rule: cases) (auto simp: account_faults)
  show "row user_Id (users (db s')) j = None \<longleftrightarrow> row user_Id (users (db s)) j = None"
    using cases by (cases rule: cases) (auto simp: DecreaseUserQuota_row)
qed

text \<open>
  What a request needs to be billed: its user exists, its identifier is new, and the
  subscriptions are well-formed.
\<close>

definition ready :: "RelayInfo \<Rightarrow> store \<Rightarrow> bool" where
  "ready info s \<longleftrightarrow> row user_Id (users (db s)) (ri_UserId info) \<noteq> None
     \<and> row pre_RequestId (preRecords (db s)) (ri_RequestId info) = None
     \<and> subs_ok s \<and> (\<forall>x \<in> set (subs (db s)). 0 < sub_Id x)"

lemma ready_same:
  assumes "row user_Id (users (db s')) (ri_UserId info) = None \<longleftrightarrow> row user_Id (users (db s)) (ri_UserId info) = None"
    "subs (db s') = subs (db s)" "preRecords (db s') = preRecords (db s)"
  shows "ready info s' = ready info s"
  using assms by (simp add: ready_def subs_ok_def)

text \<open>
  A session that was opened took the same amount from its source and from the token; one
  that was not took nothing.  The token's balance comes back only if the database is up.
\<close>

definition took :: "RelayInfo \<Rightarrow> int \<Rightarrow> store \<Rightarrow> store \<Rightarrow> bool" where
  "took info n s s' \<longleftrightarrow>
    (\<forall>i. token_balance s' i = token_balance s i - (if \<not> ri_IsPlayground info \<and> i = ri_TokenId info then n else 0))"


lemma tryWallet_outcome:
  assumes "tryWallet env tq info q s = Some (r, s')" "0 \<le> q"
  shows "(ready info s' = ready info s) \<and>
    (case r of
       Inl e \<Rightarrow> (\<forall>j. user_balance s' j = user_balance s j) \<and> subs (db s') = subs (db s)
         \<and> (token_there info s \<longrightarrow> took info 0 s s' \<and> token_there info s')
     | Inr b \<Rightarrow> \<exists>n t quota. n \<in> {0, q} \<and> b = opened (info\<lparr>ri_UserQuota := quota\<rparr>) t (Wallet \<lparr>wf_userId = ri_UserId info, wf_consumed = n\<rparr>) n
         \<and> (\<forall>j. user_balance s' j = user_balance s j - (if j = ri_UserId info then n else 0)) \<and> took info n s s')"
proof -
  let ?w = "\<lparr>wf_userId = ri_UserId info, wf_consumed = 0\<rparr>"
  obtain uq s0 where u: "GetUserQuota env (ri_UserId info) False s = (uq, s0)" by fastforce
  have s0: "db s0 = db s" "batchUpdateStores s0 = batchUpdateStores s" "faults s = [] \<Longrightarrow> faults s0 = []"
    using GetUserQuota_same [where env = env and i = "ri_UserId info" and fromDB = False and s = s] u by simp_all
  have bal0: "user_balance s0 j = user_balance s j" "token_balance s0 j = token_balance s j" for j
    using s0 by (simp_all add: user_balance_def token_balance_def)
  consider (early) e where "r = Inl e" "s' = s0"
    | (run) quota e b where "preConsume env tq q (new_session (info\<lparr>ri_UserQuota := quota\<rparr>) (Wallet ?w)) s0 = Some ((e, b), s')"
        "r = (case e of None \<Rightarrow> Inr b | Some x \<Rightarrow> Inl x)"
    using assms(1) u by (auto simp: tryWallet_def session_result_def split: sum.splits if_splits prod.splits option.splits)
  then show ?thesis
  proof cases
    case early
    then show ?thesis using s0 bal0 by (auto simp: took_def ready_def subs_ok_def token_there_def)
  next
    case run
    let ?info = "info\<lparr>ri_UserQuota := quota\<rparr>"
    define t where "t = shouldTrust env tq (new_session ?info (Wallet ?w))"
    define eff where "eff = (if t then 0 else q)"
    have eff: "0 \<le> eff" "eff \<in> {0, q}" using assms(2) by (auto simp: eff_def)
    show ?thesis
      using run(1) assms(2)
    proof (cases rule: preConsume_cases)
      case (no_token e1)
      then have np: "\<not> ri_IsPlayground ?info" by simp
      note f = PreConsumeTokenQuota_facts [OF no_token(3) np]
      note d = beside_tokensD [OF f(1)]
      have "user_balance s' j = user_balance s j" for j using d bal0 by (simp add: user_balance_def)
      then show ?thesis
        using run(2) no_token(1) d s0 f(2-4) bal0 by (auto simp: took_def ready_def subs_ok_def token_there_def)
    next
      case (no_funding s1 e1 f' s2)
      note tt = no_funding(2) [folded t_def, folded eff_def]
      note w = wallet_preConsume [OF no_funding(3) [folded t_def, folded eff_def] eff(1)]
      note d1 = beside_tokensD [OF token_takenD(1) [OF tt eff(1)]] and d2 = beside_usersD [OF w(3)]
      have ub: "user_balance s2 j = user_balance s j" for j using w(2) d1 bal0 by (simp add: user_balance_def)
      have s': "users (db s') = users (db s2)" "subs (db s') = subs (db s2)" "preRecords (db s') = preRecords (db s2)"
        "user_balance s' j = user_balance s2 j" for j
        using no_funding(4) by (simp_all add: IncreaseTokenQuota_side)
      have "took info 0 s s' \<and> token_there info s'" if "token_there info s"
      proof -
        have there: "token_there ?info s0" using that s0 by (simp add: token_there_def)
        note rb = rolled_back [OF tt eff(1) there token_side_users [OF w(3)] w(4) no_funding(4) [folded t_def, folded eff_def]]
        show ?thesis using rb bal0 by (simp add: took_def token_there_def)
      qed
      then show ?thesis
        using run(2) no_funding(1) s' ub d1 d2 w(5) s0(1) by (auto simp: ready_def subs_ok_def)
    next
      case (ok s1 f')
      note tt = ok(2) [folded t_def, folded eff_def]
      note w = wallet_preConsume [OF ok(3) [folded t_def, folded eff_def] eff(1)]
      note d1 = beside_tokensD [OF token_takenD(1) [OF tt eff(1)]] and d2 = beside_usersD [OF w(3)]
      have ub: "user_balance s' j = user_balance s j - (if j = ri_UserId info then eff else 0)" for j
        using w(2) d1 bal0 by (simp add: user_balance_def)
      have "took info eff s s'"
        using token_takenD(2) [OF tt eff(1)] token_balance_side [OF token_side_users [OF w(3)]] bal0 by (simp add: took_def)
      then show ?thesis
        using run(2) ok(1,4) [folded t_def, folded eff_def] ub d1 d2 w(1,5) s0(1) eff(2)
        by (auto simp: ready_def subs_ok_def)
    qed
  qed
qed

lemma PreConsume_err:
  assumes "PreConsumeUserSubscription env requestId userId amount s = Some (Inl e, s')"
  shows "db s' = db s"
proof (cases "userId \<le> 0 \<or> TrimSpace requestId = '''' \<or> amount \<le> 0")
  case True
  then show ?thesis using assms by (auto simp: PreConsumeUserSubscription_def split: if_splits)
next
  case False
  obtain now s1 where n: "GetDBTimestamp env s = (now, s1)" by fastforce
  have "transaction_opt (preConsume_body env requestId userId amount now) s1 = Some (Inl e, s')"
    using assms False n by (simp add: PreConsumeUserSubscription_def)
  then consider "s' = snd (stmt s1)" | x s2 where "tx_end (db s1) (x :: error + SubscriptionPreConsumeResult, s2) = (Inl e, s')"
    by (auto simp: transaction_opt_eq split: if_splits)
  then have "db s' = db s1"
  proof cases
    case (2 x s2)
    then show ?thesis by (cases x) (auto simp: tx_end_eq split: if_splits)
  qed simp
  then show ?thesis using GetDBTimestamp_db [of env s] n by simp
qed

lemma subscription_preConsume:
  assumes "Funding_PreConsume env (Subs f) eff s = Some ((e, g), s')"
  shows "beside_subs s' = beside_subs s" "faults s = [] \<Longrightarrow> faults s' = []" "e \<noteq> None \<Longrightarrow> db s' = db s"
    "e = None \<Longrightarrow> row pre_RequestId (preRecords (db s)) (sf_requestId f) = None \<Longrightarrow> subs_ok s \<Longrightarrow>
      (\<forall>x \<in> set (subs (db s)). 0 < sub_Id x) \<Longrightarrow>
      \<exists>h. g = Subs h \<and> sf_preConsumed h = sf_amount f \<and> 0 < sf_amount f \<and> held (Subs h) s'
        \<and> sf_amount f \<le> sub_used s' (sf_subscriptionId h)"
proof -
  obtain h where run: "Subscription_PreConsume env f s = Some ((e, h), s')" and g: "g = Subs h"
    using assms by auto
  obtain r s1 where p: "PreConsumeUserSubscription env (sf_requestId f) (sf_userId f) (sf_amount f) s = Some (r, s1)"
    using run by (cases "PreConsumeUserSubscription env (sf_requestId f) (sf_userId f) (sf_amount f) s")
      (auto simp: Subscription_PreConsume_def)
  note pf = PreConsumeUserSubscription_facts [OF p]
  define i where "i = (case r of Inr res \<Rightarrow> res_UserSubscriptionId res | Inl _ \<Rightarrow> 0)"
  let ?info = "GetSubscriptionPlanInfoByUserSubscriptionId env i s1"
  have err: "e = Some x" "s' = s1" if "r = Inl x" for x using run p that by (auto simp: Subscription_PreConsume_def)
  have ok: "e = None" "s' = snd ?info" "sf_requestId h = sf_requestId f" "sf_subscriptionId h = res_UserSubscriptionId res"
    "sf_preConsumed h = res_PreConsumed res" if "r = Inr res" for res
    using run p that by (auto simp: Subscription_PreConsume_def i_def Let_def split: prod.splits sum.splits)
  have same: "db s' = db s1" "batchUpdateStores s' = batchUpdateStores s1" "faults s1 = [] \<Longrightarrow> faults s' = []"
    using err ok plan_info_same [where env = env and i = i and s = s1] by (cases r; simp)+
  show "beside_subs s' = beside_subs s" using pf beside_of_db [OF same(1,2)] by simp
  show "faults s = [] \<Longrightarrow> faults s' = []" using PreConsume_faults [OF p] same(3) by simp
  show "e \<noteq> None \<Longrightarrow> db s' = db s" using ok PreConsume_err p same(1) by (cases r) auto
  assume a: "e = None" "row pre_RequestId (preRecords (db s)) (sf_requestId f) = None" "subs_ok s"
    "\<forall>x \<in> set (subs (db s)). 0 < sub_Id x"
  then obtain res where res: "r = Inr res" using err by (cases r) auto
  note q = p [unfolded res]
  have c: "charged (sf_requestId f) res s1" "res_PreConsumed res = sf_amount f" "0 < sf_amount f"
    "res_AmountUsedAfter res = res_AmountUsedBefore res + sf_amount f" "0 < res_UserSubscriptionId res"
    using PreConsume_charged [OF q] a(2,4) by auto
  have "subs_ok s'" using pf a(3) same(1) by (simp add: subs_ok_def)
  moreover have "TrimSpace (sf_requestId f) \<noteq> ''''" using q by (auto simp: PreConsumeUserSubscription_def split: if_splits)
  ultimately have "held (Subs h) s'"
    using c ok [OF res] same(1) by (auto simp: charged_def subs_ok_def dest: row_mem)
  moreover have "sub_used s' (sf_subscriptionId h) = res_AmountUsedAfter res"
    using c(1) ok [OF res] same(1) by (auto simp: charged_def sub_used_def)
  ultimately show "\<exists>h. g = Subs h \<and> sf_preConsumed h = sf_amount f \<and> 0 < sf_amount f \<and> held (Subs h) s'
        \<and> sf_amount f \<le> sub_used s' (sf_subscriptionId h)"
    using g c(2-4) ok [OF res] PreConsume_before [OF q a(2,3)] by auto
qed

lemma trySubscription_outcome:
  assumes "trySubscription env tq info q s = Some (r, s')" "ready info s"
  shows "(\<forall>j. user_balance s' j = user_balance s j) \<and>
    (case r of
       Inl e \<Rightarrow> ready info s' \<and> subs (db s') = subs (db s)
         \<and> (token_there info s \<longrightarrow> took info 0 s s' \<and> token_there info s')
     | Inr b \<Rightarrow> \<exists>h t. b = opened info t (Subs h) (max 1 q) \<and> sf_preConsumed h = max 1 q \<and> held (Subs h) s'
         \<and> max 1 q \<le> sub_used s' (sf_subscriptionId h) \<and> took info (max 1 q) s s')"
proof -
  define n where "n = (if q \<le> 0 then 1 else q)"
  have n: "n = max 1 q" "0 \<le> n" by (auto simp: n_def)
  define f where "f = \<lparr>sf_requestId = ri_RequestId info, sf_userId = ri_UserId info,
    sf_modelName = ri_OriginModelName info, sf_amount = n, sf_subscriptionId = 0, sf_preConsumed = 0,
    sf_AmountTotal = 0, sf_AmountUsedAfter = 0, sf_PlanId = 0, sf_PlanTitle = ''''\<rparr>"
  have trust: "\<not> shouldTrust env tq (new_session info (Subs f))" by (simp add: shouldTrust_def new_session_def)
  obtain e b where run: "preConsume env tq n (new_session info (Subs f)) s = Some ((e, b), s')"
    and r: "r = (case e of None \<Rightarrow> Inr b | Some x \<Rightarrow> Inl x)"
    using assms(1) by (auto simp: trySubscription_def session_result_def Let_def simp flip: n_def f_def
        split: prod.splits option.splits)
  show ?thesis
    using run n(2)
  proof (cases rule: preConsume_cases)
    case (no_token e1)
    note t = PreConsumeTokenQuota_facts [OF no_token(3,2)]
    note d = beside_tokensD [OF t(1)]
    show ?thesis
      using r no_token(1) d t(2-4) assms(2)
      by (auto simp: took_def ready_def subs_ok_def user_balance_def token_there_def)
  next
    case (no_funding s1 e1 f' s2)
    note tt = no_funding(2) [simplified trust if_False]
    note p = subscription_preConsume [OF no_funding(3)]
    note d1 = beside_tokensD [OF token_takenD(1) [OF tt n(2)]] and d2 = beside_subsD [OF p(1)]
    have s': "users (db s') = users (db s2)" "subs (db s') = subs (db s2)" "preRecords (db s') = preRecords (db s2)"
      "user_balance s' j = user_balance s2 j" for j
      using no_funding(4) by (simp_all add: IncreaseTokenQuota_side)
    have "took info 0 s s' \<and> token_there info s'" if "token_there info s"
      using rolled_back [OF tt n(2) that token_side_subs [OF p(1)] p(2) no_funding(4) [simplified trust if_False]]
      by (simp add: took_def)
    then show ?thesis
      using r no_funding(1) s' d1 d2 p(3) assms(2) by (auto simp: ready_def subs_ok_def user_balance_def)
  next
    case (ok s1 f')
    note tt = ok(2) [simplified trust if_False]
    note p = subscription_preConsume [OF ok(3)]
    note d1 = beside_tokensD [OF token_takenD(1) [OF tt n(2)]] and d2 = beside_subsD [OF p(1)]
    have "row pre_RequestId (preRecords (db s1)) (sf_requestId f) = None" "subs_ok s1" "\<forall>x \<in> set (subs (db s1)). 0 < sub_Id x"
      using assms(2) d1 by (auto simp: ready_def f_def subs_ok_def)
    from p(4) [OF refl this] obtain h where h: "f' = Subs h" "sf_preConsumed h = n" "held (Subs h) s'"
      "n \<le> sub_used s' (sf_subscriptionId h)" by (auto simp: f_def)
    have "took info n s s'"
      using token_takenD(2) [OF tt n(2)] token_balance_side [OF token_side_subs [OF p(1)]] by (simp add: took_def)
    then show ?thesis
      using r ok(1,4) trust h d1 d2 n(1) by (auto simp: user_balance_def simp del: held.simps)
  qed
qed

section \<open>Creation of a session\<close>

lemma opened_simps [simp]:
  "bs_funding (opened info t f n) = f" "bs_preConsumedQuota (opened info t f n) = n"
  "bs_tokenConsumed (opened info t f n) = n" "bs_extraReserved (opened info t f n) = 0"
  "\<not> bs_settled (opened info t f n)" "\<not> bs_refunded (opened info t f n)" "\<not> bs_fundingSettled (opened info t f n)"
  "ri_TokenId (bs_relayInfo (opened info t f n)) = ri_TokenId info"
  "ri_IsPlayground (bs_relayInfo (opened info t f n)) = ri_IsPlayground info"
  "ri_SubscriptionId (bs_relayInfo (opened info t (Subs h) n)) = sf_subscriptionId h"
  by (simp_all add: opened_def new_session_def)

text \<open>
  An attempt to open a session, from the store before to the store after: a failure leaves the accounts alone,
  a success charges the source and the token the same amount.
\<close>

definition accounts_ok :: "RelayInfo \<Rightarrow> store \<Rightarrow> NewAPIError + BillingSession \<Rightarrow> store \<Rightarrow> bool" where
  "accounts_ok info s r s' \<longleftrightarrow>
    (case r of
       Inl e \<Rightarrow> ready info s' \<and> (\<forall>j. user_balance s' j = user_balance s j) \<and> subs (db s') = subs (db s)
         \<and> (token_there info s \<longrightarrow> took info 0 s s' \<and> token_there info s')
     | Inr b \<Rightarrow>
         \<not> bs_settled b \<and> \<not> bs_refunded b \<and> \<not> bs_fundingSettled b
         \<and> ri_TokenId (bs_relayInfo b) = ri_TokenId info \<and> ri_IsPlayground (bs_relayInfo b) = ri_IsPlayground info
         \<and> reserved (funding_spent (bs_funding b) s' - bs_preConsumedQuota b) (token_spent b s' - bs_preConsumedQuota b) b s'
         \<and> (\<forall>j. user_balance s' j = user_balance s j
               - (if Source (bs_funding b) = ''wallet'' \<and> j = ri_UserId info then bs_preConsumedQuota b else 0))
         \<and> (Source (bs_funding b) = ''wallet'' \<longrightarrow> (\<exists>w. bs_funding b = Wallet w \<and> wf_userId w = ri_UserId info))
         \<and> (token_there info s \<longrightarrow> took info (bs_preConsumedQuota b) s s'))"

lemma accounts_ok_trans:
  assumes "accounts_ok info s (Inl e) s1" "accounts_ok info s1 r s'"
  shows "accounts_ok info s r s'"
  using assms by (auto simp: accounts_ok_def took_def split: sum.splits)

lemma accounts_ok_read:
  assumes "db s1 = db s" "batchUpdateStores s1 = batchUpdateStores s" "faults s = [] \<Longrightarrow> faults s1 = []" "ready info s"
  shows "accounts_ok info s (Inl e) s1"
  using assms
  by (auto simp: accounts_ok_def ready_def subs_ok_def took_def token_there_def user_balance_def token_balance_def)

lemma tryWallet_accounts:
  assumes "tryWallet env tq info q s = Some (r, s')" "0 \<le> q" "ready info s"
  shows "accounts_ok info s r s'"
proof (cases r)
  case (Inl e)
  then show ?thesis using tryWallet_outcome [OF assms(1,2)] assms(3) by (auto simp: accounts_ok_def)
next
  case (Inr b)
  then obtain n t quota where n: "n \<in> {0, q}"
    "b = opened (info\<lparr>ri_UserQuota := quota\<rparr>) t (Wallet \<lparr>wf_userId = ri_UserId info, wf_consumed = n\<rparr>) n"
    "\<forall>j. user_balance s' j = user_balance s j - (if j = ri_UserId info then n else 0)" "took info n s s'" "ready info s'"
    using tryWallet_outcome [OF assms(1,2)] assms(3) by auto
  then show ?thesis using Inr assms(2) by (auto simp: accounts_ok_def reserved_def ready_def)
qed

lemma trySubscription_accounts:
  assumes "trySubscription env tq info q s = Some (r, s')" "ready info s"
  shows "accounts_ok info s r s'"
proof (cases r)
  case (Inl e)
  then show ?thesis using trySubscription_outcome [OF assms] by (auto simp: accounts_ok_def)
next
  case (Inr b)
  then obtain h t where "b = opened info t (Subs h) (max 1 q)" "sf_preConsumed h = max 1 q" "held (Subs h) s'"
    "max 1 q \<le> sub_used s' (sf_subscriptionId h)" "took info (max 1 q) s s'" "\<forall>j. user_balance s' j = user_balance s j"
    using trySubscription_outcome [OF assms] by (auto simp del: held.simps)
  then show ?thesis using Inr by (auto simp: accounts_ok_def reserved_def simp del: held.simps)
qed

lemma wallet_first_accounts:
  assumes "wallet_first env tq info q s = Some (r, s')" "0 \<le> q" "ready info s"
  shows "accounts_ok info s r s'"
proof -
  obtain w0 where "tryWallet env tq info q s = Some w0"
    using assms(1) unfolding wallet_first_def by (cases "tryWallet env tq info q s") (simp only: option.case option.distinct)
  then obtain r1 s1 where w: "tryWallet env tq info q s = Some (r1, s1)" by (cases w0) (simp only:)
  note a = tryWallet_accounts [OF w assms(2,3)]
  note run = assms(1) [unfolded wallet_first_def w option.case prod.case]
  show ?thesis
  proof (cases r1)
    case (Inr b)
    then have "r = r1" "s' = s1" using run by (simp_all only: sum.case option.inject prod.inject)
    then show ?thesis using a by (simp only:)
  next
    case (Inl e)
    have ready1: "ready info s1" using a unfolding Inl accounts_ok_def sum.case by (rule conjunct1)
    note run = run [unfolded Inl sum.case]
    show ?thesis
    proof (cases "GetErrorCode (Some e) = ''insufficient_user_quota''")
      case True
      then have "trySubscription env tq info q s1 = Some (r, s')" using run by (simp only: if_True simp_thms)
      from accounts_ok_trans [OF a [unfolded Inl] trySubscription_accounts [OF this ready1]] show ?thesis .
    next
      case False
      then have "r = r1" "s' = s1" using run Inl by (simp_all only: if_False option.inject prod.inject)
      then show ?thesis using a by (simp only:)
    qed
  qed
qed

text \<open>After a subscription attempt that failed: the wallet, when every active subscription allows it.\<close>

lemma overflow_accounts:
  assumes "(case UserActiveSubscriptionsAllowWalletOverflow env (ri_UserId info) s of
      (Inl e, s3) \<Rightarrow> Some (Inl (f e), s3)
    | (Inr allowOverflow, s3) \<Rightarrow>
        if allowOverflow then tryWallet env tq info q s3 else Some (Inl apiErr, s3)) = Some (r, s')"
    "0 \<le> q" "ready info s"
  shows "accounts_ok info s r s'"
proof -
  obtain al s3 where al: "UserActiveSubscriptionsAllowWalletOverflow env (ri_UserId info) s = (al, s3)" by fastforce
  have same: "db s3 = db s" "batchUpdateStores s3 = batchUpdateStores s" "faults s = [] \<Longrightarrow> faults s3 = []"
    using active_same(4-6) [where env = env and i = "ri_UserId info" and s = s] al by simp_all
  note r3 = accounts_ok_read [OF same assms(3)]
  have "ready info s3" using r3 by (simp add: accounts_ok_def)
  note w = tryWallet_accounts [OF _ assms(2) this]
  consider e where "r = Inl e" "s' = s3" | "tryWallet env tq info q s3 = Some (r, s')"
    using assms(1) unfolding al by (cases al) (auto split: if_splits)
  then show ?thesis
  proof cases
    case 1
    then show ?thesis using r3 by simp
  next
    case 2
    show ?thesis by (rule accounts_ok_trans [OF r3 w [OF 2]])
  qed
qed

lemma subscription_first_accounts:
  assumes "subscription_first env tq info q s = Some (r, s')" "0 \<le> q" "ready info s"
  shows "accounts_ok info s r s'"
proof -
  obtain h s1 where h: "HasActiveUserSubscription env (ri_UserId info) s = (h, s1)" by fastforce
  have same: "db s1 = db s" "batchUpdateStores s1 = batchUpdateStores s" "faults s = [] \<Longrightarrow> faults s1 = []"
    using active_same(1-3) [where env = env and i = "ri_UserId info" and s = s] h by simp_all
  have r1: "accounts_ok info s (Inl e) s1" for e
    by (rule accounts_ok_read [OF same(1,2) _ assms(3)]) (rule same(3))
  have ready1: "ready info s1" using r1 by (simp add: accounts_ok_def)
  note run = assms(1) [unfolded subscription_first_def h]
  show ?thesis
  proof (cases h)
    case (Inl e)
    then obtain x where "r = Inl x" "s' = s1" using run by (auto simp only: prod.case sum.case option.inject prod.inject)
    then show ?thesis using r1 by (simp only:)
  next
    case (Inr hasSub)
    show ?thesis
    proof (cases hasSub)
      case False
      then have "tryWallet env tq info q s1 = Some (r, s')" using run Inr by (simp only: prod.case sum.case if_True simp_thms)
      from accounts_ok_trans [OF r1 tryWallet_accounts [OF this assms(2) ready1]] show ?thesis .
    next
      case True
      note run3 = run [unfolded Inr prod.case sum.case, simplified True not_True_eq_False if_False]
      obtain x where "trySubscription env tq info q s1 = Some x"
        using run3 by (cases "trySubscription env tq info q s1") (simp_all only: option.case option.distinct)
      then obtain r2 s2 where t: "trySubscription env tq info q s1 = Some (r2, s2)" by (cases x) (simp only:)
      note a2 = trySubscription_accounts [OF t ready1]
      show ?thesis
      proof (cases r2)
        case (Inr b)
        then have "r = r2" "s' = s2" using run3 t by (simp_all only: option.case prod.case sum.case option.inject prod.inject)
        then show ?thesis using accounts_ok_trans [OF r1 a2] by (simp only:)
      next
        case (Inl e2)
        then have ready2: "ready info s2" using a2 by (simp add: accounts_ok_def)
        note a12 = accounts_ok_trans [OF r1 a2 [unfolded Inl]]
        note run2 = run3 [unfolded t Inl option.case prod.case sum.case]
        show ?thesis
        proof (cases "GetErrorCode (Some e2) = ''insufficient_user_quota''")
          case True
          show ?thesis
            by (rule accounts_ok_trans [OF a12 overflow_accounts [OF _ assms(2) ready2,
                where f = "\<lambda>e. NewError (plain env e) ''query_data_error'' [ErrOptionWithSkipRetry]" and env = env and tq = tq and apiErr = e2]])
              (use run2 True in \<open>simp only: if_True simp_thms\<close>)
        next
          case False
          then have "r = Inl e2" "s' = s2" using run2 by (simp_all only: if_False option.inject prod.inject)
          then show ?thesis using a12 by (simp only:)
        qed
      qed
    qed
  qed
qed

lemma NewBillingSession_accounts:
  assumes "NewBillingSession env tq info q s = Some (r, s')" "0 \<le> q" "ready info s"
  shows "accounts_ok info s r s'"
  using assms trySubscription_accounts [of env tq info q s r s'] tryWallet_accounts [of env tq info q s r s']
    wallet_first_accounts [of env tq info q s r s'] subscription_first_accounts [of env tq info q s r s']
  by (auto simp: NewBillingSession_def Let_def split: if_splits)

lemma PreConsumeBilling_accounts:
  assumes "PreConsumeBilling env tq q info s = Some (r, s')" "ready info s"
  shows "accounts_ok info s r s'"
  using assms NewBillingSession_accounts [of env tq info q s r s'] accounts_ok_read [of s s info]
  by (auto simp: PreConsumeBilling_def split: option.splits if_splits)

section \<open>Billing is exact\<close>

definition demo_info :: "string \<Rightarrow> RelayInfo" where
  "demo_info pref = \<lparr>ri_TokenId = 7, ri_TokenKey = ''k1'', ri_TokenUnlimited = False, ri_UserId = 1, ri_UserQuota = 0,
     ri_IsPlayground = False, ri_RequestId = ''req'', ri_OriginModelName = ''m'', ri_ForcePreConsume = False,
     ri_BillingPreference = pref, ri_QuotaClamp = None, ri_FinalPreConsumedQuota = 0, ri_BillingSource = '''',
     ri_SubscriptionId = 0, ri_SubscriptionPreConsumed = 0, ri_SubscriptionPostDelta = 0, ri_SubscriptionAmountTotal = 0,
     ri_SubscriptionAmountUsedAfterPreConsume = 0, ri_SubscriptionPlanId = 0, ri_SubscriptionPlanTitle = ''''\<rparr>"

text \<open>
  C2. Opening a session charges exactly what it says, or nothing: when it succeeds, the
  token and, if the wallet pays, the user have lost exactly the session's pre-consumed quota and no
  other account has changed; when it fails, for whatever reason and after whatever
  fallback between wallet and subscription, no user, token or subscription has been charged.
\<close>

theorem session_creation_exact:
  assumes "PreConsumeBilling env token_quota q info s = Some (r, s')" "ready info s" "token_there info s"
  shows "case r of
      Inl e \<Rightarrow> (\<forall>i. user_balance s' i = user_balance s i) \<and> (\<forall>i. token_balance s' i = token_balance s i)
        \<and> subs (db s') = subs (db s)
    | Inr b \<Rightarrow>
        (\<forall>i. user_balance s' i = user_balance s i
          - (if Source (bs_funding b) = ''wallet'' \<and> i = ri_UserId info then GetPreConsumedQuota b else 0))
        \<and> (\<forall>i. token_balance s' i = token_balance s i
          - (if \<not> ri_IsPlayground info \<and> i = ri_TokenId info then GetPreConsumedQuota b else 0))"
  using PreConsumeBilling_accounts [OF assms(1,2)] assms(3)
  by (auto simp: accounts_ok_def took_def GetPreConsumedQuota_def split: sum.splits)

lemma demo_wallet_run:
  "\<exists>b s'. PreConsumeBilling (demo_env False) 500 40 (demo_info ''wallet_only'') (demo_expiry (- 1)) = Some (Inr b, s')
     \<and> GetPreConsumedQuota b = 40 \<and> Source (bs_funding b) = ''wallet'' \<and> ri_IsPlayground (bs_relayInfo b) = False
     \<and> faults s' = [] \<and> map tok_Id (tokens (db s')) = [7] \<and> ri_TokenId (bs_relayInfo b) = 7"
proof -
  have "TrimSpace ''wallet_only'' = ''wallet_only''" by code_simp
  then show ?thesis
    by (simp add: PreConsumeBilling_def NewBillingSession_def NormalizeBillingPreference_def tryWallet_def GetUserQuota_def
        preConsume_def shouldTrust_def GetTrustQuota_def trunc_rat_def new_session_def preConsume_funding_def
        PreConsumeTokenQuota_def GetTokenByKey_def cache_token_def first_token_eq shouldUpdateRedis_def
        Wallet_PreConsume_def account_ops update_user_eq update_token_eq on_success session_result_def
        GetPreConsumedQuota_def demo_info_def demo_expiry_def demo_defs Let_def)
qed

lemma session_creation_exact_witness:
  "\<exists>b s'. PreConsumeBilling (demo_env False) 500 40 (demo_info ''wallet_only'') (demo_expiry (- 1)) = Some (Inr b, s')
     \<and> user_balance s' 1 = 960 \<and> token_balance s' 7 = 460"
proof -
  obtain b s' where run: "PreConsumeBilling (demo_env False) 500 40 (demo_info ''wallet_only'') (demo_expiry (- 1)) = Some (Inr b, s')"
    and b: "GetPreConsumedQuota b = 40" "Source (bs_funding b) = ''wallet''"
    using demo_wallet_run by blast
  have "ready (demo_info ''wallet_only'') (demo_expiry (- 1))" "token_there (demo_info ''wallet_only'') (demo_expiry (- 1))"
    "user_balance (demo_expiry (- 1)) 1 = 1000" "token_balance (demo_expiry (- 1)) 7 = 500"
    by (simp_all add: ready_def token_there_def subs_ok_def demo_info_def demo_expiry_def demo_defs user_balance_def token_balance_def)
  then show ?thesis
    using session_creation_exact [OF run] run b by (auto simp: demo_info_def)
qed

section \<open>From the first reservation to the end\<close>

text \<open>The accounts a session charges do not change during its life.\<close>

fun account :: "FundingSource \<Rightarrow> int + int" where
  "account (Wallet w) = Inl (wf_userId w)"
| "account (Subs f) = Inr (sf_subscriptionId f)"

definition accounts_of :: "BillingSession \<Rightarrow> (int + int) \<times> int \<times> bool" where
  "accounts_of b = (account (bs_funding b), ri_TokenId (bs_relayInfo b), ri_IsPlayground (bs_relayInfo b))"

lemma account_reserve_more [simp]: "account (reserve_more d f) = account f"
  by (cases f) simp_all

lemma account_spent: "account f = account g \<Longrightarrow> funding_spent f s = funding_spent g s"
  by (cases f; cases g) simp_all

lemma Reserve_accounts_of:
  assumes "Reserve env target b s = ((e, b'), s')"
  shows "accounts_of b' = accounts_of b"
proof -
  have f: "accounts_of b1 = accounts_of b" if "reserveFunding env d b s = ((e1, b1), s1)" for d e1 b1 s1
    using that by (cases "bs_funding b") (auto simp: reserveFunding_def accounts_of_def split: prod.splits option.splits)
  have r: "accounts_of b2 = accounts_of b1" if "rollbackFundingReserve env d b1 s1 = (b2, s2)" for d b1 s1 b2 s2
    using that by (cases "bs_funding b1") (auto simp: rollbackFundingReserve_def accounts_of_def split: prod.splits option.splits)
  have y: "accounts_of (syncRelayInfo b1) = accounts_of b1" for b1 by (simp add: accounts_of_def)
  show ?thesis
    using assms
    by (auto simp: Reserve_def Let_def y dest!: f r split: if_splits prod.splits option.splits) (simp add: accounts_of_def)
qed

lemma Settle_accounts_of:
  assumes "Settle env actual b s = ((e, b'), s')"
  shows "accounts_of b' = accounts_of b"
  using assms by (auto simp: Settle_def Let_def accounts_of_def split: if_splits prod.splits option.splits)

lemma Refund_accounts_of: "Refund b = (b', j) \<Longrightarrow> accounts_of b' = accounts_of b"
  by (auto simp: Refund_def accounts_of_def split: if_splits)

lemma billing_step_accounts_of:
  assumes "billing_step env x y"
  shows "accounts_of (fst y) = accounts_of (fst x)"
  using assms
  by (induction rule: billing_step.induct) (auto dest: Reserve_accounts_of Settle_accounts_of Refund_accounts_of)

lemma life_inv:
  assumes "(billing_step env)\<^sup>*\<^sup>* x y" "session_inv F T x"
  shows "session_inv F T y \<and> accounts_of (fst y) = accounts_of (fst x)"
  using assms
  by (induction rule: rtranclp_induct) (auto dest: billing_step_inv billing_step_accounts_of simp del: session_inv.simps)

lemma opened_inv:
  assumes "PreConsumeBilling env tq q info s = Some (Inr b, s')" "ready info s" "up b s'"
  shows "session_inv (funding_spent (bs_funding b) s' - bs_preConsumedQuota b) (token_spent b s' - bs_preConsumedQuota b)
    (b, None, s')"
  using PreConsumeBilling_accounts [OF assms(1,2)] assms(3) by (simp add: accounts_ok_def)

lemma demo_life:
  "\<exists>b s' b' s'' b2 job. PreConsumeBilling (demo_env False) 500 40 (demo_info ''wallet_only'') (demo_expiry (- 1)) = Some (Inr b, s')
     \<and> ready (demo_info ''wallet_only'') (demo_expiry (- 1)) \<and> token_there (demo_info ''wallet_only'') (demo_expiry (- 1))
     \<and> up b s' \<and> \<not> bs_settled b \<and> \<not> bs_refunded b \<and> Source (bs_funding b) = ''wallet''
     \<and> Settle (demo_env False) 55 b s' = ((None, b'), s'') \<and> Refund b = (b2, Some job) \<and> bs_refunded b2
     \<and> funding_spent (bs_funding b) s' - GetPreConsumedQuota b = - 1000 \<and> \<not> ri_IsPlayground (bs_relayInfo b2)
     \<and> token_spent b s' - GetPreConsumedQuota b = - 500"
proof -
  have "TrimSpace ''wallet_only'' = ''wallet_only''" by code_simp
  then show ?thesis
    by (simp add: PreConsumeBilling_def NewBillingSession_def NormalizeBillingPreference_def tryWallet_def GetUserQuota_def
        preConsume_def shouldTrust_def GetTrustQuota_def trunc_rat_def new_session_def preConsume_funding_def
        PreConsumeTokenQuota_def GetTokenByKey_def cache_token_def first_token_eq shouldUpdateRedis_def
        Wallet_PreConsume_def account_ops update_user_eq update_token_eq on_success session_result_def
        GetPreConsumedQuota_def demo_info_def demo_expiry_def demo_defs Let_def ready_def token_there_def subs_ok_def up_def
        Settle_def adjust_token_def Wallet_Settle_def Refund_def needsRefundLocked_def token_spent_def
        user_balance_def token_balance_def)
qed

text \<open>
  C3. The two accounts of a session never drift apart.  From the moment it is opened, through any sequence of
  further reservations, a settlement, refunds and their delayed execution (including those that fail for lack of
  quota), the funding source and the token have been charged the same amount by it: what it reserved
  while it is open, and nothing after its refund has run.
\<close>

theorem session_accounts_agree:
  assumes "PreConsumeBilling env token_quota q info s = Some (Inr b0, s0)" "ready info s" "up b0 s0"
    and "(billing_step env)\<^sup>*\<^sup>* (b0, None, s0) (b, j, s')"
  shows "\<exists>a. funding_spent (bs_funding b) s' = funding_spent (bs_funding b0) s0 - GetPreConsumedQuota b0 + a
    \<and> (\<not> ri_IsPlayground (bs_relayInfo b) \<longrightarrow> token_spent b s' = token_spent b0 s0 - GetPreConsumedQuota b0 + a)
    \<and> (\<not> bs_settled b \<and> \<not> bs_refunded b \<longrightarrow> a = GetPreConsumedQuota b)
    \<and> (bs_refunded b \<and> j = None \<longrightarrow> a = 0)"
proof -
  have inv: "session_inv (funding_spent (bs_funding b0) s0 - GetPreConsumedQuota b0)
      (token_spent b0 s0 - GetPreConsumedQuota b0) (b, j, s')"
    using life_inv [OF assms(4) opened_inv [OF assms(1-3)]] by (simp add: GetPreConsumedQuota_def del: session_inv.simps)
  consider "bs_settled b" | "\<not> bs_settled b" "bs_refunded b" "j = None" | job where "\<not> bs_settled b" "bs_refunded b" "j = Some job"
    | "\<not> bs_settled b" "\<not> bs_refunded b" by (cases j) auto
  then show ?thesis
    by cases (use inv in \<open>auto simp: reserved_def GetPreConsumedQuota_def\<close>)
qed

theorem session_accounts_agree_witness:
  "\<exists>b0 s0 b s'. PreConsumeBilling (demo_env False) 500 40 (demo_info ''wallet_only'') (demo_expiry (- 1)) = Some (Inr b0, s0)
     \<and> (billing_step (demo_env False))\<^sup>*\<^sup>* (b0, None, s0) (b, None, s')
     \<and> funding_spent (bs_funding b) s' = - 1000 \<and> token_spent b s' = - 500"
proof -
  obtain b s' b2 job where run: "PreConsumeBilling (demo_env False) 500 40 (demo_info ''wallet_only'') (demo_expiry (- 1)) = Some (Inr b, s')"
      "ready (demo_info ''wallet_only'') (demo_expiry (- 1))" "up b s'"
    and r: "Refund b = (b2, Some job)" "bs_refunded b2" "\<not> ri_IsPlayground (bs_relayInfo b2)"
    and v: "funding_spent (bs_funding b) s' - GetPreConsumedQuota b = - 1000" "token_spent b s' - GetPreConsumedQuota b = - 500"
    using demo_life by blast
  have life: "(billing_step (demo_env False))\<^sup>*\<^sup>* (b, None, s') (b2, None, run_refund (demo_env False) job s')"
    using billing_step.refund [OF r(1)] billing_step.run by (meson converse_rtranclp_into_rtranclp r_into_rtranclp)
  show ?thesis using session_accounts_agree [OF run life] r(2,3) v run(1) life by auto
qed

text \<open>
  C1. A settled request costs what it cost: after the settlement of an open session succeeds, the token
  and, if the wallet pays, the user have lost exactly the actual quota since before the session was opened, whatever
  was reserved in between; settling again changes nothing, and there is nothing left to refund.
\<close>

theorem settled_request_charged_exactly:
  assumes "PreConsumeBilling env token_quota q info s = Some (Inr b0, s0)" "ready info s" "token_there info s" "up b0 s0"
    and "(billing_step env)\<^sup>*\<^sup>* (b0, None, s0) (b, None, s1)" "\<not> bs_settled b" "\<not> bs_refunded b"
    and "0 \<le> actual" "Settle env actual b s1 = ((None, b'), s')"
  shows "(Source (bs_funding b0) = ''wallet'' \<longrightarrow> user_balance s' (ri_UserId info) = user_balance s (ri_UserId info) - actual)
    \<and> (\<not> ri_IsPlayground info \<longrightarrow> token_balance s' (ri_TokenId info) = token_balance s (ri_TokenId info) - actual)
    \<and> funding_spent (bs_funding b0) s' = funding_spent (bs_funding b0) s0 - GetPreConsumedQuota b0 + actual
    \<and> Settle env again b' s' = ((None, b'), s') \<and> Refund b' = (b', None)"
proof -
  let ?F = "funding_spent (bs_funding b0) s0 - bs_preConsumedQuota b0" and ?T = "token_spent b0 s0 - bs_preConsumedQuota b0"
  note acc = PreConsumeBilling_accounts [OF assms(1,2)]
  have inv: "session_inv ?F ?T (b, None, s1)" and same: "accounts_of b = accounts_of b0"
    using life_inv [OF assms(5) opened_inv [OF assms(1,2,4)]] by (simp_all del: session_inv.simps)
  have "reserved ?F ?T b s1" "up b s1" "\<not> bs_fundingSettled b" using inv assms(6,7) by auto
  from Settle_open [OF this(1,2) assms(6) this(3) assms(8,9)]
  have st: "bs_settled b'" "funding_spent (bs_funding b') s' = ?F + actual"
    "\<not> ri_IsPlayground (bs_relayInfo b') \<Longrightarrow> token_spent b' s' = ?T + actual" by auto
  have same': "accounts_of b' = accounts_of b0" using Settle_accounts_of [OF assms(9)] same by simp
  then have f: "funding_spent (bs_funding b0) s' = ?F + actual"
    using st(2) account_spent [of "bs_funding b'" "bs_funding b0" s'] by (simp add: accounts_of_def)
  have w: "user_balance s' (ri_UserId info) = user_balance s (ri_UserId info) - actual" if "Source (bs_funding b0) = ''wallet''"
    using acc that f by (auto simp: accounts_ok_def)
  have t: "token_balance s' (ri_TokenId info) = token_balance s (ri_TokenId info) - actual" if "\<not> ri_IsPlayground info"
    using acc that st(3) same' assms(3) by (auto simp: accounts_ok_def took_def token_spent_def accounts_of_def)
  show ?thesis using f w t st(1) by (simp add: Settle_def Refund_def GetPreConsumedQuota_def)
qed

theorem settled_request_charged_exactly_witness:
  "\<exists>b0 s0 b' s'. PreConsumeBilling (demo_env False) 500 40 (demo_info ''wallet_only'') (demo_expiry (- 1)) = Some (Inr b0, s0)
     \<and> Settle (demo_env False) 55 b0 s0 = ((None, b'), s') \<and> user_balance s' 1 = 945 \<and> token_balance s' 7 = 445"
proof -
  obtain b s' b' s'' where run: "PreConsumeBilling (demo_env False) 500 40 (demo_info ''wallet_only'') (demo_expiry (- 1)) = Some (Inr b, s')"
      "ready (demo_info ''wallet_only'') (demo_expiry (- 1))" "token_there (demo_info ''wallet_only'') (demo_expiry (- 1))" "up b s'"
    and b: "\<not> bs_settled b" "\<not> bs_refunded b" "Source (bs_funding b) = ''wallet''"
    and st: "Settle (demo_env False) 55 b s' = ((None, b'), s'')"
    using demo_life by blast
  have "user_balance (demo_expiry (- 1)) 1 = 1000" "token_balance (demo_expiry (- 1)) 7 = 500"
    by (simp_all add: demo_expiry_def demo_defs user_balance_def token_balance_def)
  then show ?thesis
    using settled_request_charged_exactly [OF run rtranclp.rtrancl_refl b(1,2) _ st] run(1) st b(3) by (auto simp: demo_info_def)
qed

text \<open>
  C4. A failed request costs nothing: opening a session, reserving more for it and then refunding it brings
  the token and, if the wallet paid, the user back to the balance they had before, once the refund has run; a
  second refund does nothing.
\<close>

theorem refunded_request_costs_nothing:
  assumes "PreConsumeBilling env token_quota q info s = Some (Inr b0, s0)" "ready info s" "token_there info s" "up b0 s0"
    and "(billing_step env)\<^sup>*\<^sup>* (b0, None, s0) (b, None, s1)" "\<not> bs_settled b" "\<not> bs_refunded b"
    and "Refund b = (b', Some job)"
  shows "(Source (bs_funding b0) = ''wallet'' \<longrightarrow>
        user_balance (run_refund env job s1) (ri_UserId info) = user_balance s (ri_UserId info))
    \<and> (\<not> ri_IsPlayground info \<longrightarrow>
        token_balance (run_refund env job s1) (ri_TokenId info) = token_balance s (ri_TokenId info))
    \<and> funding_spent (bs_funding b0) (run_refund env job s1) = funding_spent (bs_funding b0) s0 - GetPreConsumedQuota b0
    \<and> Refund b' = (b', None)"
proof -
  let ?F = "funding_spent (bs_funding b0) s0 - bs_preConsumedQuota b0" and ?T = "token_spent b0 s0 - bs_preConsumedQuota b0"
  let ?s = "run_refund env job s1"
  note acc = PreConsumeBilling_accounts [OF assms(1,2)]
  have inv: "session_inv ?F ?T (b, None, s1)" and same: "accounts_of b = accounts_of b0"
    using life_inv [OF assms(5) opened_inv [OF assms(1,2,4)]] by (simp_all del: session_inv.simps)
  have "reserved ?F ?T b s1" "up b s1" using inv assms(6,7) by auto
  note r = run_refund_open [OF this assms(8), of env]
  have f: "funding_spent (bs_funding b0) ?s = ?F"
    using r(1) same account_spent [of "bs_funding b" "bs_funding b0" ?s] by (simp add: accounts_of_def)
  have w: "user_balance ?s (ri_UserId info) = user_balance s (ri_UserId info)" if "Source (bs_funding b0) = ''wallet''"
    using acc that f by (auto simp: accounts_ok_def)
  have t: "token_balance ?s (ri_TokenId info) = token_balance s (ri_TokenId info)" if "\<not> ri_IsPlayground info"
    using acc that r(2) same assms(3) by (auto simp: accounts_ok_def took_def token_spent_def accounts_of_def)
  have "Refund b' = (b', None)" using assms(8) by (auto simp: Refund_def split: if_splits)
  then show ?thesis using f w t by (simp add: GetPreConsumedQuota_def)
qed

theorem refunded_request_costs_nothing_witness:
  "\<exists>b0 s0 b' job. PreConsumeBilling (demo_env False) 500 40 (demo_info ''wallet_only'') (demo_expiry (- 1)) = Some (Inr b0, s0)
     \<and> Refund b0 = (b', Some job) \<and> user_balance (run_refund (demo_env False) job s0) 1 = 1000
     \<and> token_balance (run_refund (demo_env False) job s0) 7 = 500"
proof -
  obtain b s' b' job where run: "PreConsumeBilling (demo_env False) 500 40 (demo_info ''wallet_only'') (demo_expiry (- 1)) = Some (Inr b, s')"
      "ready (demo_info ''wallet_only'') (demo_expiry (- 1))" "token_there (demo_info ''wallet_only'') (demo_expiry (- 1))" "up b s'"
    and b: "\<not> bs_settled b" "\<not> bs_refunded b" "Source (bs_funding b) = ''wallet''"
    and r: "Refund b = (b', Some job)"
    using demo_life by blast
  have "user_balance (demo_expiry (- 1)) 1 = 1000" "token_balance (demo_expiry (- 1)) 7 = 500"
    by (simp_all add: demo_expiry_def demo_defs user_balance_def token_balance_def)
  then show ?thesis
    using refunded_request_costs_nothing [OF run rtranclp.rtrancl_refl b(1,2) r] run(1) r b(3) by (auto simp: demo_info_def)
qed

section \<open>Requests without a session\<close>

text \<open>The session's view of itself on its relay info is up to date.\<close>

definition synced :: "BillingSession \<Rightarrow> bool" where
  "synced b \<longleftrightarrow> (let info = bs_relayInfo b in
     ri_FinalPreConsumedQuota info = bs_preConsumedQuota b \<and> ri_BillingSource info = Source (bs_funding b)
     \<and> (case bs_funding b of
          Wallet w \<Rightarrow> wf_userId w = ri_UserId info
        | Subs f \<Rightarrow> sf_subscriptionId f = ri_SubscriptionId info \<and> ri_SubscriptionId info \<noteq> 0))"

lemma adjust_token_postdelta [simp]:
  "adjust_token env (info\<lparr>ri_SubscriptionPostDelta := x\<rparr>) d s = adjust_token env info d s"
  by (simp add: adjust_token_def)

definition same_data :: "store \<Rightarrow> store \<Rightarrow> bool" where
  "same_data s s' \<longleftrightarrow> db s = db s' \<and> batchUpdateStores s = batchUpdateStores s' \<and> faults s = faults s'"

lemma session_path:
  assumes "\<not> bs_settled b" "\<not> bs_fundingSettled b" "actual \<noteq> bs_preConsumedQuota b"
    and f: "Funding_Settle env (bs_funding b) (actual - bs_preConsumedQuota b) s = (ef, s1)"
    and t: "(if ri_IsPlayground (bs_relayInfo b) then (None, s1)
       else adjust_token env (bs_relayInfo b) (actual - bs_preConsumedQuota b) s1) = (et, s2)"
  shows "fst (fst (SettleBilling env (Inr b) actual s)) = (if ef = None then et else ef)"
    "same_data (snd (SettleBilling env (Inr b) actual s)) (if ef = None then s2 else s1)"
  using assms(1-3) t
  by (cases ef; cases et; simp add: SettleBilling_def Settle_def f same_data_def emit_def Let_def del: Funding_Settle.simps)+

lemma legacy_path:
  assumes "synced b" "actual \<noteq> bs_preConsumedQuota b"
    and f: "Funding_Settle env (bs_funding b) (actual - bs_preConsumedQuota b) s = (ef, s1)"
    and t: "(if ri_IsPlayground (bs_relayInfo b) then (None, s1)
       else adjust_token env (bs_relayInfo b) (actual - bs_preConsumedQuota b) s1) = (et, s2)"
  shows "fst (fst (SettleBilling env (Inl (bs_relayInfo b)) actual s)) = (if ef = None then et else ef)"
    "same_data (snd (SettleBilling env (Inl (bs_relayInfo b)) actual s)) (if ef = None then s2 else s1)"
proof -
  have "fst (fst (PostConsumeQuota env (bs_relayInfo b) (actual - bs_preConsumedQuota b) (bs_preConsumedQuota b) True s)) = (if ef = None then et else ef)
    \<and> same_data (snd (PostConsumeQuota env (bs_relayInfo b) (actual - bs_preConsumedQuota b) (bs_preConsumedQuota b) True s)) (if ef = None then s2 else s1)"
  proof (cases "bs_funding b")
    case (Wallet w)
    have w: "(if 0 < actual - bs_preConsumedQuota b then DecreaseUserQuota env (ri_UserId (bs_relayInfo b)) (actual - bs_preConsumedQuota b) False s
      else IncreaseUserQuota env (ri_UserId (bs_relayInfo b)) (- (actual - bs_preConsumedQuota b)) False s) = (ef, s1)"
      using f assms(1,2) Wallet by (simp add: synced_def Let_def Wallet_Settle_def split: if_splits)
    have "ri_BillingSource (bs_relayInfo b) = ''wallet''" using assms(1) Wallet by (simp add: synced_def Let_def)
    then show ?thesis
      unfolding PostConsumeQuota_def w
      by (cases ef; cases et; simp add: t same_data_def emit_def)
  next
    case (Subs g)
    have w: "PostConsumeUserSubscriptionDelta env (ri_SubscriptionId (bs_relayInfo b)) (actual - bs_preConsumedQuota b) s = (ef, s1)"
      using f assms(1,2) Subs by (simp add: synced_def Let_def Subscription_Settle_def)
    have "ri_BillingSource (bs_relayInfo b) = ''subscription''" "ri_SubscriptionId (bs_relayInfo b) \<noteq> 0" "actual - bs_preConsumedQuota b \<noteq> 0"
      using assms(1,2) Subs by (simp_all add: synced_def Let_def)
    then show ?thesis
      unfolding PostConsumeQuota_def w
      using t by (cases "ri_IsPlayground (bs_relayInfo b)"; cases ef; cases et) (simp_all add: same_data_def emit_def)
  qed
  moreover have "ri_FinalPreConsumedQuota (bs_relayInfo b) = bs_preConsumedQuota b" using assms(1) by (simp add: synced_def Let_def)
  ultimately show "fst (fst (SettleBilling env (Inl (bs_relayInfo b)) actual s)) = (if ef = None then et else ef)"
    "same_data (snd (SettleBilling env (Inl (bs_relayInfo b)) actual s)) (if ef = None then s2 else s1)"
    using assms(2) by (simp_all add: SettleBilling_def split_def Let_def)
qed

text \<open>
  C5. Settling through a session and settling a relay info without one, with the same numbers on it, do the same:
  the same error or success, the same rows, the same pending batch updates, whichever source pays and whichever
  statement fails.
\<close>

theorem settle_paths_agree:
  assumes "synced b" "\<not> bs_settled b" "\<not> bs_fundingSettled b"
  shows "fst (fst (SettleBilling env (Inr b) actual s)) = fst (fst (SettleBilling env (Inl (bs_relayInfo b)) actual s))
    \<and> same_data (snd (SettleBilling env (Inr b) actual s)) (snd (SettleBilling env (Inl (bs_relayInfo b)) actual s))"
proof (cases "actual = bs_preConsumedQuota b")
  case True
  then show ?thesis
    using assms by (simp add: SettleBilling_def Settle_def synced_def Let_def same_data_def emit_def)
next
  case False
  obtain ef s1 where f: "Funding_Settle env (bs_funding b) (actual - bs_preConsumedQuota b) s = (ef, s1)" by (metis surj_pair)
  obtain et s2 where t: "(if ri_IsPlayground (bs_relayInfo b) then (None, s1)
       else adjust_token env (bs_relayInfo b) (actual - bs_preConsumedQuota b) s1) = (et, s2)" by (metis surj_pair)
  show ?thesis
    using session_path [OF assms(2,3) False f t] legacy_path [OF assms(1) False f t] by (simp add: same_data_def)
qed

definition demo_session :: BillingSession where
  "demo_session = \<lparr>bs_relayInfo = (demo_info ''wallet_only'')\<lparr>ri_FinalPreConsumedQuota := 40, ri_BillingSource := ''wallet''\<rparr>,
     bs_funding = Wallet \<lparr>wf_userId = 1, wf_consumed = 40\<rparr>, bs_preConsumedQuota = 40, bs_tokenConsumed = 40,
     bs_extraReserved = 0, bs_trusted = False, bs_fundingSettled = False, bs_settled = False, bs_refunded = False\<rparr>"

theorem settle_paths_agree_witness:
  "db (snd (SettleBilling (demo_env False) (Inr demo_session) 55 (demo_expiry (- 1))))
   = db (snd (SettleBilling (demo_env False) (Inl (bs_relayInfo demo_session)) 55 (demo_expiry (- 1))))"
proof -
  have "synced demo_session" "\<not> bs_settled demo_session" "\<not> bs_fundingSettled demo_session"
    by (simp_all add: synced_def demo_session_def demo_info_def)
  from settle_paths_agree [OF this, of "demo_env False" 55 "demo_expiry (- 1)"]
  show ?thesis by (simp add: same_data_def)
qed

end
