(* ===== verification/Status_Ranges.thy ===== *)
theory Status_Ranges
  imports Go_Prelude
begin

text \<open>
  \<^verbatim>\<open>src/setting/operation_setting/status_code_ranges.go\<close>: the operator configures which HTTP status
  codes disable a channel and which are retried as a text such as \<^verbatim>\<open>401,500-503\<close>. The text is parsed
  into ranges, sorted and merged; matching walks the merged ranges and stops at the first range that
  begins beyond the code. The lemmas show that the merged list is ordered and separated, that the
  early exit loses nothing, and that printing and parsing are inverse on such lists.
\<close>

section \<open>Data\<close>

datatype StatusCodeRange = StatusCodeRange (Start: int) (End: int)

text \<open>The order of the \<^verbatim>\<open>sort.Slice\<close> call: by start, then by end.\<close>

instantiation StatusCodeRange :: linorder
begin

definition less_eq_StatusCodeRange :: "StatusCodeRange \<Rightarrow> StatusCodeRange \<Rightarrow> bool" where
  "a \<le> b \<longleftrightarrow> (if Start a = Start b then End a \<le> End b else Start a < Start b)"

definition less_StatusCodeRange :: "StatusCodeRange \<Rightarrow> StatusCodeRange \<Rightarrow> bool" where
  "a < b \<longleftrightarrow> (if Start a = Start b then End a < End b else Start a < Start b)"

instance
  by standard
    (auto simp: less_eq_StatusCodeRange_def less_StatusCodeRange_def StatusCodeRange.expand split: if_splits)

end

datatype range_error =
    EmptyToken
  | InvalidRangeToken string
  | InvalidRangeStart string
  | InvalidRangeEnd string
  | RangeStartAfterEnd string
  | RangeOutOfBounds string
  | InvalidStatusCode string
  | StatusCodeOutOfBounds string
  | InvalidRules "string list"

definition AutomaticDisableStatusCodeRanges :: "StatusCodeRange list" where
  "AutomaticDisableStatusCodeRanges = [StatusCodeRange 401 401]"

definition AutomaticRetryStatusCodeRanges :: "StatusCodeRange list" where
  "AutomaticRetryStatusCodeRanges =
     [StatusCodeRange 100 199, StatusCodeRange 300 399, StatusCodeRange 401 407,
      StatusCodeRange 409 499, StatusCodeRange 500 503, StatusCodeRange 505 523,
      StatusCodeRange 525 599]"

definition alwaysSkipRetryStatusCodes :: "int list" where
  "alwaysSkipRetryStatusCodes = [504, 524]"

section \<open>Operations\<close>

definition parseHTTPStatusCodeToken :: "string \<Rightarrow> range_error + StatusCodeRange" where
  "parseHTTPStatusCodeToken tok0 =
     (let token = ReplaceByte (TrimSpace tok0) CHR '' '' [] in
      if token = [] then Inl EmptyToken
      else if Contains token ''-'' then
        (case Split token CHR ''-'' of
           [a, b] \<Rightarrow>
             if a = [] \<or> b = [] then Inl (InvalidRangeToken token)
             else (case Atoi a of
                     None \<Rightarrow> Inl (InvalidRangeStart token)
                   | Some s \<Rightarrow>
                       (case Atoi b of
                          None \<Rightarrow> Inl (InvalidRangeEnd token)
                        | Some e \<Rightarrow>
                            if s > e then Inl (RangeStartAfterEnd token)
                            else if s < 100 \<or> e > 599 then Inl (RangeOutOfBounds token)
                            else Inr (StatusCodeRange s e)))
         | _ \<Rightarrow> Inl (InvalidRangeToken token))
      else (case Atoi token of
              None \<Rightarrow> Inl (InvalidStatusCode token)
            | Some code \<Rightarrow>
                if code < 100 \<or> code > 599 then Inl (StatusCodeOutOfBounds token)
                else Inr (StatusCodeRange code code)))"

text \<open>The bytes of the fullwidth comma U+FF0C.\<close>

definition fullwidth_comma :: string where
  "fullwidth_comma = [CHR 0xEF, CHR 0xBC, CHR 0x8C]"

text \<open>The segments the parsing loop visits: trimmed, the empty ones skipped.\<close>

definition segments :: "string \<Rightarrow> string list" where
  "segments input =
     filter (\<lambda>seg. seg \<noteq> [])
       (map TrimSpace (Split (ReplaceAll (TrimSpace input) fullwidth_comma '','') CHR '',''))"

text \<open>The loop: collect the parsed ranges and the invalid segments.\<close>

fun parse_segments ::
  "string list \<Rightarrow> StatusCodeRange list \<times> string list" where
  "parse_segments [] = ([], [])"
| "parse_segments (seg # segs) =
     (let (ranges, invalid) = parse_segments segs in
      case parseHTTPStatusCodeToken seg of
        Inl _ \<Rightarrow> (ranges, seg # invalid)
      | Inr r \<Rightarrow> (r # ranges, invalid))"

fun merge_ranges :: "StatusCodeRange \<Rightarrow> StatusCodeRange list \<Rightarrow> StatusCodeRange list" where
  "merge_ranges cur [] = [cur]"
| "merge_ranges cur (r # rs) =
     (if Start r \<le> End cur + 1
      then merge_ranges (if End r > End cur then StatusCodeRange (Start cur) (End r) else cur) rs
      else cur # merge_ranges r rs)"

definition ParseHTTPStatusCodeRanges :: "string \<Rightarrow> range_error + StatusCodeRange list" where
  "ParseHTTPStatusCodeRanges input =
     (if TrimSpace input = [] then Inr []
      else let (ranges, invalid) = parse_segments (segments input) in
        if invalid \<noteq> [] then Inl (InvalidRules invalid)
        else (case sort ranges of
                [] \<Rightarrow> Inr []
              | r # rs \<Rightarrow> Inr (merge_ranges r rs)))"

fun shouldMatchStatusCodeRanges_loop :: "StatusCodeRange list \<Rightarrow> int \<Rightarrow> bool" where
  "shouldMatchStatusCodeRanges_loop [] code = False"
| "shouldMatchStatusCodeRanges_loop (r # rs) code =
     (if code < Start r then False
      else if code \<le> End r then True
      else shouldMatchStatusCodeRanges_loop rs code)"

definition shouldMatchStatusCodeRanges :: "StatusCodeRange list \<Rightarrow> int \<Rightarrow> bool" where
  "shouldMatchStatusCodeRanges ranges code =
     (if code < 100 \<or> code > 599 then False else shouldMatchStatusCodeRanges_loop ranges code)"

definition print_range :: "StatusCodeRange \<Rightarrow> string" where
  "print_range r = (if Start r = End r then Itoa (Start r) else Itoa (Start r) @ ''-'' @ Itoa (End r))"

definition statusCodeRangesToString :: "StatusCodeRange list \<Rightarrow> string" where
  "statusCodeRangesToString ranges = (if ranges = [] then [] else Join (map print_range ranges) '','')"

definition ShouldDisableByStatusCode :: "StatusCodeRange list \<Rightarrow> int \<Rightarrow> bool" where
  "ShouldDisableByStatusCode disableRanges code = shouldMatchStatusCodeRanges disableRanges code"

definition IsAlwaysSkipRetryStatusCode :: "int \<Rightarrow> bool" where
  "IsAlwaysSkipRetryStatusCode code \<longleftrightarrow> code \<in> set alwaysSkipRetryStatusCodes"

definition ShouldRetryByStatusCode :: "StatusCodeRange list \<Rightarrow> int \<Rightarrow> bool" where
  "ShouldRetryByStatusCode retryRanges code =
     (if IsAlwaysSkipRetryStatusCode code then False
      else shouldMatchStatusCodeRanges retryRanges code)"

text \<open>The setters keep the old ranges when the text does not parse.\<close>

definition AutomaticRetryStatusCodesFromString ::
  "StatusCodeRange list \<Rightarrow> string \<Rightarrow> range_error option \<times> StatusCodeRange list" where
  "AutomaticRetryStatusCodesFromString old s =
     (case ParseHTTPStatusCodeRanges s of Inl e \<Rightarrow> (Some e, old) | Inr rs \<Rightarrow> (None, rs))"

definition AutomaticDisableStatusCodesFromString ::
  "StatusCodeRange list \<Rightarrow> string \<Rightarrow> range_error option \<times> StatusCodeRange list" where
  "AutomaticDisableStatusCodesFromString old s =
     (case ParseHTTPStatusCodeRanges s of Inl e \<Rightarrow> (Some e, old) | Inr rs \<Rightarrow> (None, rs))"

section \<open>Well-formed range lists\<close>

definition range_ok :: "StatusCodeRange \<Rightarrow> bool" where
  "range_ok r \<longleftrightarrow> 100 \<le> Start r \<and> Start r \<le> End r \<and> End r \<le> 599"

text \<open>Each range ends at least two below the start of every later one.\<close>

definition separated :: "StatusCodeRange list \<Rightarrow> bool" where
  "separated rs \<longleftrightarrow> sorted_wrt (\<lambda>a b. End a + 1 < Start b) rs"

definition ranges_ok :: "StatusCodeRange list \<Rightarrow> bool" where
  "ranges_ok rs \<longleftrightarrow> (\<forall>r \<in> set rs. range_ok r) \<and> separated rs"

definition covers :: "StatusCodeRange list \<Rightarrow> int \<Rightarrow> bool" where
  "covers rs code \<longleftrightarrow> (\<exists>r \<in> set rs. Start r \<le> code \<and> code \<le> End r)"

lemma covers_simps [simp]:
  "covers [] c \<longleftrightarrow> False"
  "covers (r # rs) c \<longleftrightarrow> (Start r \<le> c \<and> c \<le> End r) \<or> covers rs c"
  by (auto simp: covers_def)

lemma parse_token_ok: "parseHTTPStatusCodeToken t = Inr r \<Longrightarrow> range_ok r"
  by (auto simp: parseHTTPStatusCodeToken_def range_ok_def Let_def split: if_splits option.splits list.splits)

lemma parse_segments_ranges:
  "set (fst (parse_segments segs)) = {r. \<exists>seg \<in> set segs. parseHTTPStatusCodeToken seg = Inr r}"
  by (induction segs) (auto simp: Let_def split: sum.splits prod.splits)

lemma parse_segments_invalid:
  "snd (parse_segments segs) = filter (\<lambda>seg. \<exists>e. parseHTTPStatusCodeToken seg = Inl e) segs"
  by (induction segs) (auto simp: Let_def split: sum.splits prod.splits)

lemma merge_ranges_covers:
  assumes "Start l \<le> End l" and "\<forall>r \<in> set rs. Start r \<le> End r" and "sorted (map Start (l # rs))"
  shows "covers (merge_ranges l rs) c \<longleftrightarrow> covers (l # rs) c"
  using assms
proof (induction l rs rule: merge_ranges.induct)
  case (1 l)
  then show ?case by simp
next
  case (2 l r rs)
  show ?case
  proof (cases "Start r \<le> End l + 1")
    case True
    let ?l = "if End r > End l then StatusCodeRange (Start l) (End r) else l"
    have "covers (merge_ranges ?l rs) c \<longleftrightarrow> covers (?l # rs) c"
      using "2.IH"(1) [OF True] "2.prems" by auto
    with True "2.prems" show ?thesis by auto
  next
    case False
    with "2.IH"(2) [OF False] "2.prems" show ?thesis by auto
  qed
qed

lemma merge_ranges_starts:
  "sorted (map Start (l # rs)) \<Longrightarrow> r \<in> set (merge_ranges l rs) \<Longrightarrow> Start l \<le> Start r"
  by (induction l rs rule: merge_ranges.induct) (force split: if_splits)+

lemma merge_ranges_ok:
  "range_ok l \<Longrightarrow> \<forall>r \<in> set rs. range_ok r \<Longrightarrow> r \<in> set (merge_ranges l rs) \<Longrightarrow> range_ok r"
  by (induction l rs rule: merge_ranges.induct) (auto simp: range_ok_def split: if_splits)

lemma merge_ranges_separated:
  "sorted (map Start (l # rs)) \<Longrightarrow> separated (merge_ranges l rs)"
proof (induction l rs rule: merge_ranges.induct)
  case (1 l)
  then show ?case by (simp add: separated_def)
next
  case (2 l r rs)
  show ?case
  proof (cases "Start r \<le> End l + 1")
    case True
    with "2.IH"(1) [OF True] "2.prems" show ?thesis by auto
  next
    case False
    with "2.prems" have "\<forall>x \<in> set (merge_ranges r rs). End l + 1 < Start x"
      using merge_ranges_starts [of r rs] by fastforce
    with False "2.IH"(2) [OF False] "2.prems" show ?thesis
      by (simp add: separated_def)
  qed
qed

lemma sorted_map_Start: "sorted rs \<Longrightarrow> sorted (map Start rs)"
  by (induction rs) (auto simp: less_eq_StatusCodeRange_def split: if_splits)

lemma match_loop_covers:
  "separated rs \<Longrightarrow> \<forall>r \<in> set rs. Start r \<le> End r \<Longrightarrow>
   shouldMatchStatusCodeRanges_loop rs code \<longleftrightarrow> covers rs code"
  by (induction rs) (fastforce simp: separated_def covers_def)+

lemma match_covers:
  assumes "ranges_ok rs"
  shows "shouldMatchStatusCodeRanges rs code \<longleftrightarrow> covers rs code"
proof -
  have "covers rs code \<Longrightarrow> 100 \<le> code \<and> code \<le> 599"
    using assms by (fastforce simp: covers_def ranges_ok_def range_ok_def)
  with assms show ?thesis
    by (auto simp: shouldMatchStatusCodeRanges_def ranges_ok_def range_ok_def match_loop_covers)
qed

lemma parse_ok_ranges:
  assumes "ParseHTTPStatusCodeRanges s = Inr rs"
  shows "ranges_ok rs"
    and "covers rs c \<longleftrightarrow> TrimSpace s \<noteq> [] \<and> covers (fst (parse_segments (segments s))) c"
proof -
  let ?ps = "fst (parse_segments (segments s))"
  have ok: "\<forall>r \<in> set ?ps. range_ok r"
    using parse_token_ok by (auto simp: parse_segments_ranges)
  consider (blank) "TrimSpace s = []" "rs = []"
    | (none) "TrimSpace s \<noteq> []" "?ps = []" "rs = []"
    | (some) r rest where "TrimSpace s \<noteq> []" "sort ?ps = r # rest" "rs = merge_ranges r rest"
    using assms by (auto simp: ParseHTTPStatusCodeRanges_def Let_def split: if_splits prod.splits list.splits)
      (metis fst_conv set_empty set_sort)
  then have "ranges_ok rs \<and> (covers rs c \<longleftrightarrow> TrimSpace s \<noteq> [] \<and> covers ?ps c)"
  proof cases
    case some
    have st: "sorted (map Start (r # rest))"
      by (metis sorted_map_Start sorted_sort some(2))
    have set: "set ?ps = set (r # rest)" by (metis set_sort some(2))
    have rok: "range_ok r" "\<forall>x \<in> set rest. range_ok x" using ok set by auto
    have "covers rs c \<longleftrightarrow> covers (r # rest) c"
      unfolding some(3) by (rule merge_ranges_covers) (use rok st in \<open>auto simp: range_ok_def\<close>)
    also have "\<dots> \<longleftrightarrow> covers ?ps c" unfolding covers_def set ..
    finally show ?thesis
      using some rok merge_ranges_ok [OF rok] merge_ranges_separated [OF st] by (simp add: ranges_ok_def)
  qed (auto simp: ranges_ok_def separated_def)
  then show "ranges_ok rs" "covers rs c \<longleftrightarrow> TrimSpace s \<noteq> [] \<and> covers ?ps c" by auto
qed

section \<open>Printing and parsing\<close>

lemma Itoa_nonneg: "0 \<le> i \<Longrightarrow> Itoa i = nat_digits (nat i)"
  by (simp add: Itoa_def)

lemma nat_digits_edges: "edge_solid (hd (nat_digits n))" "edge_solid (last (nat_digits n))"
  using set_nat_digits [of "hd (nat_digits n)" n] set_nat_digits [of "last (nat_digits n)" n]
    digit_char_solid by auto

lemma print_range_chars:
  assumes "range_ok r"
  shows "print_range r \<noteq> []" "edge_solid (hd (print_range r))" "edge_solid (last (print_range r))"
    "CHR '','' \<notin> set (print_range r)" "CHR '' '' \<notin> set (print_range r)"
  using assms nat_digits_edges
  by (auto simp: print_range_def range_ok_def Itoa_nonneg nat_digits_no)

lemma parse_print_range:
  assumes "range_ok r"
  shows "parseHTTPStatusCodeToken (print_range r) = Inr r"
proof -
  have trim: "ReplaceByte (TrimSpace (print_range r)) CHR '' '' [] = print_range r"
    using print_range_chars [OF assms] by (simp add: TrimSpace_solid ReplaceByte_absent)
  have rng: "in_int64 (Start r)" "in_int64 (End r)" "0 \<le> Start r" "0 \<le> End r"
    using assms by (auto simp: range_ok_def in_int64_def MinInt64_def MaxInt64_def)
  note ai = Atoi_Itoa [OF rng(1)] Atoi_Itoa [OF rng(2)]
  show ?thesis
  proof (cases "Start r = End r")
    case True
    then have p: "print_range r = nat_digits (nat (End r))"
      using rng by (simp add: print_range_def Itoa_nonneg)
    show ?thesis
      using assms True ai rng
      by (simp add: parseHTTPStatusCodeToken_def trim [unfolded p] p nat_digits_no Itoa_nonneg range_ok_def Let_def StatusCodeRange.expand)
  next
    case False
    then have p: "print_range r = nat_digits (nat (Start r)) @ CHR ''-'' # nat_digits (nat (End r))"
      using rng by (simp add: print_range_def Itoa_nonneg)
    have "Split (nat_digits (nat (Start r)) @ CHR ''-'' # nat_digits (nat (End r))) CHR ''-'' =
        [nat_digits (nat (Start r)), nat_digits (nat (End r))]"
      by (simp add: Split_append_sep Split_no_sep nat_digits_no)
    then show ?thesis
      using assms ai rng
      by (simp add: parseHTTPStatusCodeToken_def trim [unfolded p] p Itoa_nonneg range_ok_def Let_def)
  qed
qed

lemma print_range_byte: "range_ok r \<Longrightarrow> c \<in> set (print_range r) \<Longrightarrow> c = CHR ''-'' \<or> (\<exists>d<10. c = digit_char d)"
  using set_nat_digits by (auto simp: print_range_def range_ok_def Itoa_nonneg split: if_splits)

lemma Join_edges:
  assumes "ps \<noteq> []" "\<forall>p \<in> set ps. p \<noteq> []"
  shows "Join ps sep \<noteq> []" "hd (Join ps sep) = hd (hd ps)" "last (Join ps sep) = last (last ps)"
  using assms by (induction ps sep rule: Join.induct) auto

lemma set_Join: "set (Join ps sep) \<subseteq> \<Union> (set ` set ps) \<union> set sep"
  by (induction ps sep rule: Join.induct) auto

lemma segments_print:
  assumes "ranges_ok rs" "rs \<noteq> []"
  shows "segments (statusCodeRangesToString rs) = map print_range rs"
    and "TrimSpace (statusCodeRangesToString rs) = statusCodeRangesToString rs"
    and "statusCodeRangesToString rs \<noteq> []"
proof -
  let ?s = "statusCodeRangesToString rs"
  have ok: "\<forall>r \<in> set rs. range_ok r" using assms by (simp add: ranges_ok_def)
  have s: "?s = Join (map print_range rs) [CHR '','']"
    using assms by (simp add: statusCodeRangesToString_def)
  have ne: "\<forall>p \<in> set (map print_range rs). p \<noteq> []" using ok print_range_chars(1) by auto
  note edges = Join_edges [OF _ ne, of "[CHR '','']"]
  show ns: "?s \<noteq> []" using edges(1) assms(2) by (simp add: s)
  show trim: "TrimSpace ?s = ?s"
    using edges assms(2) ok print_range_chars(2,3)
    by (intro TrimSpace_solid) (auto simp: s hd_map last_map)
  have "CHR 0xEF \<notin> set ?s"
  proof
    assume "CHR 0xEF \<in> set ?s"
    then consider "CHR 0xEF = CHR '',''"
      | r where "r \<in> set rs" "CHR 0xEF \<in> set (print_range r)"
      using set_Join [of "map print_range rs" "[CHR '','']"] by (auto simp: s)
    then show False
    proof cases
      case 2
      then consider "CHR 0xEF = CHR ''-''" | d where "d < 10" "CHR 0xEF = digit_char d"
        using print_range_byte ok by blast
      then show False
      proof cases
        case (2 d)
        then have "of_char (CHR 0xEF) = 48 + d" using of_char_digit_char by metis
        then show False using 2(1) by simp
      qed simp
    qed simp
  qed
  then have "ReplaceAll ?s fullwidth_comma '','' = ?s"
    by (intro ReplaceAll_absent) (auto simp: fullwidth_comma_def)
  then have "segments ?s = filter (\<lambda>g. g \<noteq> []) (map TrimSpace (map print_range rs))"
    using assms(2) ok print_range_chars(4) unfolding segments_def trim by (simp add: s Split_Join)
  also have "map TrimSpace (map print_range rs) = map print_range rs"
    using ok print_range_chars by (auto simp: TrimSpace_solid)
  finally show "segments ?s = map print_range rs"
    using ne by (simp add: filter_id_conv)
qed

lemma parse_segments_print:
  "\<forall>r \<in> set rs. range_ok r \<Longrightarrow> parse_segments (map print_range rs) = (rs, [])"
  by (induction rs) (auto simp: parse_print_range)

lemma separated_sorted: "separated rs \<Longrightarrow> \<forall>r \<in> set rs. Start r \<le> End r \<Longrightarrow> sorted rs"
  by (induction rs) (fastforce simp: separated_def less_eq_StatusCodeRange_def)+

lemma merge_ranges_separated_id: "separated (r # rs) \<Longrightarrow> merge_ranges r rs = r # rs"
  by (induction r rs rule: merge_ranges.induct) (auto simp: separated_def)

section \<open>Properties\<close>

text \<open>
  C27. Parsing an operator's rule text and matching a status code against the stored ranges decides
  exactly whether some segment of the text names the code: sorting, merging and the early exit of
  the matching loop lose and add nothing.
\<close>

theorem parsed_ranges_match_exactly:
  assumes "ParseHTTPStatusCodeRanges s = Inr rs"
  shows "shouldMatchStatusCodeRanges rs code \<longleftrightarrow>
    TrimSpace s \<noteq> [] \<and>
    (\<exists>seg \<in> set (segments s). \<exists>r. parseHTTPStatusCodeToken seg = Inr r \<and> Start r \<le> code \<and> code \<le> End r)"
proof -
  have "shouldMatchStatusCodeRanges rs code \<longleftrightarrow> covers rs code"
    by (rule match_covers [OF parse_ok_ranges(1) [OF assms]])
  then show ?thesis
    using parse_ok_ranges(2) [OF assms, of code] by (auto simp: covers_def parse_segments_ranges)
qed

theorem parsed_ranges_match_exactly_witness:
  "ParseHTTPStatusCodeRanges '' 500-503, 401,502-510 '' = Inr [StatusCodeRange 401 401, StatusCodeRange 500 510] \<and>
   shouldMatchStatusCodeRanges [StatusCodeRange 401 401, StatusCodeRange 500 510] 505"
proof -
  have p: "ParseHTTPStatusCodeRanges '' 500-503, 401,502-510 '' = Inr [StatusCodeRange 401 401, StatusCodeRange 500 510]"
    by code_simp
  have "TrimSpace '' 500-503, 401,502-510 '' \<noteq> [] \<and>
    (\<exists>seg \<in> set (segments '' 500-503, 401,502-510 ''). \<exists>r. parseHTTPStatusCodeToken seg = Inr r \<and> Start r \<le> 505 \<and> 505 \<le> End r)"
  proof (intro conjI bexI exI)
    show "parseHTTPStatusCodeToken ''502-510'' = Inr (StatusCodeRange 502 510)" by code_simp
    show "''502-510'' \<in> set (segments '' 500-503, 401,502-510 '')" by code_simp
  qed (simp_all, code_simp)
  then show ?thesis using parsed_ranges_match_exactly [OF p, of 505] p by blast
qed



text \<open>
  With the default rules a status code is retried exactly when it is an HTTP status outside 2xx
  and none of 400, 408, 504, 524, as the comment above the default ranges says.
\<close>

theorem default_retry_codes:
  "ShouldRetryByStatusCode AutomaticRetryStatusCodeRanges code \<longleftrightarrow>
     100 \<le> code \<and> code \<le> 599 \<and> \<not> (200 \<le> code \<and> code \<le> 299) \<and> code \<notin> {400, 408, 504, 524}"
  by (auto simp: ShouldRetryByStatusCode_def IsAlwaysSkipRetryStatusCode_def alwaysSkipRetryStatusCodes_def
      shouldMatchStatusCodeRanges_def AutomaticRetryStatusCodeRanges_def)

end
