(* ===== verification/Relay_Loop.thy ===== *)
theory Relay_Loop
  imports Channel_Cache Billing_Session Status_Ranges "HOL-Library.AList"
begin

text \<open>
  The relay of a request (src/controller/relay.go, src/service/channel_select.go, src/service/channel.go, src/service/group.go, the
  channel part of src/middleware/distributor.go): a channel is chosen, the request is sent to it, and on a failure the loop tries
  again with another channel, a lower priority or the next group, until it succeeds, the error is final or the retries are used up.

  What happens outside during one pass of the loop is an argument, \<open>attempt\<close>: whether the client is gone, whether the stored body can
  be read and if not, whether it was too large and the text, the error of the upstream request as \<open>NormalizeViolationFeeError\<close> leaves it, whether output has been sent, the clock, the
  random numbers, and how many of the pending goroutines that disable a channel have run.  The helper that sends the request
  first calls \<open>InitChannelMeta\<close>, so the channel meta is set exactly after the first attempt.  The error log, metrics, the
  fee for violations, and the fields of the context that only the helpers read are not part of the model.
\<close>

section \<open>Groups of a user\<close>

fun bytes_less :: "string \<Rightarrow> string \<Rightarrow> bool" where
  "bytes_less xs [] = False"
| "bytes_less [] (y # ys) = True"
| "bytes_less (x # xs) (y # ys) = (of_char x < (of_char y :: nat) \<or> x = y \<and> bytes_less xs ys)"

text \<open>The special settings of a group are given in the order in which the map is iterated.\<close>

fun apply_special :: "(string \<times> string) list \<Rightarrow> (string \<times> string) list \<Rightarrow> (string \<times> string) list" where
  "apply_special [] groups = groups"
| "apply_special ((specialGroup, desc) # rest) groups =
    apply_special rest
      (if HasPrefix specialGroup ''-:'' then AList.delete (TrimPrefix specialGroup ''-:'') groups
       else if HasPrefix specialGroup ''+:'' then AList.update (TrimPrefix specialGroup ''+:'') desc groups
       else AList.update specialGroup desc groups)"

record group_settings =
  userUsableGroups :: "(string \<times> string) list"
  groupSpecialUsableGroup :: "string \<rightharpoonup> (string \<times> string) list"
  groupRatioMap :: "string \<rightharpoonup> rat"
  groupGroupRatioMap :: "string \<rightharpoonup> (string \<rightharpoonup> rat)"
  userGroupText :: string

definition GetUserUsableGroups :: "group_settings \<Rightarrow> string \<Rightarrow> (string \<times> string) list" where
  "GetUserUsableGroups gs userGroup =
    (let groupsCopy = userUsableGroups gs in
     if userGroup = [] then groupsCopy
     else
       let groups = (case groupSpecialUsableGroup gs userGroup of None \<Rightarrow> groupsCopy | Some special \<Rightarrow> apply_special special groupsCopy)
       in if map_of groups userGroup = None then AList.update userGroup (userGroupText gs) groups else groups)"

definition GroupInUserUsableGroups :: "group_settings \<Rightarrow> string \<Rightarrow> string \<Rightarrow> bool" where
  "GroupInUserUsableGroups gs userGroup groupName = (map_of (GetUserUsableGroups gs userGroup) groupName \<noteq> None)"

definition GetGroupRatio :: "group_settings \<Rightarrow> string \<Rightarrow> rat" where
  "GetGroupRatio gs name = (case groupRatioMap gs name of None \<Rightarrow> 1 | Some ratio \<Rightarrow> ratio)"

definition GetGroupGroupRatio :: "group_settings \<Rightarrow> string \<Rightarrow> string \<Rightarrow> rat \<times> bool" where
  "GetGroupGroupRatio gs userGroup usingGroup =
    (case groupGroupRatioMap gs userGroup of
       None \<Rightarrow> (- 1, False)
     | Some gp \<Rightarrow> (case gp usingGroup of None \<Rightarrow> (- 1, False) | Some ratio \<Rightarrow> (ratio, True)))"

definition GetUserGroupRatio :: "group_settings \<Rightarrow> string \<Rightarrow> string \<Rightarrow> rat" where
  "GetUserGroupRatio gs userGroup g =
    (case GetGroupGroupRatio gs userGroup g of (ratio, ok) \<Rightarrow> if ok then ratio else GetGroupRatio gs g)"

definition GetUserAutoGroup :: "group_settings \<Rightarrow> string \<Rightarrow> string list" where
  "GetUserAutoGroup gs userGroup =
    sort_by (\<lambda>a b. if GetUserGroupRatio gs userGroup a = GetUserGroupRatio gs userGroup b then bytes_less a b
                    else GetUserGroupRatio gs userGroup a < GetUserGroupRatio gs userGroup b)
      (filter (\<lambda>g. g \<noteq> ''auto'') (map fst (GetUserUsableGroups gs userGroup)))"

section \<open>State\<close>

record ChannelError =
  ce_ChannelId :: int
  ce_ChannelType :: int
  ce_ChannelName :: string
  ce_IsMultiKey :: bool
  ce_AutoBan :: bool
  ce_UsingKey :: string

text \<open>
  Configuration and the fields of a request that do not change while it is relayed.  \<open>disableKeyword\<close> is the search of the
  keyword automaton in the lower-cased text, \<open>channelText\<close> the message that no channel was found, with the error if there was one.
\<close>

record relay_env =
  re_env :: env
  re_ce :: channel_env
  RetryTimes :: nat
  AutomaticDisableChannelEnabled :: bool
  retryRanges :: "StatusCodeRange list"
  disableRanges :: "StatusCodeRange list"
  disableKeyword :: "string \<Rightarrow> bool"
  limitInRedis :: bool
  tokenGroup :: string
  userAutoGroups :: "string list"
  crossGroupRetry :: bool
  modelName :: string
  requestPath :: string
  affinitySkipRetry :: bool
  specificChannel :: bool
  channelText :: "error option \<Rightarrow> string"

record attempt =
  at_jobs :: nat
  at_gone :: bool
  at_body :: "(bool \<times> string) option"
  at_now :: int
  at_redis :: bool
  at_rnd :: "nat \<Rightarrow> int \<Rightarrow> int"
  at_error :: "NewAPIError option"
  at_goneAfter :: bool
  at_semanticOutput :: bool

record relay_ctx =
  cx_channel_id :: int
  cx_channel_type :: int
  cx_channel_name :: string
  cx_auto_ban :: bool
  cx_settings :: "ChannelOtherSettings option"
  cx_key :: string
  cx_multi_key :: bool
  cx_auto_group_index :: "nat option"
  cx_use_channel :: "int list"

record relay_state =
  rs_retry :: nat
  rs_resetNextTry :: bool
  rs_meta :: bool
  rs_ctx :: relay_ctx
  rs_cache :: ChannelCache
  rs_health :: channelHealth
  rs_limiter :: limiter
  rs_store :: store
  rs_jobs :: "(ChannelError \<times> string) list"
  rs_error :: "NewAPIError option"
  rs_attempted :: bool
  rs_limited :: bool

abbreviation set_ctx :: "(relay_ctx \<Rightarrow> relay_ctx) \<Rightarrow> relay_state \<Rightarrow> relay_state" where
  "set_ctx f st \<equiv> st\<lparr>rs_ctx := f (rs_ctx st)\<rparr>"

definition IncreaseRetry :: "relay_state \<Rightarrow> relay_state" where
  "IncreaseRetry st = (if rs_resetNextTry st then st\<lparr>rs_resetNextTry := False\<rparr> else st\<lparr>rs_retry := rs_retry st + 1\<rparr>)"

section \<open>Choice of a channel\<close>

text \<open>One selection by the model; its result and the store after it.\<close>

definition select_channel :: "relay_env \<Rightarrow> attempt \<Rightarrow> nat \<Rightarrow> string \<Rightarrow> nat \<Rightarrow> relay_state \<Rightarrow> (Channel option \<times> error option) \<times> relay_state" where
  "select_channel re att i g retry st =
    (case GetRandomSatisfiedChannel (re_ce re) (at_rnd att i) (rs_cache st) g (modelName re) retry (requestPath re) (rs_store st) of
       (r, s) \<Rightarrow> (r, st\<lparr>rs_store := s\<rparr>))"

text \<open>The loop over the groups of an automatic token; \<open>i\<close> is the index of the first of the remaining groups.\<close>

fun auto_select :: "relay_env \<Rightarrow> attempt \<Rightarrow> nat \<Rightarrow> nat \<Rightarrow> string list \<Rightarrow> relay_state \<Rightarrow> Channel option \<times> relay_state" where
  "auto_select re att start i [] st = (None, st)"
| "auto_select re att start i (g # gs) st =
    (let priorityRetry = (if i > start then 0 else rs_retry st) in
     case select_channel re att i g priorityRetry st of
       ((None, _), st1) \<Rightarrow>
         auto_select re att start (i + 1) gs
           (set_ctx (\<lambda>c. c\<lparr>cx_auto_group_index := Some (i + 1)\<rparr>) st1\<lparr>rs_retry := 0\<rparr>)
     | ((Some ch, _), st1) \<Rightarrow>
         if IsChannelCoolingDown (at_now att) (ch_Id ch) (rs_health st1) then
           auto_select re att start (i + 1) gs (st1\<lparr>rs_retry := rs_retry st1 + 1\<rparr>)
         else if crossGroupRetry re \<and> priorityRetry \<ge> RetryTimes re then
           (Some ch, set_ctx (\<lambda>c. c\<lparr>cx_auto_group_index := Some (i + 1)\<rparr>) st1\<lparr>rs_retry := 0, rs_resetNextTry := True\<rparr>)
         else (Some ch, set_ctx (\<lambda>c. c\<lparr>cx_auto_group_index := Some i\<rparr>) st1))"

definition CacheGetRandomSatisfiedChannel ::
    "relay_env \<Rightarrow> attempt \<Rightarrow> relay_state \<Rightarrow> (error + Channel option) \<times> relay_state" where
  "CacheGetRandomSatisfiedChannel re att st =
    (if tokenGroup re = ''auto'' then
       let start = (case cx_auto_group_index (rs_ctx st) of None \<Rightarrow> 0 | Some i \<Rightarrow> i)
       in case auto_select re att start start (drop start (userAutoGroups re)) st of (ch, st1) \<Rightarrow> (Inr ch, st1)
     else case select_channel re att 0 (tokenGroup re) (rs_retry st) st of
       ((_, Some e), st1) \<Rightarrow> (Inl e, st1)
     | ((None, None), st1) \<Rightarrow> (Inr None, st1)
     | ((Some ch, None), st1) \<Rightarrow>
         if IsChannelCoolingDown (at_now att) (ch_Id ch) (rs_health st1) then (Inr None, st1) else (Inr (Some ch), st1))"

definition key_error :: "env \<Rightarrow> error \<Rightarrow> NewAPIError" where
  "key_error env e =
    (if e = ErrNoKeysAvailable \<or> e = ErrNoEnabledKeys then NewError (plain env e) ''channel:no_available_key'' []
     else NewError (plain env e) ''get_channel_failed'' [ErrOptionWithSkipRetry])"

text \<open>A channel object of the cache is changed in place.\<close>

definition write_back :: "channel_env \<Rightarrow> Channel \<Rightarrow> ChannelCache \<Rightarrow> ChannelCache" where
  "write_back ce ch cache =
    (if MemoryCacheEnabled ce then cache\<lparr>channelsIDM := (channelsIDM cache)(ch_Id ch \<mapsto> ch)\<rparr> else cache)"

definition SetupContextForSelectedChannel :: "relay_env \<Rightarrow> attempt \<Rightarrow> Channel \<Rightarrow> relay_state \<Rightarrow> NewAPIError option \<times> relay_state" where
  "SetupContextForSelectedChannel re att ch st =
    (case GetOtherSettings (re_ce re) ch (rs_store st) of (settings, ch1, s1) \<Rightarrow>
      let st1 = (set_ctx (\<lambda>c. c\<lparr>cx_channel_id := ch_Id ch, cx_channel_name := ch_Name ch, cx_channel_type := ch_Type ch,
                                cx_settings := Some settings, cx_auto_ban := GetAutoBan ch\<rparr>) st)
                \<lparr>rs_cache := write_back (re_ce re) ch1 (rs_cache st), rs_store := s1\<rparr>
      in case GetNextEnabledKey (re_ce re) (at_rnd att (length (userAutoGroups re))) (rs_cache st1) ch1 s1 of
           (Inl e, ch2, s2) \<Rightarrow>
             (Some (key_error (re_env re) e), st1\<lparr>rs_cache := write_back (re_ce re) ch2 (rs_cache st1), rs_store := s2\<rparr>)
         | (Inr (key, _), ch2, s2) \<Rightarrow>
             (None, (set_ctx (\<lambda>c. c\<lparr>cx_multi_key := ci_IsMultiKey (ch_ChannelInfo ch), cx_key := key\<rparr>) st1)
                      \<lparr>rs_cache := write_back (re_ce re) ch2 (rs_cache st1), rs_store := s2\<rparr>))"

definition getChannel :: "relay_env \<Rightarrow> attempt \<Rightarrow> relay_state \<Rightarrow> (NewAPIError + Channel) \<times> relay_state" where
  "getChannel re att st =
    (if \<not> rs_meta st then
       let c = rs_ctx st in
       (Inr ((blank (cx_channel_id c))\<lparr>ch_Type := cx_channel_type c, ch_Name := cx_channel_name c,
               ch_AutoBan := Some (if cx_auto_ban c then 1 else 0)\<rparr>), st)
     else case CacheGetRandomSatisfiedChannel re att st of
       (Inl e, st1) \<Rightarrow> (Inl (NewError (Plain (channelText re (Some e))) ''get_channel_failed'' [ErrOptionWithSkipRetry]), st1)
     | (Inr None, st1) \<Rightarrow>
         (Inl (NewError (Plain (channelText re None)) ''get_channel_failed'' [ErrOptionWithSkipRetry]), st1)
     | (Inr (Some ch), st1) \<Rightarrow>
         (case SetupContextForSelectedChannel re att ch st1 of
            (Some e, st2) \<Rightarrow> (Inl e, st2)
          | (None, st2) \<Rightarrow> (Inr ch, st2)))"

section \<open>After a failure\<close>

definition IsAlwaysSkipRetryCode :: "string \<Rightarrow> bool" where
  "IsAlwaysSkipRetryCode errorCode = (errorCode = ''bad_response_body'')"

definition shouldRetry :: "relay_env \<Rightarrow> NewAPIError option \<Rightarrow> int \<Rightarrow> bool" where
  "shouldRetry re openaiErr retryTimes =
    (case openaiErr of
       None \<Rightarrow> False
     | Some e \<Rightarrow>
        if affinitySkipRetry re then False
        else if IsChannelError openaiErr then True
        else if IsSkipRetryError openaiErr then False
        else if retryTimes \<le> 0 then False
        else if specificChannel re then False
        else
          let code = api_StatusCode e in
          if 200 \<le> code \<and> code < 300 then False
          else if code < 100 \<or> code > 599 then True
          else if IsAlwaysSkipRetryCode (GetErrorCode openaiErr) then False
          else ShouldRetryByStatusCode (retryRanges re) code)"

definition ShouldDisableChannel :: "relay_env \<Rightarrow> NewAPIError option \<Rightarrow> bool" where
  "ShouldDisableChannel re err =
    (if \<not> AutomaticDisableChannelEnabled re then False
     else case err of
       None \<Rightarrow> False
     | Some e \<Rightarrow>
        if IsChannelError err then True
        else if IsSkipRetryError err then False
        else if ShouldDisableByStatusCode (disableRanges re) (api_StatusCode e) then True
        else disableKeyword re (Error err))"

definition ShouldEnableChannel :: "bool \<Rightarrow> NewAPIError option \<Rightarrow> int \<Rightarrow> bool" where
  "ShouldEnableChannel automaticEnable newAPIError status =
    (if \<not> automaticEnable then False
     else if newAPIError \<noteq> None then False
     else if status \<noteq> ChannelStatusAutoDisabled then False
     else True)"

definition DisableChannel :: "env \<Rightarrow> channel_env \<Rightarrow> ChannelError \<Rightarrow> string \<Rightarrow> ChannelCache \<Rightarrow> store \<Rightarrow> ChannelCache \<times> store" where
  "DisableChannel env ce channelError reason cache s =
    (if \<not> ce_AutoBan channelError then (cache, s)
     else snd (UpdateChannelStatus env ce (ce_ChannelId channelError) (ce_UsingKey channelError) ChannelStatusAutoDisabled reason cache s))"

definition EnableChannel :: "env \<Rightarrow> channel_env \<Rightarrow> int \<Rightarrow> string \<Rightarrow> ChannelCache \<Rightarrow> store \<Rightarrow> ChannelCache \<times> store" where
  "EnableChannel env ce channelId usingKey cache s =
    snd (UpdateChannelStatus env ce channelId usingKey ChannelStatusEnabled [] cache s)"

definition processChannelError :: "relay_env \<Rightarrow> attempt \<Rightarrow> ChannelError \<Rightarrow> NewAPIError \<Rightarrow> relay_state \<Rightarrow> relay_state" where
  "processChannelError re att channelError err st =
    (case RecordChannelHealthFailure (at_now att) (ce_ChannelId channelError) (rs_health st) of (healthThresholdReached, h) \<Rightarrow>
      let st1 = st\<lparr>rs_health := h\<rparr> in
      if ce_AutoBan channelError \<and> (ShouldDisableChannel re (Some err) \<or> healthThresholdReached) then
        st1\<lparr>rs_jobs := rs_jobs st1 @ [(channelError, ErrorWithStatusCode (Some err))]\<rparr>
      else st1)"

text \<open>The goroutines that disable channels run one after the other, in the order in which they were started.\<close>

fun run_jobs :: "relay_env \<Rightarrow> nat \<Rightarrow> relay_state \<Rightarrow> relay_state" where
  "run_jobs re 0 st = st"
| "run_jobs re (Suc n) st =
    (case rs_jobs st of
       [] \<Rightarrow> st
     | (ce, reason) # rest \<Rightarrow>
        (case DisableChannel (re_env re) (re_ce re) ce reason (rs_cache st) (rs_store st) of (cache, s) \<Rightarrow>
           run_jobs re n (st\<lparr>rs_jobs := rest, rs_cache := cache, rs_store := s\<rparr>)))"

section \<open>The loop\<close>

datatype pass = Stop relay_state | Again relay_state

definition body_error :: "bool \<times> string \<Rightarrow> NewAPIError" where
  "body_error bodyErr =
    NewErrorWithStatusCode (Plain (snd bodyErr)) ''read_request_body_failed'' (if fst bodyErr then 413 else 400) [ErrOptionWithSkipRetry]"

text \<open>From the moment the channel is known and the slot of its rate limit is taken.\<close>

definition send :: "relay_env \<Rightarrow> attempt \<Rightarrow> Channel \<Rightarrow> relay_state \<Rightarrow> pass" where
  "send re att ch st =
    (let st1 = (set_ctx (\<lambda>c. c\<lparr>cx_use_channel := cx_use_channel c @ [ch_Id ch]\<rparr>) st)\<lparr>rs_attempted := True, rs_meta := True\<rparr> in
     case at_error att of
       None \<Rightarrow> Stop (st1\<lparr>rs_error := None, rs_health := RecordChannelHealthSuccess (ch_Id ch) (rs_health st1)\<rparr>)
     | Some e \<Rightarrow>
        let channelError = \<lparr>ce_ChannelId = ch_Id ch, ce_ChannelType = ch_Type ch, ce_ChannelName = ch_Name ch,
              ce_IsMultiKey = ci_IsMultiKey (ch_ChannelInfo ch), ce_AutoBan = GetAutoBan ch, ce_UsingKey = cx_key (rs_ctx st1)\<rparr>;
            st2 = processChannelError re att channelError e (st1\<lparr>rs_error := Some e\<rparr>)
        in if at_goneAfter att then Stop st2
           else if at_semanticOutput att \<or> \<not> shouldRetry re (Some e) (int (RetryTimes re) - int (rs_retry st2)) then Stop st2
           else Again st2)"

definition one_pass :: "relay_env \<Rightarrow> attempt \<Rightarrow> relay_state \<Rightarrow> pass" where
  "one_pass re att st0 =
    (let st = run_jobs re (at_jobs att) st0 in
     if at_gone att then Stop st
     else case getChannel re att st of
       (Inl e, st1) \<Rightarrow> Stop (st1\<lparr>rs_error := Some e\<rparr>)
     | (Inr ch, st1) \<Rightarrow>
        (case at_body att of
           Some bodyErr \<Rightarrow> Stop (st1\<lparr>rs_error := Some (body_error bodyErr)\<rparr>)
         | None \<Rightarrow>
            (case TryAcquireChannelRequestForContext (limitInRedis re) (at_redis att) (at_now att) (Some (cx_settings (rs_ctx st1)))
                    (ch_Id ch) (rs_limiter st1) of
               (Inl e, lm) \<Rightarrow>
                 Stop (st1\<lparr>rs_limiter := lm,
                   rs_error := Some (NewErrorWithStatusCode (plain (re_env re) e) ''get_channel_failed'' 503 [ErrOptionWithSkipRetry])\<rparr>)
             | (Inr False, lm) \<Rightarrow> Again (st1\<lparr>rs_limiter := lm, rs_limited := True\<rparr>)
             | (Inr True, lm) \<Rightarrow> send re att ch (st1\<lparr>rs_limiter := lm\<rparr>))))"

subsection \<open>Progress\<close>

text \<open>The position of the loop: the group reached, the retry counter and its pending reset.\<close>

definition pos :: "relay_state \<Rightarrow> nat option \<times> nat \<times> bool" where
  "pos st = (cx_auto_group_index (rs_ctx st), rs_retry st, rs_resetNextTry st)"

definition group_index :: "relay_state \<Rightarrow> nat" where
  "group_index st = (case cx_auto_group_index (rs_ctx st) of None \<Rightarrow> 0 | Some i \<Rightarrow> i)"

definition remaining :: "relay_env \<Rightarrow> relay_state \<Rightarrow> nat" where
  "remaining re st =
    (if tokenGroup re = ''auto'' then (length (userAutoGroups re) - group_index st) * (RetryTimes re + 3) else 0)
    + (RetryTimes re + 1 - rs_retry st) + (if rs_resetNextTry st then 1 else 0)"

lemma pos_eqD:
  assumes "pos st' = pos st"
  shows "group_index st' = group_index st" "rs_retry st' = rs_retry st" "rs_resetNextTry st' = rs_resetNextTry st"
  using assms by (simp_all add: pos_def group_index_def)

lemma run_jobs_pos: "pos (run_jobs re n st) = pos st"
  by (induction re n st rule: run_jobs.induct) (simp_all add: pos_def split: list.splits prod.splits)

lemma select_channel_pos: "select_channel re att i g r st = (x, st') \<Longrightarrow> pos st' = pos st"
  by (auto simp: select_channel_def pos_def split: prod.splits)

lemma setup_pos: "SetupContextForSelectedChannel re att ch st = (x, st') \<Longrightarrow> pos st' = pos st"
  by (auto simp: SetupContextForSelectedChannel_def pos_def Let_def split: prod.splits sum.splits)

text \<open>When the loop over the groups finds a channel it has moved to a later group, or stayed in its first one with the same counter.\<close>

lemma auto_select_progress:
  assumes "auto_select re att start i gs st = (Some ch, st')"
  shows "i < i + length gs \<and> i \<le> group_index st' \<and> group_index st' \<le> i + length gs \<and>
    (group_index st' = i \<longrightarrow> rs_retry st' = rs_retry st \<and> rs_resetNextTry st' = rs_resetNextTry st)"
  using assms
proof (induction re att start i gs st arbitrary: st' rule: auto_select.induct)
  case (2 re att start i g gs st)
  let ?r = "if i > start then 0 else rs_retry st"
  obtain c e st1 where sel: "select_channel re att i g ?r st = ((c, e), st1)" by (metis prod_cases3 surj_pair)
  note p = pos_eqD [OF select_channel_pos [OF sel]]
  show ?case
  proof (cases c)
    case None
    then have "auto_select re att start (i + 1) gs (set_ctx (\<lambda>c. c\<lparr>cx_auto_group_index := Some (i + 1)\<rparr>) st1\<lparr>rs_retry := 0\<rparr>) = (Some ch, st')"
      using 2(3) sel by (simp add: Let_def)
    from 2(1) [OF refl sel [symmetric] refl None this] show ?thesis by auto
  next
    case (Some d)
    show ?thesis
    proof (cases "IsChannelCoolingDown (at_now att) (ch_Id d) (rs_health st1)")
      case True
      then have "auto_select re att start (i + 1) gs (st1\<lparr>rs_retry := rs_retry st1 + 1\<rparr>) = (Some ch, st')"
        using 2(3) sel Some by (simp add: Let_def)
      from 2(2) [OF refl sel [symmetric] refl Some True this] show ?thesis by auto
    next
      case False
      then show ?thesis using 2(3) sel Some p
        by (auto simp: Let_def group_index_def split: if_splits)
    qed
  qed
qed simp

definition progressed :: "relay_env \<Rightarrow> relay_state \<Rightarrow> relay_state \<Rightarrow> bool" where
  "progressed re st st' \<longleftrightarrow>
    (rs_retry st' = rs_retry st \<and> rs_resetNextTry st' = rs_resetNextTry st \<and> group_index st' = group_index st) \<or>
    (tokenGroup re = ''auto'' \<and> group_index st < group_index st' \<and> group_index st' \<le> length (userAutoGroups re))"

lemma progressed_pos:
  assumes "progressed re st st1" "pos st2 = pos st1"
  shows "progressed re st st2"
  using assms(1) pos_eqD [OF assms(2)] by (simp add: progressed_def)

lemma same_pos_progressed: "pos st' = pos st \<Longrightarrow> progressed re st st'"
  using pos_eqD [of st' st] by (simp add: progressed_def)

lemma choose_progressed:
  assumes "CacheGetRandomSatisfiedChannel re att st = (Inr (Some ch), st')"
  shows "progressed re st st'"
proof (cases "tokenGroup re = ''auto''")
  case True
  then have "auto_select re att (group_index st) (group_index st) (drop (group_index st) (userAutoGroups re)) st = (Some ch, st')"
    using assms by (simp add: CacheGetRandomSatisfiedChannel_def group_index_def Let_def split: prod.splits)
  from auto_select_progress [OF this] True show ?thesis by (auto simp: progressed_def)
next
  case False
  obtain c e st1 where sel: "select_channel re att 0 (tokenGroup re) (rs_retry st) st = ((c, e), st1)" by (metis prod_cases3 surj_pair)
  then have "st' = st1" using assms False
    by (simp add: CacheGetRandomSatisfiedChannel_def split: option.splits if_splits)
  then show ?thesis using select_channel_pos [OF sel] by (simp add: same_pos_progressed)
qed

lemma getChannel_progressed:
  assumes "getChannel re att st = (Inr ch, st')"
  shows "progressed re st st'"
proof (cases "rs_meta st")
  case True
  obtain r st1 where choose: "CacheGetRandomSatisfiedChannel re att st = (r, st1)" by (metis surj_pair)
  then obtain c where r: "r = Inr (Some c)" using assms True by (auto simp: getChannel_def split: sum.splits option.splits)
  then obtain st2 where "SetupContextForSelectedChannel re att c st1 = (None, st2)" "st' = st2"
    using assms True choose by (auto simp: getChannel_def split: prod.splits option.splits)
  then show ?thesis using choose_progressed choose r setup_pos progressed_pos by blast
qed (use assms in \<open>simp add: getChannel_def Let_def same_pos_progressed\<close>)

lemma processChannelError_pos: "pos (processChannelError re att ce e st) = pos st"
  by (simp add: processChannelError_def pos_def Let_def split: prod.splits)

lemma send_pos: "send re att ch st = Again st' \<Longrightarrow> pos st' = pos st"
  by (auto simp: send_def Let_def processChannelError_pos split: option.splits if_splits) (simp add: pos_def)

lemma pass_progressed:
  assumes "one_pass re att st = Again st'"
  shows "progressed re st st'"
proof -
  let ?st = "run_jobs re (at_jobs att) st"
  obtain r st1 where get: "getChannel re att ?st = (r, st1)" by (metis surj_pair)
  obtain ch where r: "r = Inr ch" using assms get by (cases r) (simp_all add: one_pass_def Let_def split: if_splits)
  obtain a lm where acq: "TryAcquireChannelRequestForContext (limitInRedis re) (at_redis att) (at_now att)
      (Some (cx_settings (rs_ctx st1))) (ch_Id ch) (rs_limiter st1) = (a, lm)" by (metis surj_pair)
  have "pos st' = pos st1"
  proof (cases a)
    case (Inr b)
    then show ?thesis using assms get r acq
      by (cases b) (auto simp: one_pass_def Let_def pos_def split: if_splits option.splits dest!: send_pos)
  qed (use assms get r acq in \<open>simp add: one_pass_def Let_def split: if_splits option.splits\<close>)
  moreover have "progressed re ?st st1" using getChannel_progressed get r by simp
  ultimately have "progressed re ?st st'" by (rule progressed_pos [rotated])
  then show ?thesis using pos_eqD [OF run_jobs_pos] by (simp add: progressed_def)
qed

lemma IncreaseRetry_sel:
  "group_index (IncreaseRetry st) = group_index st" "\<not> rs_resetNextTry (IncreaseRetry st)"
  "rs_retry (IncreaseRetry st) = (if rs_resetNextTry st then rs_retry st else rs_retry st + 1)"
  by (simp_all add: IncreaseRetry_def group_index_def)

lemma remaining_decreases:
  assumes "one_pass re att st = Again st'" "\<not> RetryTimes re < rs_retry st"
  shows "remaining re (IncreaseRetry st') < remaining re st"
proof -
  let ?n = "length (userAutoGroups re)" and ?R = "RetryTimes re"
  consider (stay) "rs_retry st' = rs_retry st" "rs_resetNextTry st' = rs_resetNextTry st" "group_index st' = group_index st"
    | (move) "tokenGroup re = ''auto''" "group_index st < group_index st'" "group_index st' \<le> ?n"
    using pass_progressed [OF assms(1)] by (auto simp: progressed_def)
  then show ?thesis
  proof cases
    case stay
    then show ?thesis using assms(2) by (auto simp: remaining_def IncreaseRetry_sel)
  next
    case move
    have "(?n - group_index st') * (?R + 3) + (?R + 3) = (?n - group_index st' + 1) * (?R + 3)" by simp
    also have "\<dots> \<le> (?n - group_index st) * (?R + 3)" using move by (intro mult_le_mono1) simp
    finally show ?thesis using move by (simp add: remaining_def IncreaseRetry_sel)
  qed
qed

subsection \<open>Relaying\<close>

text \<open>The loop; the passes are numbered from \<open>k\<close>.  It ends because every pass uses up a retry or a group.\<close>

function relay_loop :: "relay_env \<Rightarrow> (nat \<Rightarrow> attempt) \<Rightarrow> nat \<Rightarrow> relay_state \<Rightarrow> relay_state" where
  "relay_loop re atts k st =
    (if RetryTimes re < rs_retry st then st
     else case one_pass re (atts k) st of
       Stop st' \<Rightarrow> st'
     | Again st' \<Rightarrow> relay_loop re atts (k + 1) (IncreaseRetry st'))"
  by pat_completeness auto
termination
  by (relation "measure (\<lambda>(re, atts, k, st). remaining re st)") (auto simp: remaining_decreases)

declare relay_loop.simps [simp del]

text \<open>The error after the loop.\<close>

definition final_error :: "relay_state \<Rightarrow> NewAPIError option" where
  "final_error st =
    (if rs_error st = None \<and> rs_limited st \<and> \<not> rs_attempted st then
       Some (NewErrorWithStatusCode (Plain ''all candidate channels are locally rate limited'') ''get_channel_failed'' 429
               [ErrOptionWithSkipRetry])
     else rs_error st)"

definition start_state :: "relay_state \<Rightarrow> relay_state" where
  "start_state st = st\<lparr>rs_retry := 0, rs_resetNextTry := False, rs_error := None, rs_attempted := False, rs_limited := False\<rparr>"

text \<open>
  \<open>Relay\<close> from the pre-consumption on: the final error, the billing session and the refund it has started.  \<open>None\<close>
  is a pre-consumption that does not return.
\<close>

definition Relay ::
    "relay_env \<Rightarrow> int \<Rightarrow> bool \<Rightarrow> int \<Rightarrow> RelayInfo \<Rightarrow> (nat \<Rightarrow> attempt) \<Rightarrow> relay_state \<Rightarrow>
     ((NewAPIError option \<times> BillingSession option \<times> refund_job option) \<times> relay_state) option" where
  "Relay re token_quota freeModel quotaToPreConsume info atts st =
    (case (if freeModel then Some (Inr None, rs_store st)
           else map_option (map_prod (map_sum id Some) id)
                  (PreConsumeBilling (re_env re) token_quota quotaToPreConsume info (rs_store st))) of
       None \<Rightarrow> None
     | Some (Inl e, s) \<Rightarrow> Some ((Some e, None, None), st\<lparr>rs_store := s\<rparr>)
     | Some (Inr billing, s) \<Rightarrow>
        let st1 = relay_loop re atts 0 (start_state (st\<lparr>rs_store := s\<rparr>)); err = final_error st1 in
        Some (case (err, billing) of
                (Some _, Some b) \<Rightarrow> (case Refund b of (b', job) \<Rightarrow> ((err, Some b', job), st1))
              | _ \<Rightarrow> ((err, billing, None), st1)))"

section \<open>How often a request is sent\<close>

abbreviation used :: "relay_state \<Rightarrow> int list" where
  "used st \<equiv> cx_use_channel (rs_ctx st)"

lemma run_jobs_used: "used (run_jobs re n st) = used st"
  by (induction re n st rule: run_jobs.induct) (simp_all split: list.splits prod.splits)

lemma select_channel_used: "select_channel re att i g r st = (x, st') \<Longrightarrow> used st' = used st"
  by (auto simp: select_channel_def split: prod.splits)

lemma auto_select_used: "auto_select re att start i gs st = (x, st') \<Longrightarrow> used st' = used st"
proof (induction re att start i gs st arbitrary: x st' rule: auto_select.induct)
  case (2 re att start i g gs st)
  let ?r = "if i > start then 0 else rs_retry st"
  obtain c e st1 where sel: "select_channel re att i g ?r st = ((c, e), st1)" by (metis prod_cases3 surj_pair)
  note u = select_channel_used [OF sel]
  show ?case
  proof (cases c)
    case None
    then show ?thesis using 2(3) sel 2(1) [OF refl sel [symmetric] refl None] u by (simp add: Let_def)
  next
    case (Some d)
    then show ?thesis using 2(3) sel 2(2) [OF refl sel [symmetric] refl Some] u by (auto simp: Let_def split: if_splits)
  qed
qed simp

lemma choose_used: "CacheGetRandomSatisfiedChannel re att st = (r, st') \<Longrightarrow> used st' = used st"
  by (auto simp: CacheGetRandomSatisfiedChannel_def Let_def split: if_splits prod.splits option.splits
      dest: auto_select_used select_channel_used)

lemma setup_used: "SetupContextForSelectedChannel re att ch st = (x, st') \<Longrightarrow> used st' = used st"
  by (auto simp: SetupContextForSelectedChannel_def Let_def split: prod.splits sum.splits)

lemma getChannel_used: "getChannel re att st = (r, st') \<Longrightarrow> used st' = used st"
  by (auto simp: getChannel_def Let_def split: if_splits prod.splits sum.splits option.splits dest!: choose_used setup_used)

lemma processChannelError_used [simp]: "used (processChannelError re att ce e st) = used st"
  by (simp add: processChannelError_def Let_def split: prod.splits)

lemma send_used: "send re att ch st = Stop st' \<or> send re att ch st = Again st' \<Longrightarrow> used st' = used st @ [ch_Id ch]"
  by (auto simp: send_def Let_def split: option.splits if_splits)

lemma pass_used:
  assumes "one_pass re att st = Stop st' \<or> one_pass re att st = Again st'"
  shows "length (used st') \<le> length (used st) + 1"
proof -
  let ?st = "run_jobs re (at_jobs att) st"
  obtain r st1 where get: "getChannel re att ?st = (r, st1)" by (metis surj_pair)
  have u: "used ?st = used st" "used st1 = used st" using run_jobs_used getChannel_used [OF get] by auto
  show ?thesis
  proof (cases r)
    case (Inr ch)
    obtain a lm where acq: "TryAcquireChannelRequestForContext (limitInRedis re) (at_redis att) (at_now att)
      (Some (cx_settings (rs_ctx st1))) (ch_Id ch) (rs_limiter st1) = (a, lm)" by (metis surj_pair)
    show ?thesis
      using assms get Inr acq u send_used [of re att ch "st1\<lparr>rs_limiter := lm\<rparr>"]
      by (cases a; cases "projr a") (auto simp: one_pass_def Let_def split: if_splits option.splits)
  qed (use assms get u in \<open>auto simp: one_pass_def Let_def split: if_splits\<close>)
qed

lemma IncreaseRetry_used [simp]: "used (IncreaseRetry st) = used st"
  by (simp add: IncreaseRetry_def)

lemma loop_used: "length (used (relay_loop re atts k st)) \<le> length (used st) + remaining re st"
proof (induction re atts k st rule: relay_loop.induct)
  case (1 re atts k st)
  show ?case
  proof (cases "RetryTimes re < rs_retry st")
    case False
    then have pos: "0 < remaining re st" by (simp add: remaining_def)
    show ?thesis
    proof (cases "one_pass re (atts k) st")
      case (Stop st')
      then show ?thesis using pass_used [of re "atts k" st st'] pos False by (simp add: relay_loop.simps)
    next
      case (Again st')
      then show ?thesis
        using 1 [OF False Again] pass_used [of re "atts k" st st'] remaining_decreases [OF Again False] False
        by (simp add: relay_loop.simps)
    qed
  qed (simp add: relay_loop.simps)
qed

text \<open>
  C18. Relaying ends, and a request is sent upstream at most once more than the retries allow; with an automatic group the
  retries start again in every further group, which bounds the attempts by the number of groups.
\<close>

theorem attempts_bounded:
  "length (cx_use_channel (rs_ctx (relay_loop re atts 0 (start_state st)))) \<le>
   length (cx_use_channel (rs_ctx st)) + (RetryTimes re + 1) +
   (if tokenGroup re = ''auto'' then length (userAutoGroups re) * (RetryTimes re + 3) else 0)"
proof -
  have "remaining re (start_state st) \<le>
      (RetryTimes re + 1) + (if tokenGroup re = ''auto'' then length (userAutoGroups re) * (RetryTimes re + 3) else 0)"
    by (auto simp: remaining_def start_state_def)
  then show ?thesis using loop_used [of re atts 0 "start_state st"] by (simp add: start_state_def)
qed

section \<open>A rate-limited channel is not replaced\<close>

lemma prune_idem: "pruneChannelRateLimitSamples (pruneChannelRateLimitSamples ts now) now = pruneChannelRateLimitSamples ts now"
  by (induction ts) auto

lemma localAcquire_refused:
  assumes "localAcquire now i c l = (False, l')"
  shows "localAcquire now i c l' = (False, l')"
  using assms by (auto simp: localAcquire_def Let_def pruned_def window_of_def prune_idem split: if_splits)

lemma acquire_refused:
  assumes "TryAcquireChannelRequestForContext False rup now ctx i s = (Inr False, s')"
  shows "TryAcquireChannelRequestForContext False rup' now ctx i s' = (Inr False, s')"
  using assms localAcquire_refused
  by (auto simp: TryAcquireChannelRequestForContext_def TryAcquireChannelRequest_def split: option.splits if_splits prod.splits)

lemma acquire_local:
  "TryAcquireChannelRequestForContext False rup now ctx i s = TryAcquireChannelRequestForContext False True now ctx i s"
  by (cases ctx) (simp_all add: TryAcquireChannelRequestForContext_def TryAcquireChannelRequest_def)

lemma refused_loop:
  assumes "\<And>k. at_now (atts k) = now \<and> \<not> at_gone (atts k) \<and> at_body (atts k) = None \<and> at_jobs (atts k) = 0"
    and "\<not> limitInRedis re" "\<not> rs_meta st" "\<not> rs_resetNextTry st" "rs_error st = None" "\<not> rs_attempted st"
    and "TryAcquireChannelRequestForContext False True now (Some (cx_settings (rs_ctx st))) (cx_channel_id (rs_ctx st)) (rs_limiter st)
      = (Inr False, lm)"
    and "rs_retry st \<le> RetryTimes re \<or> rs_limited st"
  shows "rs_error (relay_loop re atts k st) = None \<and> rs_limited (relay_loop re atts k st) \<and>
    \<not> rs_attempted (relay_loop re atts k st) \<and> used (relay_loop re atts k st) = used st"
  using assms
proof (induction re atts k st arbitrary: lm rule: relay_loop.induct)
  case (1 re atts k st)
  show ?case
  proof (cases "RetryTimes re < rs_retry st")
    case False
    let ?st = "st\<lparr>rs_limiter := lm, rs_limited := True\<rparr>"
    have acq: "TryAcquireChannelRequestForContext False rup now (Some (cx_settings (rs_ctx st))) (cx_channel_id (rs_ctx st)) (rs_limiter st)
      = (Inr False, lm)" for rup
      using 1(8) by (subst acquire_local)
    have pass: "one_pass re (atts k) st = Again ?st"
      using 1(2) [of k] 1(3,4) acq by (simp add: one_pass_def getChannel_def Let_def blank_def)
    have "TryAcquireChannelRequestForContext False True now (Some (cx_settings (rs_ctx (IncreaseRetry ?st))))
        (cx_channel_id (rs_ctx (IncreaseRetry ?st))) (rs_limiter (IncreaseRetry ?st)) = (Inr False, lm)"
      using acquire_refused [OF 1(8)] 1(5) by (simp add: IncreaseRetry_def)
    from 1(1) [OF False pass 1(2,3) _ _ _ _ this] show ?thesis
      using 1(4-7) pass False by (simp add: relay_loop.simps [of re atts k st] IncreaseRetry_def)
  qed (use 1(4-) in \<open>auto simp: relay_loop.simps\<close>)
qed

text \<open>
  C36. When the channel that was chosen before the relay has no slot left in its rate limit, the request is not
  sent to any channel: every pass of the loop tries the same channel again, whatever other channels the cache holds,
  and the client gets status 429.
\<close>

theorem limited_channel_not_replaced:
  assumes "\<forall>k. at_now (atts k) = now \<and> \<not> at_gone (atts k) \<and> at_body (atts k) = None \<and> at_jobs (atts k) = 0"
    and "\<not> limitInRedis re" "\<not> rs_meta st"
    and "TryAcquireChannelRequestForContext False True now (Some (cx_settings (rs_ctx st))) (cx_channel_id (rs_ctx st)) (rs_limiter st)
      = (Inr False, lm)"
  shows "map_option api_StatusCode (final_error (relay_loop re atts 0 (start_state st))) = Some 429 \<and>
    cx_use_channel (rs_ctx (relay_loop re atts 0 (start_state st))) = cx_use_channel (rs_ctx st)"
proof -
  have "rs_error (relay_loop re atts 0 (start_state st)) = None \<and> rs_limited (relay_loop re atts 0 (start_state st)) \<and>
      \<not> rs_attempted (relay_loop re atts 0 (start_state st)) \<and> used (relay_loop re atts 0 (start_state st)) = used (start_state st)"
    using assms by (intro refused_loop) (auto simp: start_state_def)
  then show ?thesis by (simp add: final_error_def NewErrorWithStatusCode_def apply_options_def start_state_def)
qed

definition demo_relay_env :: relay_env where
  "demo_relay_env = \<lparr>re_env = demo_env False, re_ce = demo_channel_env, RetryTimes = 2, AutomaticDisableChannelEnabled = True,
     retryRanges = AutomaticRetryStatusCodeRanges, disableRanges = AutomaticDisableStatusCodeRanges, disableKeyword = (\<lambda>_. False),
     limitInRedis = False, tokenGroup = ''default'', userAutoGroups = [], crossGroupRetry = False, modelName = ''m'',
     requestPath = [], affinitySkipRetry = False, specificChannel = False, channelText = (\<lambda>_. [])\<rparr>"

definition demo_attempt :: attempt where
  "demo_attempt = \<lparr>at_jobs = 0, at_gone = False, at_body = None, at_now = 0, at_redis = True, at_rnd = (\<lambda>_ _. 0),
     at_error = None, at_goneAfter = False, at_semanticOutput = False\<rparr>"

definition demo_relay_state :: relay_state where
  "demo_relay_state = \<lparr>rs_retry = 0, rs_resetNextTry = False, rs_meta = False,
     rs_ctx = \<lparr>cx_channel_id = 1, cx_channel_type = 1, cx_channel_name = ''c'', cx_auto_ban = True,
       cx_settings = Some (zero_settings\<lparr>ChannelRequestRateLimitCount := 1\<rparr>), cx_key = ''k'', cx_multi_key = False,
       cx_auto_group_index = None, cx_use_channel = []\<rparr>,
     rs_cache = demo_cache, rs_health = Map.empty,
     rs_limiter = \<lparr>local_state = [1 \<mapsto> \<lparr>rw_total = [0], rw_success = []\<rparr>],
       redis_state = \<lparr>zset = (\<lambda>_. \<lparr>entries = [], expires = None\<rparr>), serial = 0\<rparr>\<rparr>,
     rs_store = demo_store, rs_jobs = [], rs_error = None, rs_attempted = False, rs_limited = False\<rparr>"

theorem limited_channel_not_replaced_witness:
  "map_option api_StatusCode (final_error (relay_loop demo_relay_env (\<lambda>_. demo_attempt) 0 (start_state demo_relay_state))) = Some 429 \<and>
   fst (GetRandomSatisfiedChannel demo_channel_env (\<lambda>_. 500) demo_cache ''default'' ''m'' 0 [] demo_store) = (Some (demo_channel 2 ''u''), None)"
proof -
  have "TryAcquireChannelRequestForContext False True 0 (Some (cx_settings (rs_ctx demo_relay_state))) (cx_channel_id (rs_ctx demo_relay_state))
     (rs_limiter demo_relay_state) = (Inr False, rs_limiter demo_relay_state)"
    by (simp add: TryAcquireChannelRequestForContext_def TryAcquireChannelRequest_def channelRateLimitConfigFromContext_def
        ChannelRateLimitConfigFromSettings_def Enabled_def localAcquire_def window_of_def pruned_def saturated_def
        channelRateLimitWindow_def demo_relay_state_def zero_settings_def Let_def)
  moreover have "\<not> limitInRedis demo_relay_env" "\<not> rs_meta demo_relay_state"
    by (simp_all add: demo_relay_env_def demo_relay_state_def)
  moreover have "fst (GetRandomSatisfiedChannel demo_channel_env (\<lambda>_. 500) demo_cache ''default'' ''m'' 0 [] demo_store) =
      (Some (demo_channel 2 ''u''), None)"
  proof -
    have "cached_selection demo_channel_env (\<lambda>_. 500) demo_cache ''default'' ''m'' 0 [] =
        select_weighted (\<lambda>_. 500) [demo_channel 1 ''t'', demo_channel 2 ''u''] 0"
      by (rule cached_selection_many [where ids = "[1, 2]"])
         (simp_all add: candidates_def filterChannelsByRequestPathAndModel_def cached_ids_def demo_cache_def)
    also have "\<dots> = (Some (demo_channel 2 ''u''), None)"
      by (simp add: select_weighted_eq [OF _ refl] demo_at_target demo_weights sortChannelsForRouting_def routes_before_def
          effective_weight_def smoothing_def totalWeight_def) (simp add: GetWeight_def demo_channel_def routes_before_def)
    finally show ?thesis by (simp add: GetRandomSatisfiedChannel_def demo_channel_env_def)
  qed
  ultimately show ?thesis
    using limited_channel_not_replaced [of "\<lambda>_. demo_attempt" 0 demo_relay_env demo_relay_state "rs_limiter demo_relay_state"]
    by (simp add: demo_attempt_def)
qed

section \<open>Billing of a relayed request\<close>

text \<open>Choosing and disabling channels touches the tables of channels and abilities only.\<close>

definition kept :: "store \<Rightarrow> store \<Rightarrow> bool" where
  "kept s s' \<longleftrightarrow> (db s')\<lparr>channels := [], abilities := []\<rparr> = (db s)\<lparr>channels := [], abilities := []\<rparr> \<and>
     batchUpdateStores s' = batchUpdateStores s \<and> (faults s = [] \<longrightarrow> faults s' = [])"

lemma kept_refl [simp]: "kept s s"
  by (simp add: kept_def)

lemma kept_trans: "kept s s1 \<Longrightarrow> kept s1 s2 \<Longrightarrow> kept s s2"
  by (simp add: kept_def)

lemma stmt_kept: "stmt s = (b, s') \<Longrightarrow> kept s s'"
  using stmt_eqD [of s b s'] by (auto simp: kept_def)

lemma set_channels_kept: "kept s (set_channels f s)"
  by (simp add: kept_def set_channels_def)

lemma set_abilities_kept: "kept s (set_abilities f s)"
  by (simp add: kept_def set_abilities_def)

lemma exec_stmt_kept: "(\<And>s1. kept s1 (f s1)) \<Longrightarrow> kept s (snd (exec_stmt f s))"
  by (auto simp: exec_stmt_def split: prod.splits bool.splits dest!: stmt_kept intro: kept_trans)

lemma GetChannelById_kept: "GetChannelById i b s = (r, s') \<Longrightarrow> kept s s'"
  by (auto simp: GetChannelById_def split: prod.splits bool.splits option.splits dest: stmt_kept)

lemma SaveWithoutKey_kept: "kept s (snd (SaveWithoutKey c s))"
  unfolding SaveWithoutKey_def by (simp add: exec_stmt_kept set_channels_kept)

lemma UpdateAbilityStatus_kept: "kept s (snd (UpdateAbilityStatus i b s))"
  unfolding UpdateAbilityStatus_def by (intro exec_stmt_kept set_abilities_kept)

lemma update_status_row_kept: "kept s (snd (update_status_row env ce i key status reason s))"
proof -
  obtain r s1 where get: "GetChannelById i True s = (r, s1)" by (metis surj_pair)
  have "kept s1 (snd (SaveWithoutKey c s1))" "kept s1 (snd (UpdateAbilityStatus i b (snd (SaveWithoutKey c s1))))" for c b
    using SaveWithoutKey_kept UpdateAbilityStatus_kept kept_trans by blast+
  then show ?thesis using GetChannelById_kept [OF get] get
    by (cases r) (auto simp: update_status_row_def Let_def case_prod_beta intro: kept_trans)
qed

lemma UpdateChannelStatus_kept: "UpdateChannelStatus env ce i key status reason cache s = (ok, cache', s') \<Longrightarrow> kept s s'"
  using update_status_row_kept [of s env ce i key status reason]
  by (auto simp: UpdateChannelStatus_def split: prod.splits if_splits)

lemma run_jobs_kept: "kept (rs_store st) (rs_store (run_jobs re n st))"
proof (induction re n st rule: run_jobs.induct)
  case (2 re n st)
  show ?case
  proof (cases "rs_jobs st")
    case (Cons j rest)
    obtain ce reason where j: "j = (ce, reason)" by (metis surj_pair)
    obtain cache s where d: "DisableChannel (re_env re) (re_ce re) ce reason (rs_cache st) (rs_store st) = (cache, s)" by (metis surj_pair)
    then have "kept (rs_store st) s"
      using UpdateChannelStatus_kept by (cases "UpdateChannelStatus (re_env re) (re_ce re) (ce_ChannelId ce) (ce_UsingKey ce) ChannelStatusAutoDisabled reason (rs_cache st) (rs_store st)")
        (auto simp: DisableChannel_def split: if_splits)
    then show ?thesis using 2 [OF Cons j [symmetric] d [symmetric]] Cons j d by (auto intro: kept_trans)
  qed simp
qed simp

lemma Channel_Save_kept: "kept s (snd (Channel_Save c s))"
  unfolding Channel_Save_def by (intro exec_stmt_kept set_channels_kept)

lemma GetOtherSettings_kept: "GetOtherSettings ce ch s = (st, ch', s') \<Longrightarrow> kept s s'"
  by (auto simp: GetOtherSettings_def Let_def Channel_Save_kept split: if_splits prod.splits bool.splits)

lemma advanced_config_kept: "advanced_config ce ch s = (cfg, ch', s') \<Longrightarrow> kept s s'"
  by (auto simp: advanced_config_def split: if_splits prod.splits dest: GetOtherSettings_kept)

lemma ability_configs_kept: "ability_configs ce chs s = (m, s') \<Longrightarrow> kept s s'"
proof (induction chs arbitrary: s m s')
  case (Cons ch chs)
  obtain cfg ch' s1 where one: "advanced_config ce ch s = (cfg, ch', s1)" by (metis prod_cases3)
  obtain m' s2 where rest: "ability_configs ce chs s1 = (m', s2)" by (metis surj_pair)
  then show ?case using Cons.IH [OF rest] advanced_config_kept [OF one] Cons.prems one rest by (auto intro: kept_trans split: if_splits)
qed simp

lemma getChannelQuery_kept: "getChannelQuery g m retry s = (r, s') \<Longrightarrow> kept s s'"
  by (auto simp: getChannelQuery_def getPriority_def Let_def split: if_splits prod.splits bool.splits sum.splits dest!: stmt_kept)

lemma filterAbilities_kept: "filterAbilitiesByRequestPathAndModel ce as path m s = (r, s') \<Longrightarrow> kept s s'"
  by (auto simp: filterAbilitiesByRequestPathAndModel_def split: if_splits prod.splits bool.splits
      dest!: stmt_kept ability_configs_kept intro: kept_trans)

lemma order_abilities_kept: "order_abilities as s = (r, s') \<Longrightarrow> kept s s'"
  by (auto simp: order_abilities_def split: if_splits prod.splits bool.splits dest!: stmt_kept)

lemma GetChannel_kept: "GetChannel ce rnd g m retry path s = (r, s') \<Longrightarrow> kept s s'"
proof -
  assume get: "GetChannel ce rnd g m retry path s = (r, s')"
  obtain q s1 where q: "getChannelQuery g m retry s = (q, s1)" by (metis surj_pair)
  obtain b s2 where b: "stmt s1 = (b, s2)" by (metis surj_pair)
  have k: "kept s s1" "kept s1 s2" using getChannelQuery_kept [OF q] stmt_kept [OF b] by simp_all
  show ?thesis
  proof (cases q)
    case (Inr f)
    obtain as s3 where f: "filterAbilitiesByRequestPathAndModel ce (sort_by (\<lambda>a b. ab_Weight a > ab_Weight b) (f (abilities (db s2)))) path m s2 = (as, s3)"
      by (metis surj_pair)
    obtain as' s4 where o: "order_abilities as s3 = (as', s4)" by (metis surj_pair)
    obtain c s5 where c: "GetChannelById (pick_ability (rnd (weight_sum as')) as') True s4 = (c, s5)" by (metis surj_pair)
    have "kept s s2" "kept s s4" "kept s s5"
      using k filterAbilities_kept [OF f] order_abilities_kept [OF o] GetChannelById_kept [OF c] kept_trans by metis+
    then show ?thesis using get q b Inr f o c
      by (auto simp: GetChannel_def Let_def split: bool.splits if_splits sum.splits)
  qed (use get q k in \<open>simp add: GetChannel_def\<close>)
qed

lemma select_channel_kept: "select_channel re att i g retry st = (r, st') \<Longrightarrow> kept (rs_store st) (rs_store st')"
  by (auto simp: select_channel_def GetRandomSatisfiedChannel_def split: prod.splits if_splits dest: GetChannel_kept)

lemma auto_select_kept: "auto_select re att start i gs st = (x, st') \<Longrightarrow> kept (rs_store st) (rs_store st')"
proof (induction re att start i gs st arbitrary: x st' rule: auto_select.induct)
  case (2 re att start i g gs st)
  let ?r = "if i > start then 0 else rs_retry st"
  obtain c e st1 where sel: "select_channel re att i g ?r st = ((c, e), st1)" by (metis prod_cases3 surj_pair)
  note k = select_channel_kept [OF sel]
  show ?case
  proof (cases c)
    case None
    then show ?thesis using 2(3) sel 2(1) [OF refl sel [symmetric] refl None] kept_trans [OF k] by (simp add: Let_def)
  next
    case (Some d)
    then show ?thesis using 2(3) sel 2(2) [OF refl sel [symmetric] refl Some] k kept_trans [OF k] by (auto simp: Let_def split: if_splits)
  qed
qed simp

lemma choose_kept: "CacheGetRandomSatisfiedChannel re att st = (r, st') \<Longrightarrow> kept (rs_store st) (rs_store st')"
  by (auto simp: CacheGetRandomSatisfiedChannel_def Let_def split: if_splits prod.splits option.splits
      dest: auto_select_kept select_channel_kept)

lemma GetNextEnabledKey_kept: "GetNextEnabledKey ce rnd cache ch s = (r, ch', s') \<Longrightarrow> kept s s'"
proof -
  assume key: "GetNextEnabledKey ce rnd cache ch s = (r, ch', s')"
  obtain x s1 where info: "CacheGetChannelInfo ce cache (ch_Id ch) s = (x, s1)" by (metis surj_pair)
  then have k: "kept s s1" by (auto simp: CacheGetChannelInfo_def split: if_splits prod.splits sum.splits option.splits dest: GetChannelById_kept)
  have "kept s (snd (SaveChannelInfo c s1))" for c
    unfolding SaveChannelInfo_def by (intro kept_trans [OF k] exec_stmt_kept set_channels_kept)
  then show ?thesis using key info k
    by (auto simp: GetNextEnabledKey_def Let_def split: if_splits sum.splits option.splits)
qed

lemma setup_kept: "SetupContextForSelectedChannel re att ch st = (x, st') \<Longrightarrow> kept (rs_store st) (rs_store st')"
  by (auto simp: SetupContextForSelectedChannel_def Let_def split: prod.splits sum.splits
      dest!: GetOtherSettings_kept GetNextEnabledKey_kept intro: kept_trans)

lemma getChannel_kept: "getChannel re att st = (r, st') \<Longrightarrow> kept (rs_store st) (rs_store st')"
  by (auto simp: getChannel_def Let_def split: if_splits prod.splits sum.splits option.splits
      dest!: choose_kept setup_kept intro: kept_trans)

lemma processChannelError_store [simp]: "rs_store (processChannelError re att ce e st) = rs_store st"
  by (simp add: processChannelError_def Let_def split: prod.splits)

lemma send_store: "send re att ch st = Stop st' \<or> send re att ch st = Again st' \<Longrightarrow> rs_store st' = rs_store st"
  by (auto simp: send_def Let_def split: option.splits if_splits)

lemma pass_kept:
  assumes "one_pass re att st = Stop st' \<or> one_pass re att st = Again st'"
  shows "kept (rs_store st) (rs_store st')"
proof -
  let ?st = "run_jobs re (at_jobs att) st"
  obtain r st1 where get: "getChannel re att ?st = (r, st1)" by (metis surj_pair)
  have k: "kept (rs_store st) (rs_store ?st)" "kept (rs_store st) (rs_store st1)"
    using run_jobs_kept getChannel_kept [OF get] kept_trans by blast+
  show ?thesis
  proof (cases r)
    case (Inr ch)
    obtain a lm where acq: "TryAcquireChannelRequestForContext (limitInRedis re) (at_redis att) (at_now att)
      (Some (cx_settings (rs_ctx st1))) (ch_Id ch) (rs_limiter st1) = (a, lm)" by (metis surj_pair)
    show ?thesis
      using assms get Inr acq k send_store [of re att ch "st1\<lparr>rs_limiter := lm\<rparr>"]
      by (cases a; cases "projr a") (auto simp: one_pass_def Let_def split: if_splits option.splits)
  qed (use assms get k in \<open>auto simp: one_pass_def Let_def split: if_splits\<close>)
qed

lemma loop_kept: "kept (rs_store st) (rs_store (relay_loop re atts k st))"
proof (induction re atts k st rule: relay_loop.induct)
  case (1 re atts k st)
  have "rs_store (IncreaseRetry st') = rs_store st'" for st' by (simp add: IncreaseRetry_def)
  then show ?case
    using 1 pass_kept [of re "atts k" st]
    by (cases "one_pass re (atts k) st") (auto simp: relay_loop.simps [of re atts k st] intro: kept_trans)
qed

lemma keptD:
  assumes "kept s s'"
  shows "users (db s') = users (db s)" "tokens (db s') = tokens (db s)" "subs (db s') = subs (db s)"
    "preRecords (db s') = preRecords (db s)" "batchUpdateStores s' = batchUpdateStores s" "faults s = [] \<Longrightarrow> faults s' = []"
proof -
  have d: "(db s')\<lparr>channels := [], abilities := []\<rparr> = (db s)\<lparr>channels := [], abilities := []\<rparr>"
    and "batchUpdateStores s' = batchUpdateStores s" "faults s = [] \<Longrightarrow> faults s' = []"
    using assms by (simp_all add: kept_def)
  then show "batchUpdateStores s' = batchUpdateStores s" "faults s = [] \<Longrightarrow> faults s' = []" by simp_all
  show "users (db s') = users (db s)" using arg_cong [OF d, of users] by simp
  show "tokens (db s') = tokens (db s)" using arg_cong [OF d, of tokens] by simp
  show "subs (db s') = subs (db s)" using arg_cong [OF d, of subs] by simp
  show "preRecords (db s') = preRecords (db s)" using arg_cong [OF d, of preRecords] by simp
qed

lemma kept_balances:
  assumes "kept s s'"
  shows "user_balance s' i = user_balance s i" "token_balance s' i = token_balance s i" "funding_spent f s' = funding_spent f s"
    "reserved F T b s' = reserved F T b s" "up b s \<Longrightarrow> up b s'"
proof -
  note k = keptD [OF assms]
  show bal: "user_balance s' i = user_balance s i" "token_balance s' i = token_balance s i" for i
    using k by (simp_all add: user_balance_def token_balance_def)
  show spent: "funding_spent f s' = funding_spent f s" for f by (cases f) (simp_all add: bal sub_used_def k)
  have "held f s' = held f s" for f by (cases f) (simp_all add: k)
  then show "reserved F T b s' = reserved F T b s" by (simp add: reserved_def spent token_spent_def bal)
  show "up b s \<Longrightarrow> up b s'" using k by (simp add: up_def)
qed

lemma Relay_opened:
  assumes "PreConsumeBilling (re_env re) tq q info (rs_store st) = Some (Inr b0, s0)"
  shows "Relay re tq False q info atts st =
    (let st1 = relay_loop re atts 0 (start_state (st\<lparr>rs_store := s0\<rparr>)); err = final_error st1 in
     Some (if err = None then ((None, Some b0, None), st1)
           else case Refund b0 of (b', job) \<Rightarrow> ((err, Some b', job), st1)))"
  using assms by (simp add: Relay_def Let_def split: option.splits)


definition demo_request :: relay_state where
  "demo_request = demo_relay_state\<lparr>rs_store := demo_expiry (- 1)\<rparr>"

lemma demo_request_sel: "rs_store demo_request = demo_expiry (- 1)" "\<not> rs_meta demo_request" "cx_use_channel (rs_ctx demo_request) = []"
    "re_env demo_relay_env = demo_env False"
  by (simp_all add: demo_request_def demo_relay_state_def demo_relay_env_def)


text \<open>
  C37. When the client is gone before the first attempt, relaying ends without an error and without an attempt: nothing is settled and no refund is
  started, so the reserved quota stays taken from the wallet.
\<close>

theorem early_disconnect_keeps_reservation:
  assumes "PreConsumeBilling (re_env re) tq q info (rs_store st) = Some (Inr b0, s0)" "ready info (rs_store st)"
    and "at_gone (atts 0)" "at_jobs (atts 0) = 0" "cx_use_channel (rs_ctx st) = []"
  shows "\<exists>st1. Relay re tq False q info atts st = Some ((None, Some b0, None), st1) \<and> cx_use_channel (rs_ctx st1) = [] \<and>
    (Source (bs_funding b0) = ''wallet'' \<longrightarrow>
       user_balance (rs_store st1) (ri_UserId info) = user_balance (rs_store st) (ri_UserId info) - bs_preConsumedQuota b0)"
proof -
  let ?st = "start_state (st\<lparr>rs_store := s0\<rparr>)"
  have "relay_loop re atts 0 ?st = ?st"
    using assms(3,4) by (simp add: relay_loop.simps one_pass_def start_state_def)
  moreover have "final_error ?st = None" by (simp add: final_error_def start_state_def)
  ultimately have "Relay re tq False q info atts st = Some ((None, Some b0, None), ?st)" by (simp add: Relay_opened [OF assms(1)])
  then show ?thesis
    using PreConsumeBilling_accounts [OF assms(1,2)] assms(5) by (simp add: start_state_def accounts_ok_def)
qed

theorem early_disconnect_keeps_reservation_witness:
  "\<exists>b0 st1. Relay demo_relay_env 500 False 40 (demo_info ''wallet_only'') (\<lambda>_. demo_attempt\<lparr>at_gone := True\<rparr>) demo_request =
       Some ((None, Some b0, None), st1) \<and> cx_use_channel (rs_ctx st1) = [] \<and> user_balance (rs_store st1) 1 = 1000 - bs_preConsumedQuota b0"
proof -
  let ?info = "demo_info ''wallet_only''"
  obtain b0 s0 where pre: "PreConsumeBilling (re_env demo_relay_env) 500 40 ?info (rs_store demo_request) = Some (Inr b0, s0)"
      "ready ?info (rs_store demo_request)" "Source (bs_funding b0) = ''wallet''"
    using demo_life unfolding demo_request_sel by blast
  have "user_balance (demo_expiry (- 1)) 1 = 1000" by (simp add: demo_expiry_def demo_defs user_balance_def)
  moreover have "at_gone (demo_attempt\<lparr>at_gone := True\<rparr>)" "at_jobs (demo_attempt\<lparr>at_gone := True\<rparr>) = 0" by (simp_all add: demo_attempt_def)
  moreover have "ri_UserId ?info = 1" by (simp add: demo_info_def)
  moreover from calculation have "\<exists>st1. Relay demo_relay_env 500 False 40 ?info (\<lambda>_. demo_attempt\<lparr>at_gone := True\<rparr>) demo_request =
       Some ((None, Some b0, None), st1) \<and> cx_use_channel (rs_ctx st1) = [] \<and>
       (Source (bs_funding b0) = ''wallet'' \<longrightarrow> user_balance (rs_store st1) (ri_UserId ?info) =
          user_balance (rs_store demo_request) (ri_UserId ?info) - bs_preConsumedQuota b0)"
    by (intro early_disconnect_keeps_reservation [OF pre(1,2)] demo_request_sel(3))
  ultimately show ?thesis using pre(3) unfolding demo_request_sel by (metis (no_types))
qed

end
