(* ===== verification/Spec2Isabelle.thy ===== *)
theory Spec2Isabelle
  imports Rewards Channel_Listing Relay_Loop
begin

text \<open>
  Verification library for the AI gateway under \<^verbatim>\<open>src/\<close>: the money in it, and the choice of the
  upstream channel.  A client sends a request with
  an API token; the gateway checks the token, reserves the estimated price from the user's wallet or
  from one of the user's subscriptions, chooses an upstream channel, sends the request to it, tries others when it
  fails, and settles the difference or gives the reservation back.  Wallets are filled by payment providers, redemption codes and
  a daily check-in.

  \<^bold>\<open>Theories and sources.\<close>
  \<^item> \<open>Go_Prelude\<close>, \<open>Go_Time\<close>: what the code uses of Go and its library (int64 wrap-around, byte strings,
    \<open>strconv\<close>, stable sorting, the civil calendar, time zones and wrapping durations).
  \<^item> \<open>Status_Ranges\<close>: \<^verbatim>\<open>setting/operation_setting/status_code_ranges.go\<close>.
  \<^item> \<open>Quota_Math\<close>: \<^verbatim>\<open>common/quota_math.go\<close>.
  \<^item> \<open>Store\<close>: the rows of \<^verbatim>\<open>model/*.go\<close>, statements that may fail, \<open>DB.Transaction\<close>, the batch
    stores, the list of effects (cache writes, log records), and \<open>env\<close>, the configuration, clocks and caches.
  \<^item> \<open>Ledger\<close>: the quota operations of \<^verbatim>\<open>model/user.go\<close> and \<^verbatim>\<open>model/token.go\<close>, the batch updater
    of \<^verbatim>\<open>model/utils.go\<close>, invitation rewards.
  \<^item> \<open>Subscription\<close>, \<open>Subscription_Admin\<close>: \<^verbatim>\<open>model/subscription.go\<close> up to its orders.
  \<^item> \<open>Token_Auth\<close>: \<^verbatim>\<open>model/token.go\<close>, \<^verbatim>\<open>model/token_cache.go\<close>.
  \<^item> \<open>Api_Error\<close>: \<^verbatim>\<open>types/error.go\<close>.
  \<^item> \<open>Billing\<close>, \<open>Billing_Session\<close>: \<^verbatim>\<open>service/billing_session.go\<close>, \<^verbatim>\<open>service/funding_source.go\<close>,
    \<^verbatim>\<open>service/billing.go\<close> and the pre- and post-consume functions of \<^verbatim>\<open>service/quota.go\<close>.
  \<^item> \<open>Payments\<close>, \<open>Orders\<close>: \<^verbatim>\<open>model/topup.go\<close>, \<^verbatim>\<open>common/page_info.go\<close> and the orders of
    \<^verbatim>\<open>model/subscription.go\<close>.
  \<^item> \<open>Rewards\<close>: \<^verbatim>\<open>model/redemption.go\<close>, \<^verbatim>\<open>model/checkin.go\<close>.
  \<^item> \<open>Advanced_Routes\<close>: the routes of an advanced custom channel, \<^verbatim>\<open>dto/channel_settings.go\<close>.
  \<^item> \<open>Channel_Guard\<close>: \<^verbatim>\<open>service/channel_health.go\<close>, \<^verbatim>\<open>service/channel_rate_limit.go\<close>.
  \<^item> \<open>Channel_Table\<close>, \<open>Channel_Listing\<close>: the rows of channels and abilities, their operations and the group
    filter, \<^verbatim>\<open>model/channel.go\<close> and \<^verbatim>\<open>model/ability.go\<close>.
  \<^item> \<open>Channel_Cache\<close>: \<^verbatim>\<open>model/channel_cache.go\<close>, \<^verbatim>\<open>model/channel_satisfy.go\<close>, the selection of
    \<^verbatim>\<open>model/ability.go\<close> and the keys of \<^verbatim>\<open>model/channel.go\<close>.
  \<^item> \<open>Relay_Loop\<close>: the retry loop of \<^verbatim>\<open>controller/relay.go\<close> with \<^verbatim>\<open>service/channel_select.go\<close>,
    \<^verbatim>\<open>service/channel.go\<close>, \<^verbatim>\<open>service/group.go\<close>; it calls all of the above for one request.

  \<^bold>\<open>State and operations.\<close>  An operation is a function from a \<open>store\<close> to a result and a
  \<open>store\<close>; a result is an \<open>error\<close> or a value.  Each SQL statement takes the next entry of
  \<open>faults\<close> and fails when it is true, so that a theorem about every \<open>store\<close> is about every
  pattern of database failures.  Row locks and the session mutex make a transaction or a
  session operation one step; an interleaving is a sequence of steps, and the few
  read-modify-write races of the code are modelled with their read and write as separate steps.

  \<^bold>\<open>Interfaces.\<close>  \<open>quota_account\<close> (\<open>Ledger\<close>) is what billing needs of an account; it is interpreted for users and
  tokens.  \<open>funding_contract\<close> (\<open>Billing\<close>) is what a session needs of its funding source; it is
  interpreted for the wallet, the subscription and the dispatch between them.  \<open>order_completion\<close> (\<open>Payments\<close>) is
  what every completion of a top-up order promises; it is interpreted for the six completions.  \<open>sliding_window\<close> (\<open>Channel_Guard\<close>)
  is what a rate limit needs of its windows; it is interpreted for the slices in memory, for Redis and for the limiter that
  chooses between them.

  \<^bold>\<open>What the theorems show.\<close>
  A request is charged exactly once and exactly its price from both accounts, a failed one nothing, along every life of
  a session (\<open>Billing_Session\<close>).  Subscriptions stay within their totals, are charged and refunded once per request,
  and their resets return for every period that fits a duration (\<open>Subscription\<close>, \<open>Subscription_Admin\<close>).  Every paid order, code and
  check-in is credited at most once (\<open>Payments\<close>, \<open>Orders\<close>, \<open>Rewards\<close>).  The batch mode
  of the ledger refines the direct mode (\<open>Ledger\<close>).  Tokens are accepted exactly when they should be and searches are
  scoped to their user (\<open>Token_Auth\<close>).  Conversions of prices saturate, are monotone and keep the
  sign (\<open>Quota_Math\<close>).  Status code rules mean what their text says (\<open>Status_Ranges\<close>).
  Ability rows follow their channels under every operation (\<open>Channel_Table\<close>); a refreshed cache agrees with them, only enabled
  channels are selected, in proportion to their weights, and every enabled key is served (\<open>Channel_Cache\<close>).  Rate limits hold in
  every window and end, a cool-down lasts as long as it should (\<open>Channel_Guard\<close>), validated routes are reached
  (\<open>Advanced_Routes\<close>).  Relaying ends, its attempts are bounded, and a request that fails costs nothing (\<open>Relay_Loop\<close>, over
  \<open>Billing_Session\<close>).
  Some theorems record what the code does where that is not what it means to do.

  \<^bold>\<open>Bounds and fuel.\<close>  No operation has fuel.  The relay loop is a total function: every pass
  uses up a retry or a group.  The one loop that may not end, the advance of a
  subscription to its reset window, is a partial function into \<open>option\<close>; that it returns is proved for
  every period that fits, and that it does not for one that overflows.

  \<^bold>\<open>Parameters.\<close>  Decimal and float products, the contents of the Redis token and user caches, the order in which Go iterates a map, the
  clock, the time zone, random numbers, SQL \<open>LIKE\<close>, the decoding of JSON columns, regular expressions, URL parsing, the keyword
  automaton and the outcome of an upstream request are arguments of the definitions that use them; what a
  theorem assumes of one is a hypothesis with a witness.

  \<^bold>\<open>Not modelled.\<close>  The adaptors that translate between provider formats and send the request, HTTP controllers
  and routes other than the relay loop, channel affinity, asynchronous tasks, violation fees, list and count queries of channels, tokenizers, price
  tables, login methods, authorisation by casbin, reporting, notifications and files: they format, do I/O or call
  third-party packages around the modelled operations.
\<close>

end
